(* ===== verification/Prelude.thy ===== *)
theory Prelude
  imports Main "HOL-Library.Word"
begin

text \<open>
  Shared vocabulary of the development: machine integers, Go strings and the functions of
  the Go standard library that several components call, with the lemmas that carry the
  component proofs.

  A Go string is a sequence of bytes; it is a \<^typ>\<open>string\<close> here (a \<^typ>\<open>char\<close> is eight
  bits). \<open>TrimSpace\<close> and \<open>ToLower\<close> are modelled on the ASCII range, which is what host names,
  ports and route flags hold. Go's \<open>int\<close> and \<open>time.Duration\<close> are 64-bit signed; they are
  \<^typ>\<open>int\<close> with the range written out where the code checks it. Unsigned counters that the
  code lets wrap are words.
\<close>

section \<open>Types\<close>

type_synonym byte = "8 word"
type_synonym u16 = "16 word"
type_synonym u32 = "32 word"
type_synonym u64 = "64 word"

text \<open>Instants and durations, in nanoseconds.\<close>

type_synonym time = int

definition Second :: time where
  "Second = 1000000000"

definition Millisecond :: time where
  "Millisecond = 1000000"

definition Microsecond :: time where
  "Microsecond = 1000"

named_theorems go_string \<open>evaluation of the modelled string functions\<close>
named_theorems go_map \<open>facts about Go maps modelled as partial functions\<close>

section \<open>Lists and strings\<close>

subsection \<open>strings.Split and strings.Join\<close>

text \<open>\<open>strings.Split(s, sep)\<close> for a one-character separator: never an empty list.\<close>

fun split_on :: "'a \<Rightarrow> 'a list \<Rightarrow> 'a list list" where
  "split_on c [] = [[]]"
| "split_on c (x # xs) =
     (if x = c then [] # split_on c xs
      else (case split_on c xs of [] \<Rightarrow> [[x]] | y # ys \<Rightarrow> (x # y) # ys))"

fun join_with :: "'a list \<Rightarrow> 'a list list \<Rightarrow> 'a list" where
  "join_with sep [] = []"
| "join_with sep [x] = x"
| "join_with sep (x # y # ys) = x @ sep @ join_with sep (y # ys)"

lemma split_on_nonempty [simp]: "split_on c xs \<noteq> []"
  by (induction c xs rule: split_on.induct) (auto split: list.splits)

lemma split_on_fresh: "c \<notin> set xs \<Longrightarrow> split_on c xs = [xs]"
  by (induction xs) auto

lemma split_on_append_sep:
  "c \<notin> set xs \<Longrightarrow> split_on c (xs @ c # ys) = xs # split_on c ys"
  by (induction xs) auto

lemma split_on_join:
  assumes "ps \<noteq> []" and "\<And>p. p \<in> set ps \<Longrightarrow> c \<notin> set p"
  shows "split_on c (join_with [c] ps) = ps"
  using assms
proof (induction ps rule: list_nonempty_induct)
  case (single x)
  then show ?case by (simp add: split_on_fresh)
next
  case (cons x xs)
  then show ?case
    by (cases xs) (auto simp: split_on_append_sep)
qed

lemma join_split_on: "join_with [c] (split_on c xs) = xs"
proof (induction xs)
  case Nil
  show ?case by simp
next
  case (Cons x xs)
  obtain y ys where s: "split_on c xs = y # ys"
    by (cases "split_on c xs") auto
  with Cons show ?case by (cases ys) auto
qed

lemma split_on_no_sep: "p \<in> set (split_on c xs) \<Longrightarrow> c \<notin> set p"
proof (induction xs arbitrary: p)
  case Nil
  then show ?case by simp
next
  case (Cons x xs)
  obtain y ys where s: "split_on c xs = y # ys"
    by (cases "split_on c xs") auto
  have y: "c \<notin> set y" using Cons.IH [of y] s by simp
  show ?case
  proof (cases "x = c")
    case True
    then have "p = [] \<or> p \<in> set (split_on c xs)"
      using Cons.prems by auto
    then show ?thesis using Cons.IH by auto
  next
    case False
    then have "p = x # y \<or> p \<in> set ys"
      using Cons.prems s by auto
    then show ?thesis using Cons.IH s y False by auto
  qed
qed

lemma split_on_inverse:
  assumes "split_on c xs = ps"
  shows "xs = join_with [c] ps \<and> (\<forall>p \<in> set ps. c \<notin> set p)"
  using assms join_split_on split_on_no_sep by metis

text \<open>\<open>strings.Cut(s, sep)\<close> for a one-character separator.\<close>

definition cut :: "'a \<Rightarrow> 'a list \<Rightarrow> 'a list \<times> 'a list \<times> bool" where
  "cut c s = (if c \<in> set s
     then (takeWhile (\<lambda>x. x \<noteq> c) s, tl (dropWhile (\<lambda>x. x \<noteq> c) s), True)
     else (s, [], False))"

lemma cut_append: "c \<notin> set k \<Longrightarrow> cut c (k @ c # v) = (k, v, True)"
  by (auto simp: cut_def takeWhile_append dropWhile_append)

subsection \<open>strings.LastIndex, HasPrefix, HasSuffix, TrimSuffix\<close>

text \<open>\<open>strings.LastIndex\<close> for a one-character needle; \<open>-1\<close> when absent.\<close>

definition last_index :: "'a \<Rightarrow> 'a list \<Rightarrow> int" where
  "last_index c s = (if c \<in> set s
     then int (length s) - 1 - int (length (takeWhile (\<lambda>x. x \<noteq> c) (rev s)))
     else -1)"

lemma last_index_absent [go_string]: "c \<notin> set s \<Longrightarrow> last_index c s = -1"
  by (simp add: last_index_def)

lemma last_index_append [go_string]:
  "c \<notin> set b \<Longrightarrow> last_index c (a @ c # b) = int (length a)"
proof -
  assume b: "c \<notin> set b"
  have "takeWhile (\<lambda>x. x \<noteq> c) (rev (a @ c # b)) = rev b"
    using b by (auto simp: takeWhile_append)
  then show ?thesis by (simp add: last_index_def)
qed

lemma last_index_split:
  fixes s :: "'a list"
  assumes "c \<in> set s"
  shows "\<exists>a b. s = a @ c # b \<and> c \<notin> set b \<and> last_index c s = int (length a)"
proof -
  obtain a b where ab: "s = a @ c # b" "c \<notin> set b"
    using split_list_last [OF assms] by blast
  then have "last_index c s = int (length a)"
    by (simp add: last_index_append)
  with ab show ?thesis by blast
qed

lemma last_index_neg_iff [simp]: "last_index c s < 0 \<longleftrightarrow> c \<notin> set s"
  using last_index_split [of c s] last_index_absent [of c s] by fastforce

definition has_prefix :: "'a list \<Rightarrow> 'a list \<Rightarrow> bool" where
  "has_prefix s p \<longleftrightarrow> take (length p) s = p"

definition has_suffix :: "'a list \<Rightarrow> 'a list \<Rightarrow> bool" where
  "has_suffix s p \<longleftrightarrow> length p \<le> length s \<and> drop (length s - length p) s = p"

definition trim_suffix :: "'a list \<Rightarrow> 'a list \<Rightarrow> 'a list" where
  "trim_suffix s p = (if has_suffix s p then take (length s - length p) s else s)"

lemma has_prefix_iff: "has_prefix s p \<longleftrightarrow> (\<exists>r. s = p @ r)"
  by (metis append_take_drop_id append_eq_conv_conj has_prefix_def)

lemma has_suffix_iff: "has_suffix s p \<longleftrightarrow> (\<exists>r. s = r @ p)"
proof
  assume "has_suffix s p"
  then show "\<exists>r. s = r @ p"
    unfolding has_suffix_def by (metis append_take_drop_id)
qed (auto simp: has_suffix_def)

lemma has_suffix_snoc [simp]: "has_suffix (s @ [x]) [c] \<longleftrightarrow> x = c"
  by (auto simp: has_suffix_iff)

lemma has_suffix_single: "has_suffix s [c] \<longleftrightarrow> s \<noteq> [] \<and> last s = c"
  by (cases s rule: rev_cases) (auto simp: has_suffix_iff)

lemma has_prefix_single: "has_prefix s [c] \<longleftrightarrow> s \<noteq> [] \<and> hd s = c"
  by (cases s) (auto simp: has_prefix_def)

lemma trim_suffix_snoc [simp]: "trim_suffix (s @ [c]) [c] = s"
  by (simp add: trim_suffix_def)

section \<open>Labelled runs\<close>

text \<open>
  A component with concurrent parts is a step relation labelled with events; a run is a
  sequence of events from a start state. Ghost quantities (what was received, which frames
  were inserted) are functions of the events, so invariants range over the history and the
  state.
\<close>

inductive run :: "('s \<Rightarrow> 'e \<Rightarrow> 's \<Rightarrow> bool) \<Rightarrow> 's \<Rightarrow> 'e list \<Rightarrow> 's \<Rightarrow> bool" for step s where
  run_nil: "run step s [] s"
| run_snoc: "run step s es t \<Longrightarrow> step t e u \<Longrightarrow> run step s (es @ [e]) u"

lemma run_single: "step s e t \<Longrightarrow> run step s [e] t"
  using run_snoc [OF run_nil, of step s e t] by simp

lemma run_append:
  assumes "run step t fs u" and "run step s es t"
  shows "run step s (es @ fs) u"
  using assms
proof (induction rule: run.induct)
  case run_nil
  then show ?case by simp
next
  case (run_snoc fs' t' e u')
  then have "run step s ((es @ fs') @ [e]) u'"
    by (blast intro: run.run_snoc)
  then show ?case by simp
qed

lemma run_cons: "step s e t \<Longrightarrow> run step t es u \<Longrightarrow> run step s (e # es) u"
  using run_append [OF _ run_single, of step t es u s e] by simp

text \<open>
  A history invariant: it holds at the start and every step whose event is admissible keeps
  it. Admissibility says what the environment may do.
\<close>

locale history_invariant =
  fixes step :: "'s \<Rightarrow> 'e \<Rightarrow> 's \<Rightarrow> bool"
    and start :: 's
    and admissible :: "'e \<Rightarrow> bool"
    and inv :: "'e list \<Rightarrow> 's \<Rightarrow> bool"
  assumes inv_start: "inv [] start"
    and inv_step: "inv es s \<Longrightarrow> step s e t \<Longrightarrow> admissible e \<Longrightarrow> inv (es @ [e]) t"
begin

lemma run_inv:
  assumes "run step start es s" and "\<forall>e \<in> set es. admissible e"
  shows "inv es s"
  using assms
proof (induction rule: run.induct)
  case run_nil
  show ?case by (rule inv_start)
next
  case (run_snoc es t e u)
  then show ?case by (auto intro: inv_step)
qed

end

end
