(* ===== verification/GoStd.thy ===== *)
theory GoStd
  imports Prelude
begin

text \<open>
  The functions of the Go standard library (\<open>strconv\<close>, \<open>strings\<close>, \<open>net\<close>,
  \<open>encoding/binary\<close>) that the program calls on strings and byte slices, as far as the program
  uses them: no caller looks at which error came back, so a failing conversion is \<^term>\<open>None\<close>.
\<close>

section \<open>Decimal numbers\<close>

definition is_digit :: "char \<Rightarrow> bool" where
  "is_digit c \<longleftrightarrow> 48 \<le> (of_char c :: nat) \<and> (of_char c :: nat) \<le> 57"

definition digit_val :: "char \<Rightarrow> nat" where
  "digit_val c = of_char c - 48"

definition digit_char :: "nat \<Rightarrow> char" where
  "digit_char d = char_of (48 + d)"

definition digits_val :: "string \<Rightarrow> nat" where
  "digits_val s = foldl (\<lambda>a c. a * 10 + digit_val c) 0 s"

definition parse_nat :: "string \<Rightarrow> nat option" where
  "parse_nat s = (if s \<noteq> [] \<and> list_all is_digit s then Some (digits_val s) else None)"

text \<open>Formatting a number with \<open>%d\<close>.\<close>

fun show_nat :: "nat \<Rightarrow> string" where
  "show_nat n = (if n < 10 then [digit_char n] else show_nat (n div 10) @ [digit_char (n mod 10)])"

declare show_nat.simps [simp del]

definition show_int :: "int \<Rightarrow> string" where
  "show_int i = (if i < 0 then CHR ''-'' # show_nat (nat (- i)) else show_nat (nat i))"

lemma digit_char_val [simp]: "d < 10 \<Longrightarrow> digit_val (digit_char d) = d"
  by (simp add: digit_val_def digit_char_def)

lemma digit_char_digit [simp]: "d < 10 \<Longrightarrow> is_digit (digit_char d)"
  by (simp add: is_digit_def digit_char_def)

lemma digits_val_snoc: "digits_val (s @ [c]) = digits_val s * 10 + digit_val c"
  by (simp add: digits_val_def)

lemma show_nat_digits: "list_all is_digit (show_nat n)"
proof (induction n rule: show_nat.induct)
  case (1 n)
  then show ?case by (subst show_nat.simps) auto
qed

lemma show_nat_nonempty [simp]: "show_nat n \<noteq> []"
  by (subst show_nat.simps) simp

lemma digits_val_show_nat: "digits_val (show_nat n) = n"
proof (induction n rule: show_nat.induct)
  case (1 n)
  show ?case
  proof (cases "n < 10")
    case True
    then show ?thesis by (subst show_nat.simps) (simp add: digits_val_def)
  next
    case False
    with 1 have "digits_val (show_nat (n div 10)) = n div 10" by simp
    with False show ?thesis
      by (subst show_nat.simps) (simp add: digits_val_snoc)
  qed
qed

lemma parse_nat_show_nat [simp]: "parse_nat (show_nat n) = Some n"
  by (simp add: parse_nat_def show_nat_digits digits_val_show_nat)

lemma digit_not_special: "is_digit c \<Longrightarrow> c \<noteq> CHR '':'' \<and> c \<noteq> CHR ''-'' \<and> c \<noteq> CHR ''+'' \<and> c \<noteq> CHR ''['' \<and> c \<noteq> CHR '']'' \<and> c \<noteq> CHR ''/''"
  by (auto simp: is_digit_def)

lemma show_nat_chars:
  assumes "c \<in> set (show_nat n)"
  shows "is_digit c"
  using show_nat_digits [of n] assms by (simp add: list_all_iff)

lemma show_nat_no_colon [simp]:
  "CHR '':'' \<notin> set (show_nat n)" "CHR ''['' \<notin> set (show_nat n)" "CHR '']'' \<notin> set (show_nat n)"
  using show_nat_chars digit_not_special by blast+

lemma show_nat_hd: "hd (show_nat n) \<noteq> CHR ''-''" "hd (show_nat n) \<noteq> CHR ''+''"
  using show_nat_chars [of "hd (show_nat n)" n] digit_not_special by auto

lemma show_nat_leading: "0 < n \<Longrightarrow> hd (show_nat n) \<noteq> CHR ''0''"
proof (induction n rule: show_nat.induct)
  case (1 n)
  have "d = 0" if "d < 10" "digit_char d = CHR ''0''" for d
    using digit_char_val [OF that(1)] that(2) by (simp add: digit_val_def)
  with 1 show ?case by (subst show_nat.simps) auto
qed

subsection \<open>strconv.ParseInt, ParseUint and Atoi\<close>

text \<open>
  \<open>strconv.ParseInt(s, 10, 64)\<close>: an optional sign, then at least one digit, and a value that
  fits 64 signed bits. \<open>strconv.Atoi\<close> is the same on a 64-bit platform. \<open>ParseUint\<close> accepts
  no sign.
\<close>

definition int64_ok :: "int \<Rightarrow> bool" where
  "int64_ok i \<longleftrightarrow> - (2 ^ 63) \<le> i \<and> i < 2 ^ 63"

definition ParseInt :: "string \<Rightarrow> int option" where
  "ParseInt s =
     (let neg = has_prefix s ''-'';
          ds = (if neg \<or> has_prefix s ''+'' then tl s else s)
      in case parse_nat ds of
           None \<Rightarrow> None
         | Some n \<Rightarrow>
             (let v = (if neg then - int n else int n) in if int64_ok v then Some v else None))"

definition Atoi :: "string \<Rightarrow> int option" where
  "Atoi s = ParseInt s"

definition ParseUint :: "string \<Rightarrow> nat option" where
  "ParseUint s = (case parse_nat s of None \<Rightarrow> None | Some n \<Rightarrow> if n < 2 ^ 64 then Some n else None)"

lemma ParseInt_show_int [simp]:
  assumes "int64_ok i"
  shows "ParseInt (show_int i) = Some i"
proof (cases "i < 0")
  case True
  with assms show ?thesis by (simp add: ParseInt_def show_int_def has_prefix_def)
next
  case False
  with assms show_nat_hd [of "nat i"] show ?thesis
    by (simp add: ParseInt_def show_int_def has_prefix_single)
qed

lemma Atoi_show_nat [simp]: "n < 2 ^ 63 \<Longrightarrow> Atoi (show_nat n) = Some (int n)"
  using ParseInt_show_int [of "int n"] by (simp add: Atoi_def show_int_def int64_ok_def)

lemma ParseUint_show_nat [simp]: "n < 2 ^ 64 \<Longrightarrow> ParseUint (show_nat n) = Some n"
  by (simp add: ParseUint_def)

lemma Atoi_empty: "Atoi [] = None"
  by (simp add: Atoi_def ParseInt_def has_prefix_def parse_nat_def)

text \<open>\<open>string(b)\<close> of a byte slice.\<close>

definition string_of_bytes :: "byte list \<Rightarrow> string" where
  "string_of_bytes bs = map (\<lambda>b. char_of (unat b)) bs"

section \<open>Hexadecimal digits\<close>

definition hex_char :: "nat \<Rightarrow> char" where
  "hex_char n = (if n < 10 then digit_char n else char_of (n - 10 + 97))"

section \<open>ASCII case and white space\<close>

definition is_space :: "char \<Rightarrow> bool" where
  "is_space c \<longleftrightarrow> c = CHR '' '' \<or> (9 \<le> (of_char c :: nat) \<and> (of_char c :: nat) \<le> 13)"

definition TrimSpace :: "string \<Rightarrow> string" where
  "TrimSpace s = rev (dropWhile is_space (rev (dropWhile is_space s)))"

definition to_lower :: "char \<Rightarrow> char" where
  "to_lower c = (if 65 \<le> (of_char c :: nat) \<and> (of_char c :: nat) \<le> 90
     then char_of ((of_char c :: nat) + 32) else c)"

definition ToLower :: "string \<Rightarrow> string" where
  "ToLower s = map to_lower s"

lemma TrimSpace_id: "s = [] \<or> \<not> is_space (hd s) \<and> \<not> is_space (last s) \<Longrightarrow> TrimSpace s = s"
proof (elim disjE conjE)
  assume "\<not> is_space (hd s)" and "\<not> is_space (last s)"
  then have "dropWhile is_space s = s" and "dropWhile is_space (rev s) = rev s"
    by (auto simp: dropWhile_eq_self_iff hd_rev)
  then show ?thesis by (simp add: TrimSpace_def)
qed (simp add: TrimSpace_def)

section \<open>Host and port\<close>

definition JoinHostPort :: "string \<Rightarrow> string \<Rightarrow> string" where
  "JoinHostPort host port =
     (if CHR '':'' \<in> set host then ''['' @ host @ '']:'' @ port else host @ '':'' @ port)"

text \<open>\<open>net.SplitHostPort\<close>, with its checks in the library's order.\<close>

definition SplitHostPort :: "string \<Rightarrow> (string \<times> string) option" where
  "SplitHostPort s =
     (let i = last_index CHR '':'' s in
      if i < 0 then None
      else if has_prefix s ''['' then
        (if CHR '']'' \<notin> set s then None
         else let end = length (takeWhile (\<lambda>c. c \<noteq> CHR '']'') s) in
           if int (end + 1) \<noteq> i then None
           else if CHR ''['' \<in> set (drop 1 s) \<or> CHR '']'' \<in> set (drop (end + 1) s) then None
           else Some (take (end - 1) (drop 1 s), drop (nat i + 1) s))
      else
        (let host = take (nat i) s in
         if CHR '':'' \<in> set host then None
         else if CHR ''['' \<in> set s \<or> CHR '']'' \<in> set s then None
         else Some (host, drop (nat i + 1) s)))"

lemma SplitHostPort_plain:
  assumes "CHR '':'' \<notin> set h" "CHR ''['' \<notin> set h" "CHR '']'' \<notin> set h"
    and "CHR '':'' \<notin> set p" "CHR ''['' \<notin> set p" "CHR '']'' \<notin> set p"
  shows "SplitHostPort (h @ CHR '':'' # p) = Some (h, p)"
  using assms
proof -
  have "\<not> has_prefix (h @ CHR '':'' # p) ''[''"
    using assms(2) by (cases h) (auto simp: has_prefix_single)
  with assms show ?thesis
    by (simp add: SplitHostPort_def last_index_append Let_def)
qed

lemma SplitHostPort_Join:
  assumes "CHR ''['' \<notin> set h" "CHR '']'' \<notin> set h"
    and "CHR '':'' \<notin> set p" "CHR ''['' \<notin> set p" "CHR '']'' \<notin> set p"
  shows "SplitHostPort (JoinHostPort h p) = Some (h, p)"
proof (cases "CHR '':'' \<in> set h")
  case False
  then show ?thesis using SplitHostPort_plain [OF False assms] by (simp add: JoinHostPort_def)
next
  case True
  let ?s = "CHR ''['' # h @ CHR '']'' # CHR '':'' # p"
  have s: "JoinHostPort h p = ?s" using True by (simp add: JoinHostPort_def)
  have i: "last_index CHR '':'' ?s = int (length h + 2)"
    using last_index_append [of "CHR '':''" p "CHR ''['' # h @ [CHR '']'']"] assms(3) by simp
  have "takeWhile (\<lambda>c. c \<noteq> CHR '']'') (h @ CHR '']'' # CHR '':'' # p) = h"
    using assms(2) by (induction h) auto
  then have e: "length (takeWhile (\<lambda>c. c \<noteq> CHR '']'') ?s) = length h + 1" by simp
  show ?thesis
    unfolding s SplitHostPort_def Let_def i e using assms by (simp add: has_prefix_single nat_add_distrib)
qed

section \<open>Big-endian integers\<close>

definition PutUint16 :: "u16 \<Rightarrow> byte list" where
  "PutUint16 w = [ucast (drop_bit 8 w), ucast w]"

definition PutUint32 :: "u32 \<Rightarrow> byte list" where
  "PutUint32 w = [ucast (drop_bit 24 w), ucast (drop_bit 16 w), ucast (drop_bit 8 w), ucast w]"

fun be_nat :: "byte list \<Rightarrow> nat" where
  "be_nat bs = foldl (\<lambda>a b. a * 256 + unat b) 0 bs"

definition Uint16 :: "byte list \<Rightarrow> u16" where
  "Uint16 bs = of_nat (be_nat (take 2 bs))"

definition Uint32 :: "byte list \<Rightarrow> u32" where
  "Uint32 bs = of_nat (be_nat (take 4 bs))"

lemma length_PutUint [simp]: "length (PutUint32 w) = 4" "length (PutUint16 v) = 2"
  by (simp_all add: PutUint32_def PutUint16_def)

lemma unat_drop_bit_div: "unat (drop_bit k w) = unat w div 2 ^ k"
  for w :: "'a::len word"
  by (subst unsigned_drop_bit_eq)
     (simp add: drop_bit_eq_div take_bit_nat_eq_self unsigned_less)

lemma unat_ucast_byte: "unat (ucast w :: byte) = unat w mod 256"
  for w :: "'a::len word"
  by (simp add: unsigned_ucast_eq take_bit_eq_mod)

lemma be_digits:
  fixes n :: nat
  shows "n div 256 * 256 + n mod 256 = n"
    and "n div 65536 = n div 256 div 256"
    and "n div 16777216 = n div 256 div 256 div 256"
  by (simp_all add: div_mult2_eq [symmetric])

lemma be_nat_PutUint16: "be_nat (PutUint16 w) = unat w"
proof -
  define n where "n = unat w"
  have "n < 65536" using unsigned_less [of w, where ?'a = nat] by (simp add: n_def)
  then have "n div 256 mod 256 = n div 256" by simp
  then show ?thesis
    by (simp add: PutUint16_def unat_drop_bit_div unat_ucast_byte be_digits(1) flip: n_def)
qed

lemma be_nat_PutUint32: "be_nat (PutUint32 w) = unat w"
proof -
  define n where "n = unat w"
  have "n < 4294967296" using unsigned_less [of w, where ?'a = nat] by (simp add: n_def)
  then have "n div 256 div 256 div 256 mod 256 = n div 256 div 256 div 256" by simp
  with be_digits(1) [of n] be_digits(1) [of "n div 256"] be_digits(1) [of "n div 256 div 256"]
  show ?thesis
    by (simp add: PutUint32_def unat_drop_bit_div unat_ucast_byte be_digits(2,3) flip: n_def)
qed

lemma Uint16_PutUint16 [simp]: "Uint16 (PutUint16 w @ bs) = w"
  by (simp add: Uint16_def be_nat_PutUint16 del: be_nat.simps)

lemma Uint32_PutUint32 [simp]: "Uint32 (PutUint32 w @ bs) = w"
  by (simp add: Uint32_def be_nat_PutUint32 del: be_nat.simps)

text \<open>Four bytes are what \<open>PutUint32\<close> writes for the number they hold.\<close>

lemma be_nat_snoc: "be_nat (xs @ [b]) = be_nat xs * 256 + unat b"
  by simp

lemma be_nat_bound: "be_nat xs < 256 ^ length xs"
proof (induction xs rule: rev_induct)
  case (snoc b xs)
  have "unat b < 256" using unsigned_less [of b, where ?'a = nat] by simp
  with snoc show ?case by (simp add: be_nat_snoc del: be_nat.simps)
qed simp

lemma byte_digits:
  fixes x y u v :: nat
  assumes "y < 256" and "v < 256" and "x * 256 + y = u * 256 + v"
  shows "x = u \<and> y = v"
proof -
  have "(x * 256 + y) div 256 = x" "(x * 256 + y) mod 256 = y" using assms(1) by simp_all
  moreover have "(u * 256 + v) div 256 = u" "(u * 256 + v) mod 256 = v" using assms(2) by simp_all
  ultimately show ?thesis using assms(3) by metis
qed

lemma be_nat_inj: "length xs = length ys \<Longrightarrow> be_nat xs = be_nat ys \<Longrightarrow> xs = ys"
proof (induction xs arbitrary: ys rule: rev_induct)
  case (snoc b xs)
  from snoc.prems(1) obtain zs c where ys: "ys = zs @ [c]" by (cases ys rule: rev_cases) simp_all
  have "unat b < 256" "unat c < 256"
    using unsigned_less [of b, where ?'a = nat] unsigned_less [of c, where ?'a = nat] by simp_all
  moreover have "be_nat xs * 256 + unat b = be_nat zs * 256 + unat c"
    using snoc.prems(2) unfolding ys be_nat_snoc .
  ultimately have eq: "be_nat xs = be_nat zs" "unat b = unat c"
    using byte_digits [of "unat b" "unat c"] by blast+
  have "length xs = length zs" using snoc.prems(1) ys by (simp del: be_nat.simps)
  then have "xs = zs" using eq(1) by (rule snoc.IH)
  moreover have "b = c" using eq(2) by (rule unsigned_word_eqI)
  ultimately show ?case unfolding ys by (rule arg_cong2)
qed simp

lemma PutUint32_Uint32: "length bs = 4 \<Longrightarrow> PutUint32 (Uint32 bs) = bs"
proof (rule be_nat_inj)
  assume l: "length bs = 4"
  then show "length (PutUint32 (Uint32 bs)) = length bs" by simp
  have "be_nat bs < 2 ^ 32" using be_nat_bound [of bs] l by (simp del: be_nat.simps)
  then show "be_nat (PutUint32 (Uint32 bs)) = be_nat bs"
    using l by (simp add: be_nat_PutUint32 Uint32_def unat_of_nat take_bit_nat_eq_self del: be_nat.simps)
qed

end
