(* ===== verification/Protocol.thy ===== *)
theory Protocol
  imports GoStd
begin

text \<open>
  \<open>internal/tunnel/protocol.go\<close>: the constants of the tunnel protocol, the control message,
  the topic names with their parser, and the framing of data payloads.
\<close>

section \<open>Constants\<close>

definition MessageTypeOpen :: string where "MessageTypeOpen = ''open''"
definition MessageTypeOpenAck :: string where "MessageTypeOpenAck = ''open_ack''"
definition MessageTypeClose :: string where "MessageTypeClose = ''close''"
definition MessageTypeResize :: string where "MessageTypeResize = ''resize''"
definition MessageTypePing :: string where "MessageTypePing = ''ping''"
definition MessageTypePong :: string where "MessageTypePong = ''pong''"

text \<open>The type of acknowledgements is a literal at its use sites.\<close>

abbreviation MessageTypeAck :: string where "MessageTypeAck \<equiv> ''ack''"

definition SessionModeTCP :: string where "SessionModeTCP = ''tcp''"
definition SessionModeShell :: string where "SessionModeShell = ''shell''"
definition SessionModeExec :: string where "SessionModeExec = ''exec''"

definition DataHeaderSize :: nat where "DataHeaderSize = 4"
definition MaxPayloadSize :: nat where "MaxPayloadSize = 64 * 1024"
definition ReorderBufSize :: nat where "ReorderBufSize = 64"
definition FlowControlWindow :: u64 where "FlowControlWindow = 256 * 1024"
definition StaleTimeout :: int where "StaleTimeout = 60"

definition topicPrefix :: string where "topicPrefix = ''tunnel''"
definition topicIn :: string where "topicIn = ''in''"
definition topicOut :: string where "topicOut = ''out''"
definition topicControl :: string where "topicControl = ''control''"
definition topicData :: string where "topicData = ''data''"
definition topicShared :: string where "topicShared = ''__shared__''"

lemmas message_type_defs = MessageTypeOpen_def MessageTypeOpenAck_def MessageTypeClose_def
  MessageTypeResize_def MessageTypePing_def MessageTypePong_def

lemmas session_mode_defs = SessionModeTCP_def SessionModeShell_def SessionModeExec_def

lemmas topic_defs = topicPrefix_def topicIn_def topicOut_def topicControl_def topicData_def
  topicShared_def

lemmas size_defs = DataHeaderSize_def MaxPayloadSize_def ReorderBufSize_def FlowControlWindow_def

section \<open>Control messages\<close>

record ControlMessage =
  cmType :: string
  cmSessionID :: string
  cmMode :: string
  cmTarget :: string
  cmCommand :: string
  cmCols :: u16
  cmRows :: u16
  cmSuccess :: bool
  cmError :: string
  cmExitCode :: "int option"
  cmAckBytes :: u64
  cmTimestamp :: int
  cmTimeout :: int
  cmVersion :: string
  cmArch :: string

text \<open>The zero value of the struct, which composite literals start from.\<close>

definition zeroMessage :: ControlMessage where
  "zeroMessage = \<lparr>cmType = [], cmSessionID = [], cmMode = [], cmTarget = [], cmCommand = [],
     cmCols = 0, cmRows = 0, cmSuccess = False, cmError = [], cmExitCode = None, cmAckBytes = 0,
     cmTimestamp = 0, cmTimeout = 0, cmVersion = [], cmArch = []\<rparr>"

section \<open>Topics\<close>

definition join_topic :: "string list \<Rightarrow> string" where
  "join_topic parts = join_with ''/'' parts"

definition SharedPingTopic :: string where
  "SharedPingTopic = join_topic [topicPrefix, topicShared, MessageTypePing]"

definition AllOutControlFilter :: string where
  "AllOutControlFilter = join_topic [topicPrefix, ''+'', topicOut, topicControl]"

definition InControlTopic :: "string \<Rightarrow> string" where
  "InControlTopic deviceID = join_topic [topicPrefix, deviceID, topicIn, topicControl]"

definition InDataTopic :: "string \<Rightarrow> string \<Rightarrow> string" where
  "InDataTopic deviceID sessionID = join_topic [topicPrefix, deviceID, topicIn, topicData, sessionID]"

definition OutControlTopic :: "string \<Rightarrow> string" where
  "OutControlTopic deviceID = join_topic [topicPrefix, deviceID, topicOut, topicControl]"

definition OutDataTopic :: "string \<Rightarrow> string \<Rightarrow> string" where
  "OutDataTopic deviceID sessionID = join_topic [topicPrefix, deviceID, topicOut, topicData, sessionID]"

definition InControlFilter :: "string \<Rightarrow> string" where
  "InControlFilter deviceID = join_topic [topicPrefix, deviceID, topicIn, topicControl]"

definition InDataFilter :: "string \<Rightarrow> string" where
  "InDataFilter deviceID = join_topic [topicPrefix, deviceID, topicIn, topicData, ''+'']"

definition OutControlFilter :: "string \<Rightarrow> string" where
  "OutControlFilter deviceID = join_topic [topicPrefix, deviceID, topicOut, topicControl]"

definition OutDataFilter :: "string \<Rightarrow> string" where
  "OutDataFilter deviceID = join_topic [topicPrefix, deviceID, topicOut, topicData, ''+'']"

lemmas topic_fun_defs = InControlTopic_def InDataTopic_def OutControlTopic_def OutDataTopic_def
  join_topic_def

record ParsedTopic =
  ptDeviceID :: string
  ptIsControl :: bool
  ptIsData :: bool
  ptSessionID :: string

datatype topic_error = TopicTooShort | InvalidPrefix string | InvalidDirection string
  | ControlSegments | DataSegments | UnknownTopicType string

definition ParseTopic :: "string \<Rightarrow> topic_error + ParsedTopic" where
  "ParseTopic topic =
     (let parts = split_on CHR ''/'' topic in
      if length parts < 4 then Inl TopicTooShort
      else if parts ! 0 \<noteq> topicPrefix then Inl (InvalidPrefix (parts ! 0))
      else if parts ! 2 \<noteq> topicIn \<and> parts ! 2 \<noteq> topicOut then Inl (InvalidDirection (parts ! 2))
      else let parsed = \<lparr>ptDeviceID = parts ! 1, ptIsControl = False, ptIsData = False, ptSessionID = []\<rparr> in
        if parts ! 3 = topicControl then
          (if length parts \<noteq> 4 then Inl ControlSegments
           else Inr (parsed\<lparr>ptIsControl := True\<rparr>))
        else if parts ! 3 = topicData then
          (if length parts \<noteq> 5 then Inl DataSegments
           else Inr (parsed\<lparr>ptIsData := True, ptSessionID := parts ! 4\<rparr>))
        else Inl (UnknownTopicType (parts ! 3)))"

text \<open>A topic level: MQTT separates levels by slashes.\<close>

abbreviation level :: "string \<Rightarrow> bool" where
  "level s \<equiv> CHR ''/'' \<notin> set s"

definition control_topic_parts :: "string \<Rightarrow> ParsedTopic" where
  "control_topic_parts dev = \<lparr>ptDeviceID = dev, ptIsControl = True, ptIsData = False, ptSessionID = []\<rparr>"

definition data_topic_parts :: "string \<Rightarrow> string \<Rightarrow> ParsedTopic" where
  "data_topic_parts dev sid = \<lparr>ptDeviceID = dev, ptIsControl = False, ptIsData = True, ptSessionID = sid\<rparr>"

lemma topic_level [simp]:
  "level topicPrefix" "level topicIn" "level topicOut" "level topicControl" "level topicData"
  by (simp_all add: topic_defs)

lemma topic_const_neq [simp]:
  "topicIn \<noteq> topicOut" "topicOut \<noteq> topicIn" "topicControl \<noteq> topicData" "topicData \<noteq> topicControl"
  by (simp_all add: topic_defs)

lemma split_control:
  assumes "level dev" and "dir = topicIn \<or> dir = topicOut"
  shows "split_on CHR ''/'' (join_topic [topicPrefix, dev, dir, topicControl])
    = [topicPrefix, dev, dir, topicControl]"
  unfolding join_topic_def using assms by (intro split_on_join) auto

lemma split_data:
  assumes "level dev" and "level sid" and "dir = topicIn \<or> dir = topicOut"
  shows "split_on CHR ''/'' (join_topic [topicPrefix, dev, dir, topicData, sid])
    = [topicPrefix, dev, dir, topicData, sid]"
  unfolding join_topic_def using assms by (intro split_on_join) auto

lemma ParseTopic_control:
  assumes "level dev" and "dir = topicIn \<or> dir = topicOut"
  shows "ParseTopic (join_topic [topicPrefix, dev, dir, topicControl]) = Inr (control_topic_parts dev)"
  using assms by (auto simp: ParseTopic_def split_control control_topic_parts_def Let_def)

lemma ParseTopic_data:
  assumes "level dev" and "level sid" and "dir = topicIn \<or> dir = topicOut"
  shows "ParseTopic (join_topic [topicPrefix, dev, dir, topicData, sid]) = Inr (data_topic_parts dev sid)"
  using assms by (auto simp: ParseTopic_def split_data data_topic_parts_def Let_def)

lemma list_of_length_4: "length xs = 4 \<longleftrightarrow> (\<exists>a b c d. xs = [a, b, c, d])"
  by (auto simp: length_Suc_conv eval_nat_numeral)

lemma list_of_length_5: "length xs = 5 \<longleftrightarrow> (\<exists>a b c d e. xs = [a, b, c, d, e])"
  by (auto simp: length_Suc_conv eval_nat_numeral)

text \<open>What a topic that parses looks like: the two shapes of the protocol and no other.\<close>

lemma ParseTopic_inv:
  assumes "ParseTopic t = Inr p"
  shows "\<exists>dev dir. level dev \<and> (dir = topicIn \<or> dir = topicOut) \<and>
    (t = join_topic [topicPrefix, dev, dir, topicControl] \<and> p = control_topic_parts dev \<or>
     (\<exists>sid. level sid \<and> t = join_topic [topicPrefix, dev, dir, topicData, sid]
        \<and> p = data_topic_parts dev sid))"
proof -
  define parts where "parts = split_on CHR ''/'' t"
  have t: "t = join_topic parts" and lv: "\<forall>x \<in> set parts. level x"
    using split_on_inverse [of "CHR ''/''" t parts] by (auto simp: parts_def join_topic_def)
  have hd: "\<not> length parts < 4" "parts ! 0 = topicPrefix" "parts ! 2 = topicIn \<or> parts ! 2 = topicOut"
    and sh: "parts ! 3 = topicControl \<and> length parts = 4 \<and> p = control_topic_parts (parts ! 1)
      \<or> parts ! 3 = topicData \<and> length parts = 5 \<and> p = data_topic_parts (parts ! 1) (parts ! 4)"
    using assms unfolding ParseTopic_def parts_def [symmetric] Let_def
    by (auto simp: control_topic_parts_def data_topic_parts_def split: if_splits)
  from sh show ?thesis
  proof (elim disjE conjE)
    assume "parts ! 3 = topicControl" and l: "length parts = 4"
      and "p = control_topic_parts (parts ! 1)"
    moreover from l obtain a b c d where "parts = [a, b, c, d]"
      unfolding list_of_length_4 by blast
    ultimately show ?thesis using t lv hd by auto
  next
    assume "parts ! 3 = topicData" and l: "length parts = 5"
      and "p = data_topic_parts (parts ! 1) (parts ! 4)"
    moreover from l obtain a b c d e where "parts = [a, b, c, d, e]"
      unfolding list_of_length_5 by blast
    ultimately show ?thesis using t lv hd by auto
  qed
qed

lemma topic_of_other_device:
  assumes "level d1" and "level d2" and "join_topic (topicPrefix # d1 # r1) = join_topic (topicPrefix # d2 # r2)"
    and "r1 \<noteq> []" and "r2 \<noteq> []"
  shows "d1 = d2"
proof -
  obtain x1 y1 x2 y2 where r: "r1 = x1 # y1" "r2 = x2 # y2"
    using assms(4,5) by (cases r1; cases r2) auto
  then have "split_on CHR ''/'' (d1 @ CHR ''/'' # join_with ''/'' r1) = split_on CHR ''/'' (d2 @ CHR ''/'' # join_with ''/'' r2)"
    using assms(3) by (simp add: join_topic_def)
  then show ?thesis using assms(1,2) by (simp add: split_on_append_sep)
qed

section \<open>Data frames\<close>

datatype frame_error = FrameTooShort

definition EncodeDataFrame :: "u32 \<Rightarrow> byte list \<Rightarrow> byte list" where
  "EncodeDataFrame seq payload = PutUint32 seq @ payload"

definition DecodeDataFrame :: "byte list \<Rightarrow> frame_error + (u32 \<times> byte list)" where
  "DecodeDataFrame frame =
     (if length frame < DataHeaderSize then Inl FrameTooShort
      else Inr (Uint32 (take DataHeaderSize frame), drop DataHeaderSize frame))"

lemma Uint32_PutUint32_self [simp]: "Uint32 (PutUint32 w) = w"
  using Uint32_PutUint32 [of w "[]"] by simp

lemma DecodeDataFrame_Encode: "DecodeDataFrame (EncodeDataFrame seq payload) = Inr (seq, payload)"
  by (simp add: DecodeDataFrame_def EncodeDataFrame_def DataHeaderSize_def)

lemma length_EncodeDataFrame: "length (EncodeDataFrame seq payload) = DataHeaderSize + length payload"
  by (simp add: EncodeDataFrame_def DataHeaderSize_def)

text \<open>
  The interface that the writer and the receiver of a stream share: an encoder of numbered
  payloads that its decoder inverts, with a fixed overhead.
\<close>

locale frame_codec =
  fixes enc :: "'n \<Rightarrow> 'b list \<Rightarrow> 'b list"
    and dec :: "'b list \<Rightarrow> 'e + ('n \<times> 'b list)"
    and overhead :: nat
  assumes dec_enc: "dec (enc n p) = Inr (n, p)"
    and length_enc: "length (enc n p) = overhead + length p"
begin

lemma enc_inject: "enc n p = enc m q \<longleftrightarrow> n = m \<and> p = q"
proof
  assume "enc n p = enc m q"
  then have "dec (enc n p) = dec (enc m q)" by (rule arg_cong)
  then show "n = m \<and> p = q" by (simp add: dec_enc)
qed simp

lemma decoded_member:
  assumes "f \<in> (\<lambda>(n, p). enc n p) ` S" and "dec f = Inr (n, p)"
  shows "(n, p) \<in> S"
  using assms by (auto simp: dec_enc)

lemma enc_bound: "length p \<le> k \<Longrightarrow> length (enc n p) \<le> overhead + k"
  by (simp add: length_enc)

end

interpretation data_frame: frame_codec EncodeDataFrame DecodeDataFrame DataHeaderSize
  by unfold_locales (simp_all add: DecodeDataFrame_Encode length_EncodeDataFrame)

section \<open>Main properties\<close>

text \<open>C18. A topic parses exactly when it is \<open>tunnel/<device>/<in|out>/control\<close> or \<open>tunnel/<device>/<in|out>/data/<session>\<close>, which are the topics the topic functions build, from names without a slash; and the result is the names it was built from.\<close>

theorem topic_grammar:
  "(ParseTopic t = Inr p \<longleftrightarrow>
     (\<exists>dev. CHR ''/'' \<notin> set dev \<and>
       ((t = InControlTopic dev \<or> t = OutControlTopic dev) \<and> p = control_topic_parts dev \<or>
        (\<exists>sid. CHR ''/'' \<notin> set sid \<and> (t = InDataTopic dev sid \<or> t = OutDataTopic dev sid) \<and> p = data_topic_parts dev sid))))
   \<and> InControlTopic d = ''tunnel/'' @ d @ ''/in/control'' \<and> OutControlTopic d = ''tunnel/'' @ d @ ''/out/control''
   \<and> InDataTopic d i = ''tunnel/'' @ d @ ''/in/data/'' @ i \<and> OutDataTopic d i = ''tunnel/'' @ d @ ''/out/data/'' @ i"
proof (intro conjI)
  show "ParseTopic t = Inr p \<longleftrightarrow>
     (\<exists>dev. CHR ''/'' \<notin> set dev \<and>
       ((t = InControlTopic dev \<or> t = OutControlTopic dev) \<and> p = control_topic_parts dev \<or>
        (\<exists>sid. CHR ''/'' \<notin> set sid \<and> (t = InDataTopic dev sid \<or> t = OutDataTopic dev sid) \<and> p = data_topic_parts dev sid)))"
  proof
  assume "ParseTopic t = Inr p"
  from ParseTopic_inv [OF this] obtain dev dir where d: "level dev" "dir = topicIn \<or> dir = topicOut"
    and t: "t = join_topic [topicPrefix, dev, dir, topicControl] \<and> p = control_topic_parts dev \<or>
     (\<exists>sid. level sid \<and> t = join_topic [topicPrefix, dev, dir, topicData, sid] \<and> p = data_topic_parts dev sid)"
    by blast
  then show "\<exists>dev. level dev \<and>
       ((t = InControlTopic dev \<or> t = OutControlTopic dev) \<and> p = control_topic_parts dev \<or>
        (\<exists>sid. level sid \<and> (t = InDataTopic dev sid \<or> t = OutDataTopic dev sid) \<and> p = data_topic_parts dev sid))"
    unfolding InControlTopic_def OutControlTopic_def InDataTopic_def OutDataTopic_def by blast
next
  assume "\<exists>dev. level dev \<and>
       ((t = InControlTopic dev \<or> t = OutControlTopic dev) \<and> p = control_topic_parts dev \<or>
        (\<exists>sid. level sid \<and> (t = InDataTopic dev sid \<or> t = OutDataTopic dev sid) \<and> p = data_topic_parts dev sid))"
  then show "ParseTopic t = Inr p"
    unfolding InControlTopic_def OutControlTopic_def InDataTopic_def OutDataTopic_def
    using ParseTopic_control ParseTopic_data by blast
qed
qed (simp_all add: topic_defs join_topic_def InControlTopic_def OutControlTopic_def InDataTopic_def OutDataTopic_def)

text \<open>C19. Frames and pairs of number and payload correspond one to one: a byte string decodes to a pair exactly when it encodes it, and only a string shorter than the header does not decode.\<close>

theorem data_frame_codec:
  "(DecodeDataFrame f = Inr (s, p) \<longleftrightarrow> f = EncodeDataFrame s p)
     \<and> (DecodeDataFrame f = Inl FrameTooShort \<longleftrightarrow> length f < 4)"
proof -
  have "DecodeDataFrame f = Inr (s, p) \<Longrightarrow> f = EncodeDataFrame s p"
    using PutUint32_Uint32 [of "take DataHeaderSize f"]
    by (auto simp: DecodeDataFrame_def EncodeDataFrame_def DataHeaderSize_def split: if_splits)
  then show ?thesis
    using DecodeDataFrame_Encode [of s p] by (cases "length f < 4") (auto simp: DecodeDataFrame_def DataHeaderSize_def)
qed

end
