(* ===== verification/Reorder.thy ===== *)
theory Reorder
  imports Protocol "HOL-Library.AList"
begin

text \<open>
  \<open>ReorderBuffer\<close> of \<open>internal/tunnel/session.go\<close>: frames of one stream arrive in any order
  and more than once, and leave on \<open>dataCh\<close> in sequence.

  \<open>Insert\<close> holds the mutex while it stores the frame and drains the run of consecutive frames,
  and it may block in the middle of the drain when \<open>dataCh\<close> is full. So it is a thread with
  three places (outside, at the head of the loop, at the \<open>select\<close>), and the step relation
  \<open>rb_step\<close> interleaves it with the consumer that receives from \<open>dataCh\<close> and with \<open>Close\<close>.
  \<open>insert_loop\<close> is the executable run of one call until it returns or blocks.
\<close>

section \<open>Errors of the package\<close>

datatype tunnel_error = ErrSessionNotFound | ErrSessionExists | ErrReorderTimeout | ErrBufferFull
  | ErrFlowControlBlock

fun tunnel_error_text :: "tunnel_error \<Rightarrow> string" where
  "tunnel_error_text ErrSessionNotFound = ''session not found''"
| "tunnel_error_text ErrSessionExists = ''session already exists''"
| "tunnel_error_text ErrReorderTimeout = ''reorder buffer timeout''"
| "tunnel_error_text ErrBufferFull = ''reorder buffer full''"
| "tunnel_error_text ErrFlowControlBlock = ''flow control: sender blocked''"

section \<open>State and operations\<close>

text \<open>The Go map \<open>buf\<close> is an association list with distinct keys (part of the invariant).\<close>

record ReorderBuffer =
  rbBuf :: "(u32 \<times> byte list) list"
  rbNextSeq :: u32
  rbSize :: nat
  rbDataCh :: "byte list list"
  rbClosed :: bool

definition NewReorderBuffer :: "nat \<Rightarrow> ReorderBuffer" where
  "NewReorderBuffer n = \<lparr>rbBuf = [], rbNextSeq = 0, rbSize = n, rbDataCh = [], rbClosed = False\<rparr>"

text \<open>From the entry of \<open>Insert\<close> to the head of the drain loop.\<close>

datatype insert_status = Returned "tunnel_error option" | Looping

definition Insert_enter :: "u32 \<Rightarrow> byte list \<Rightarrow> ReorderBuffer \<Rightarrow> ReorderBuffer \<times> insert_status" where
  "Insert_enter seq data rb =
     (if seq < rbNextSeq rb then (rb, Returned None)
      else if unat (seq - rbNextSeq rb) \<ge> rbSize rb then (rb, Returned (Some ErrBufferFull))
      else if map_of (rbBuf rb) seq \<noteq> None then (rb, Returned None)
      else (rb\<lparr>rbBuf := (seq, data) # rbBuf rb\<rparr>, Looping))"

text \<open>One round of the drain loop up to the \<open>select\<close>: the payload taken out, if there is one.\<close>

definition Insert_pop :: "ReorderBuffer \<Rightarrow> (byte list \<times> ReorderBuffer) option" where
  "Insert_pop rb = (case map_of (rbBuf rb) (rbNextSeq rb) of
     None \<Rightarrow> None
   | Some payload \<Rightarrow>
       Some (payload, rb\<lparr>rbBuf := AList.delete (rbNextSeq rb) (rbBuf rb), rbNextSeq := rbNextSeq rb + 1\<rparr>))"

definition Insert_send :: "byte list \<Rightarrow> ReorderBuffer \<Rightarrow> ReorderBuffer" where
  "Insert_send payload rb = rb\<lparr>rbDataCh := rbDataCh rb @ [payload]\<rparr>"

definition DataCh_ready :: "ReorderBuffer \<Rightarrow> bool" where
  "DataCh_ready rb \<longleftrightarrow> length (rbDataCh rb) < rbSize rb"

definition ReorderBuffer_Close :: "ReorderBuffer \<Rightarrow> ReorderBuffer" where
  "ReorderBuffer_Close rb = rb\<lparr>rbClosed := True\<rparr>"

subsection \<open>One call, executable\<close>

datatype insert_outcome = Return "tunnel_error option" | Blocked "byte list"

lemma length_delete_key:
  "map_of xs k = Some v \<Longrightarrow> length (AList.delete k xs) < length xs"
  by (induction xs) (auto split: if_splits simp: le_imp_less_Suc AList.length_delete_le)

text \<open>
  The drain loop until it leaves or blocks, with the \<open>select\<close> taking the send whenever it is
  ready.
\<close>

function insert_loop :: "ReorderBuffer \<Rightarrow> ReorderBuffer \<times> insert_outcome" where
  "insert_loop rb = (case Insert_pop rb of
     None \<Rightarrow> (rb, Return None)
   | Some (payload, rb') \<Rightarrow>
       (if DataCh_ready rb' then insert_loop (Insert_send payload rb')
        else if rbClosed rb' then (rb', Return None)
        else (rb', Blocked payload)))"
  by pat_completeness auto
termination
  by (relation "measure (\<lambda>rb. length (rbBuf rb))")
     (auto simp: Insert_pop_def Insert_send_def length_delete_key split: option.splits)

declare insert_loop.simps [simp del]

definition Insert :: "u32 \<Rightarrow> byte list \<Rightarrow> ReorderBuffer \<Rightarrow> ReorderBuffer \<times> insert_outcome" where
  "Insert seq data rb = (case Insert_enter seq data rb of
     (rb', Returned e) \<Rightarrow> (rb', Return e)
   | (rb', Looping) \<Rightarrow> insert_loop rb')"

section \<open>Interleaved execution\<close>

datatype insert_thread = Idle | AtLoop | AtSend "byte list"

datatype rb_event = InsertReturns u32 "byte list" "tunnel_error option" | InsertStores u32 "byte list"
  | Pops "byte list" | LoopEnds | Sends "byte list" | Drops "byte list" | Receives "byte list" | Closes

type_synonym rb_conf = "ReorderBuffer \<times> insert_thread"

inductive rb_step :: "rb_conf \<Rightarrow> rb_event \<Rightarrow> rb_conf \<Rightarrow> bool" where
  enter_return: "Insert_enter seq data rb = (rb', Returned e) \<Longrightarrow>
    rb_step (rb, Idle) (InsertReturns seq data e) (rb', Idle)"
| enter_store: "Insert_enter seq data rb = (rb', Looping) \<Longrightarrow>
    rb_step (rb, Idle) (InsertStores seq data) (rb', AtLoop)"
| pop: "Insert_pop rb = Some (payload, rb') \<Longrightarrow> rb_step (rb, AtLoop) (Pops payload) (rb', AtSend payload)"
| leave: "Insert_pop rb = None \<Longrightarrow> rb_step (rb, AtLoop) LoopEnds (rb, Idle)"
| send: "DataCh_ready rb \<Longrightarrow>
    rb_step (rb, AtSend payload) (Sends payload) (Insert_send payload rb, AtLoop)"
| abort: "rbClosed rb \<Longrightarrow> rb_step (rb, AtSend payload) (Drops payload) (rb, Idle)"
| receive: "rbDataCh rb = payload # rest \<Longrightarrow>
    rb_step (rb, th) (Receives payload) (rb\<lparr>rbDataCh := rest\<rparr>, th)"
| close: "rb_step (rb, th) Closes (ReorderBuffer_Close rb, th)"

inductive_cases rb_stepE: "rb_step c e c'"
inductive_cases rb_receiveE: "rb_step c (Receives p) c'"
inductive_cases rb_storeE: "rb_step c (InsertStores seq p) c'"
inductive_cases rb_returnE: "rb_step c (InsertReturns seq p r) c'"
inductive_simps rb_step_simps: "rb_step (rb, th) e (rb', th')"

fun received :: "rb_event list \<Rightarrow> byte list list" where
  "received [] = []"
| "received (Receives p # es) = p # received es"
| "received (_ # es) = received es"

fun pending :: "insert_thread \<Rightarrow> byte list list" where
  "pending (AtSend p) = [p]"
| "pending _ = []"

lemma received_append [simp]: "received (es @ fs) = received es @ received fs"
  by (induction es rule: received.induct) auto

section \<open>The invariant\<close>

text \<open>
  The frames come from one stream: frame number \<open>i\<close> carries \<open>pl i\<close>, and the stream has fewer
  than \<open>2 ^ 32\<close> frames, so that its sequence numbers do not wrap (lemma \<open>Insert_wrap\<close> shows
  what happens when they do).
\<close>

definition rb_window :: "(nat \<Rightarrow> byte list) \<Rightarrow> nat \<Rightarrow> ReorderBuffer \<Rightarrow> bool" where
  "rb_window pl N rb \<longleftrightarrow> unat (rbNextSeq rb) \<le> N \<and> distinct (map fst (rbBuf rb)) \<and>
     (\<forall>(k, d) \<in> set (rbBuf rb). unat (rbNextSeq rb) \<le> unat k \<and> unat k < N
        \<and> unat k < unat (rbNextSeq rb) + rbSize rb \<and> d = pl (unat k))"

fun frame_ok :: "(nat \<Rightarrow> byte list) \<Rightarrow> nat \<Rightarrow> rb_event \<Rightarrow> bool" where
  "frame_ok pl N (InsertReturns seq d e) \<longleftrightarrow> unat seq < N \<and> d = pl (unat seq)"
| "frame_ok pl N (InsertStores seq d) \<longleftrightarrow> unat seq < N \<and> d = pl (unat seq)"
| "frame_ok pl N _ \<longleftrightarrow> True"

text \<open>The frames stored so far, and the frames for which \<open>Insert\<close> returned without an error.\<close>

definition stored :: "rb_event list \<Rightarrow> nat set" where
  "stored es = {unat seq |seq d. InsertStores seq d \<in> set es}"

definition accepted :: "rb_event list \<Rightarrow> nat set" where
  "accepted es = stored es \<union> {unat seq |seq d. InsertReturns seq d None \<in> set es}"

definition rb_inv :: "nat \<Rightarrow> (nat \<Rightarrow> byte list) \<Rightarrow> nat \<Rightarrow> rb_event list \<Rightarrow> rb_conf \<Rightarrow> bool" where
  "rb_inv sz pl N es c \<longleftrightarrow> (case c of (rb, th) \<Rightarrow>
     rb_window pl N rb \<and> rbSize rb = sz \<and> length (rbDataCh rb) \<le> sz \<and>
     stored es = {0..<unat (rbNextSeq rb)} \<union> unat ` set (map fst (rbBuf rb)) \<and>
     accepted es \<subseteq> stored es \<and>
     (\<not> rbClosed rb \<longrightarrow>
        received es @ rbDataCh rb @ pending th = map pl [0..<unat (rbNextSeq rb)] \<and>
        (th = Idle \<longrightarrow> rbNextSeq rb \<notin> set (map fst (rbBuf rb)))))"

lemma stored_simps [simp]:
  "stored [] = {}"
  "stored (es @ [InsertStores seq d]) = insert (unat seq) (stored es)"
  "stored (es @ [InsertReturns seq d r]) = stored es"
  "stored (es @ [Pops p]) = stored es" "stored (es @ [LoopEnds]) = stored es"
  "stored (es @ [Sends p]) = stored es" "stored (es @ [Drops p]) = stored es"
  "stored (es @ [Receives p]) = stored es" "stored (es @ [Closes]) = stored es"
  by (auto simp: stored_def)

lemma accepted_simps [simp]:
  "accepted [] = {}"
  "accepted (es @ [InsertStores seq d]) = insert (unat seq) (accepted es)"
  "accepted (es @ [InsertReturns seq d None]) = insert (unat seq) (accepted es)"
  "accepted (es @ [InsertReturns seq d (Some x)]) = accepted es"
  "accepted (es @ [Pops p]) = accepted es" "accepted (es @ [LoopEnds]) = accepted es"
  "accepted (es @ [Sends p]) = accepted es" "accepted (es @ [Drops p]) = accepted es"
  "accepted (es @ [Receives p]) = accepted es" "accepted (es @ [Closes]) = accepted es"
  by (auto simp: accepted_def)

lemma unat_minus_le: "a \<le> b \<Longrightarrow> unat (b - a) = unat b - unat a" for a b :: u32
  by (simp add: unat_sub)

lemma unat_eq_iff: "unat a = unat b \<longleftrightarrow> a = b" for a b :: u32
  by (simp add: word_eq_iff_unsigned [where ?'a = nat])

lemma unat_plus_one: "unat a < k \<Longrightarrow> k < 2 ^ 32 \<Longrightarrow> unat (a + 1) = unat a + 1" for a :: u32
  by (simp add: unat_word_ariths)

lemma Insert_enter_store:
  assumes "Insert_enter seq d rb = (rb', Looping)"
  shows "rb' = rb\<lparr>rbBuf := (seq, d) # rbBuf rb\<rparr>" and "seq \<notin> set (map fst (rbBuf rb))"
    and "unat (rbNextSeq rb) \<le> unat seq" and "unat seq < unat (rbNextSeq rb) + rbSize rb"
  using assms
  by (auto simp: Insert_enter_def map_of_eq_None_iff unat_minus_le word_le_nat_alt not_less
      split: if_splits)

lemma Insert_enter_return:
  assumes "Insert_enter seq d rb = (rb', Returned r)"
  shows "rb' = rb"
    and "r = None \<Longrightarrow> unat seq < unat (rbNextSeq rb) \<or> seq \<in> set (map fst (rbBuf rb))"
  using assms
  by (auto simp: Insert_enter_def word_less_nat_alt map_of_eq_None_iff dest: map_of_SomeD
      split: if_splits)

text \<open>The refusal: exactly the frames at least \<open>size\<close> ahead of the next one.\<close>

lemma Insert_enter_refuses:
  "snd (Insert_enter seq d rb) = Returned (Some ErrBufferFull)
     \<longleftrightarrow> unat (rbNextSeq rb) + rbSize rb \<le> unat seq"
  by (auto simp: Insert_enter_def unat_minus_le word_less_nat_alt word_le_nat_alt not_less
      split: if_splits)

lemma Insert_pop_Some:
  assumes "Insert_pop rb = Some (p, rb')" and "rb_window pl N rb" and "N < 2 ^ 32"
  shows "p = pl (unat (rbNextSeq rb))" and "rb_window pl N rb'"
    and "unat (rbNextSeq rb') = unat (rbNextSeq rb) + 1"
    and "rb' = rb\<lparr>rbBuf := rbBuf rb', rbNextSeq := rbNextSeq rb'\<rparr>"
    and "set (map fst (rbBuf rb)) = insert (rbNextSeq rb) (set (map fst (rbBuf rb')))"
proof -
  define n where "n = rbNextSeq rb"
  from assms(1) have look: "map_of (rbBuf rb) n = Some p"
    and rb': "rb' = rb\<lparr>rbBuf := AList.delete n (rbBuf rb), rbNextSeq := n + 1\<rparr>"
    by (auto simp: Insert_pop_def n_def split: option.splits)
  from look have mem: "(n, p) \<in> set (rbBuf rb)" by (rule map_of_SomeD)
  with assms(2) have p: "p = pl (unat n)" and lt: "unat n < N"
    by (auto simp: rb_window_def)
  have suc: "unat (n + 1) = unat n + 1"
    using lt assms(3) by (rule unat_plus_one)
  have sub: "set (AList.delete n (rbBuf rb)) \<subseteq> set (rbBuf rb)"
    by (auto simp: AList.delete_eq)
  have above: "unat n + 1 \<le> unat k" if "(k, d) \<in> set (AList.delete n (rbBuf rb))" for k d
  proof -
    from that have "k \<noteq> n" and "(k, d) \<in> set (rbBuf rb)" by (auto simp: AList.delete_eq)
    with assms(2) have "unat n \<le> unat k" and "unat k \<noteq> unat n"
      by (auto simp: rb_window_def n_def unat_eq_iff)
    then show ?thesis by simp
  qed
  show "p = pl (unat (rbNextSeq rb))" using p by (simp add: n_def)
  show "unat (rbNextSeq rb') = unat (rbNextSeq rb) + 1" using suc rb' by (simp add: n_def)
  show "rb' = rb\<lparr>rbBuf := rbBuf rb', rbNextSeq := rbNextSeq rb'\<rparr>" using rb' by simp
  show "set (map fst (rbBuf rb)) = insert (rbNextSeq rb) (set (map fst (rbBuf rb')))"
    using mem rb' by (force simp: AList.delete_eq n_def)
  show "rb_window pl N rb'"
    using assms(2) lt suc above sub rb'
    by (fastforce simp: rb_window_def distinct_delete n_def [symmetric])
qed

lemma Insert_pop_None: "Insert_pop rb = None \<Longrightarrow> rbNextSeq rb \<notin> set (map fst (rbBuf rb))"
  by (simp add: Insert_pop_def map_of_eq_None_iff split: option.splits)

text \<open>
  The comparison with the next sequence number is one of plain 32-bit integers. At the wrap a frame
  that is one ahead counts as an old one and is dropped without an error, although it is in the
  window; the frame that is due is taken.
\<close>

lemma Insert_wrap:
  assumes "rbNextSeq rb = - 1"
  shows "Insert_enter 0 d rb = (rb, Returned None)"
    and "Insert_enter (- 1) d (rb\<lparr>rbBuf := [], rbSize := Suc n\<rparr>) = (rb\<lparr>rbBuf := [(- 1, d)], rbSize := Suc n\<rparr>, Looping)"
proof -
  have "(0 :: u32) < - 1" by (simp add: word_gt_0)
  with assms show "Insert_enter 0 d rb = (rb, Returned None)"
    "Insert_enter (- 1) d (rb\<lparr>rbBuf := [], rbSize := Suc n\<rparr>) = (rb\<lparr>rbBuf := [(- 1, d)], rbSize := Suc n\<rparr>, Looping)"
    by (simp_all add: Insert_enter_def)
qed

lemma rb_inv_start: "rb_inv sz pl N [] (NewReorderBuffer sz, Idle)"
  by (simp add: rb_inv_def rb_window_def NewReorderBuffer_def)

lemma rb_inv_enter_store:
  assumes "rb_inv sz pl N es (rb, Idle)" and "Insert_enter seq d rb = (rb', Looping)"
    and "unat seq < N" and "d = pl (unat seq)"
  shows "rb_inv sz pl N (es @ [InsertStores seq d]) (rb', AtLoop)"
  using assms(1,3,4) Insert_enter_store [OF assms(2)]
  by (auto simp: rb_inv_def rb_window_def)

lemma rb_inv_enter_return:
  assumes "rb_inv sz pl N es (rb, Idle)" and "Insert_enter seq d rb = (rb', Returned r)"
  shows "rb_inv sz pl N (es @ [InsertReturns seq d r]) (rb', Idle)"
  using assms(1) Insert_enter_return [OF assms(2)]
  by (cases r) (auto simp: rb_inv_def)

lemma rb_inv_pop:
  assumes "rb_inv sz pl N es (rb, AtLoop)" and "Insert_pop rb = Some (p, rb')" and "N < 2 ^ 32"
  shows "rb_inv sz pl N (es @ [Pops p]) (rb', AtSend p)"
proof -
  have w: "rb_window pl N rb" using assms(1) by (simp add: rb_inv_def)
  note pop = Insert_pop_Some [OF assms(2) w assms(3)]
  have "rbSize rb' = rbSize rb" "rbDataCh rb' = rbDataCh rb" "rbClosed rb' = rbClosed rb"
    by (subst pop(4), simp)+
  with assms(1) pop(1,2,3,5) show ?thesis
    by (auto simp: rb_inv_def)
qed

lemma rb_inv_step:
  assumes "rb_inv sz pl N es c" and "rb_step c e c'" and "frame_ok pl N e" and "N < 2 ^ 32"
  shows "rb_inv sz pl N (es @ [e]) c'"
  using assms(2,1,3)
proof (cases rule: rb_step.cases)
  case enter_return
  then show ?thesis using assms by (auto intro: rb_inv_enter_return)
next
  case enter_store
  then show ?thesis using assms by (auto intro: rb_inv_enter_store)
next
  case pop
  then show ?thesis using assms by (auto intro: rb_inv_pop)
next
  case leave
  then show ?thesis using assms Insert_pop_None by (auto simp: rb_inv_def)
next
  case send
  then show ?thesis using assms
    by (auto simp: rb_inv_def Insert_send_def DataCh_ready_def rb_window_def)
next
  case abort
  then show ?thesis using assms by (auto simp: rb_inv_def)
next
  case receive
  then show ?thesis using assms by (auto simp: rb_inv_def rb_window_def)
next
  case close
  then show ?thesis using assms
    by (auto simp: rb_inv_def ReorderBuffer_Close_def rb_window_def)
qed

text \<open>The stream length is a parameter of the interpretation, kept below the wrap.\<close>

definition stream_ok :: "(nat \<Rightarrow> byte list) \<Rightarrow> nat \<Rightarrow> rb_event \<Rightarrow> bool" where
  "stream_ok pl N e \<longleftrightarrow> frame_ok pl N e \<and> N < 2 ^ 32"

interpretation rb_history: history_invariant rb_step "(NewReorderBuffer sz, Idle)" "stream_ok pl N"
  "rb_inv sz pl N" for sz pl N
  by unfold_locales (auto simp: stream_ok_def rb_inv_start intro: rb_inv_step)

lemma rb_run_inv:
  assumes "run rb_step (NewReorderBuffer sz, Idle) es c" and "\<forall>e \<in> set es. frame_ok pl N e"
    and "N < 2 ^ 32"
  shows "rb_inv sz pl N es c"
  using rb_history.run_inv [of sz es c pl N] assms by (simp add: stream_ok_def)

section \<open>What the buffer promises\<close>

lemma rb_in_order:
  assumes "run rb_step (NewReorderBuffer sz, Idle) es (rb, th)" and "\<forall>e \<in> set es. frame_ok pl N e"
    and "N < 2 ^ 32" and "\<not> rbClosed rb"
  shows "received es = map pl [0..<length (received es)]"
    and "length (received es) \<le> unat (rbNextSeq rb)"
proof -
  let ?n = "unat (rbNextSeq rb)"
  have eq: "received es @ rbDataCh rb @ pending th = map pl [0..<?n]"
    using rb_run_inv [OF assms(1-3)] assms(4) by (simp add: rb_inv_def)
  then show le: "length (received es) \<le> ?n"
    by (metis length_append length_map length_upt le_add1 diff_zero)
  from eq have "received es = take (length (received es)) (map pl [0..<?n])"
    by (metis append_eq_conv_conj)
  then show "received es = map pl [0..<length (received es)]"
    using le by (simp add: take_map take_upt)
qed

lemma upt_subset_bound:
  assumes "{0..<m} \<subseteq> {0..<n} \<union> A" and "n \<notin> A"
  shows "m \<le> (n::nat)"
  using assms by (metis Un_iff atLeastLessThan_iff leI le0 less_irrefl subsetD)

text \<open>
  Completeness: when every frame below \<open>m\<close> has been accepted, the buffer is at rest and the
  consumer has drained the channel, the consumer has all of them.
\<close>

lemma rb_complete:
  assumes "run rb_step (NewReorderBuffer sz, Idle) es (rb, Idle)" and "\<forall>e \<in> set es. frame_ok pl N e"
    and "N < 2 ^ 32" and "\<not> rbClosed rb" and "rbDataCh rb = []" and "{0..<m} \<subseteq> accepted es"
  shows "take m (received es) = map pl [0..<m]"
proof -
  let ?n = "unat (rbNextSeq rb)"
  have inv: "rb_inv sz pl N es (rb, Idle)" by (rule rb_run_inv [OF assms(1-3)])
  then have eq: "received es = map pl [0..<?n]" and fresh: "rbNextSeq rb \<notin> set (map fst (rbBuf rb))"
    and sub: "accepted es \<subseteq> {0..<?n} \<union> unat ` set (map fst (rbBuf rb))"
    using assms(4,5) by (auto simp: rb_inv_def)
  from fresh have "?n \<notin> unat ` set (map fst (rbBuf rb))"
    by (force simp: unat_eq_iff)
  with sub assms(6) have "m \<le> ?n" by (intro upt_subset_bound) auto
  with eq show ?thesis by (simp add: take_map take_upt)
qed

lemma rb_bounds:
  assumes "run rb_step (NewReorderBuffer sz, Idle) es (rb, th)" and "\<forall>e \<in> set es. frame_ok pl N e"
    and "N < 2 ^ 32"
  shows "length (rbBuf rb) \<le> sz" and "length (rbDataCh rb) \<le> sz"
proof -
  let ?n = "unat (rbNextSeq rb)"
  have inv: "rb_inv sz pl N es (rb, th)" by (rule rb_run_inv [OF assms(1-3)])
  then show "length (rbDataCh rb) \<le> sz" by (simp add: rb_inv_def)
  have "unat ` set (map fst (rbBuf rb)) \<subseteq> {?n..<?n + sz}" and d: "distinct (map fst (rbBuf rb))"
    using inv by (auto simp: rb_inv_def rb_window_def)
  then have "card (unat ` set (map fst (rbBuf rb))) \<le> card {?n..<?n + sz}"
    by (intro card_mono) auto
  moreover have "card (unat ` set (map fst (rbBuf rb))) = card (set (map fst (rbBuf rb)))"
    by (intro card_image) (auto simp: inj_on_def unat_eq_iff)
  ultimately show "length (rbBuf rb) \<le> sz"
    using distinct_card [OF d] by simp
qed

section \<open>The executable call\<close>

fun thread_of :: "insert_outcome \<Rightarrow> insert_thread" where
  "thread_of (Return e) = Idle"
| "thread_of (Blocked p) = AtSend p"

text \<open>The steps of the drain loop: neither the consumer nor \<open>Close\<close> moves.\<close>

fun drain_step :: "rb_event \<Rightarrow> bool" where
  "drain_step (Pops p) = True"
| "drain_step LoopEnds = True"
| "drain_step (Sends p) = True"
| "drain_step (Drops p) = True"
| "drain_step _ = False"

lemma received_drain: "list_all drain_step es \<Longrightarrow> received es = []"
  by (induction es rule: received.induct) simp_all

lemma frame_ok_drain: "drain_step e \<Longrightarrow> frame_ok pl N e"
  by (cases e) simp_all

lemma insert_loop_run:
  "insert_loop rb = (rb', out) \<Longrightarrow>
     \<exists>es. run rb_step (rb, AtLoop) es (rb', thread_of out) \<and> list_all drain_step es"
proof (induction rb arbitrary: rb' out rule: insert_loop.induct)
  case (1 rb)
  show ?case
  proof (cases "Insert_pop rb")
    case None
    with "1.prems" have "rb' = rb" "out = Return None"
      by (simp_all add: insert_loop.simps [of rb])
    with None show ?thesis
      by (intro exI [of _ "[LoopEnds]"]) (auto intro: run_single rb_step.leave)
  next
    case (Some q)
    obtain p rb1 where q: "q = (p, rb1)" by (cases q)
    with Some have popped: "rb_step (rb, AtLoop) (Pops p) (rb1, AtSend p)"
      by (auto intro: rb_step.pop)
    show ?thesis
    proof (cases "DataCh_ready rb1")
      case True
      with "1.prems" Some q have loop: "insert_loop (Insert_send p rb1) = (rb', out)"
        by (simp add: insert_loop.simps [of rb])
      from "1.IH" [OF Some q [symmetric] True loop]
      obtain es where "run rb_step (Insert_send p rb1, AtLoop) es (rb', thread_of out)"
        and "list_all drain_step es" by blast
      moreover from True have "rb_step (rb1, AtSend p) (Sends p) (Insert_send p rb1, AtLoop)"
        by (rule rb_step.send)
      ultimately show ?thesis using popped
        by (intro exI [of _ "Pops p # Sends p # es"]) (auto intro: run_cons)
    next
      case False
      show ?thesis
      proof (cases "rbClosed rb1")
        case True
        with False "1.prems" Some q have "rb' = rb1" "out = Return None"
          by (simp_all add: insert_loop.simps [of rb])
        with True popped show ?thesis
          by (intro exI [of _ "[Pops p, Drops p]"]) (auto intro: run_cons run_single rb_step.abort)
      next
        case nc: False
        with False "1.prems" Some q have "rb' = rb1" "out = Blocked p"
          by (simp_all add: insert_loop.simps [of rb])
        with popped show ?thesis
          by (intro exI [of _ "[Pops p]"]) (auto intro: run_single)
      qed
    qed
  qed
qed

lemma Insert_run:
  assumes "Insert seq data rb = (rb', out)"
  shows "\<exists>e es. run rb_step (rb, Idle) (e # es) (rb', thread_of out) \<and> list_all drain_step es
     \<and> (e = InsertStores seq data \<or> (\<exists>r. e = InsertReturns seq data r))"
proof (cases "Insert_enter seq data rb")
  case (Pair rb1 st)
  show ?thesis
  proof (cases st)
    case (Returned r)
    with assms Pair have "rb' = rb1" "out = Return r" by (simp_all add: Insert_def)
    with Pair Returned show ?thesis
      by (intro exI [of _ "InsertReturns seq data r"] exI [of _ "[]"]) (auto intro: run_single rb_step.enter_return)
  next
    case Looping
    with assms Pair have "insert_loop rb1 = (rb', out)" by (simp add: Insert_def)
    then obtain es where "run rb_step (rb1, AtLoop) es (rb', thread_of out)" "list_all drain_step es"
      using insert_loop_run by blast
    with Pair Looping show ?thesis
      by (intro exI [of _ "InsertStores seq data"] exI [of _ es]) (auto intro: run_cons rb_step.enter_store)
  qed
qed

text \<open>
  What an uninterrupted call does: it moves the longest run of consecutive frames that starts
  at \<open>nextSeq\<close> from the buffer to the channel, in order, and stops at the first missing one.
\<close>

definition consecutive :: "ReorderBuffer \<Rightarrow> nat \<Rightarrow> byte list list" where
  "consecutive rb k = map (\<lambda>i. the (map_of (rbBuf rb) (rbNextSeq rb + of_nat i))) [0..<k]"

definition drained :: "ReorderBuffer \<Rightarrow> nat \<Rightarrow> ReorderBuffer \<Rightarrow> bool" where
  "drained rb k rb' \<longleftrightarrow>
     (\<forall>i < k. map_of (rbBuf rb) (rbNextSeq rb + of_nat i) \<noteq> None) \<and>
     rbNextSeq rb' = rbNextSeq rb + of_nat k \<and>
     map_of (rbBuf rb') (rbNextSeq rb') = None \<and>
     (\<forall>s. map_of (rbBuf rb') s =
        (if s \<in> (\<lambda>i. rbNextSeq rb + of_nat i) ` {0..<k} then None else map_of (rbBuf rb) s)) \<and>
     rbDataCh rb' = rbDataCh rb @ consecutive rb k"

lemma drained_step:
  assumes pop: "Insert_pop rb = Some (p, rb1)" and d: "drained (Insert_send p rb1) k rb'"
  shows "drained rb (Suc k) rb'"
proof -
  let ?n = "rbNextSeq rb"
  have look: "map_of (rbBuf rb) ?n = Some p"
    and rb1: "rb1 = rb\<lparr>rbBuf := AList.delete ?n (rbBuf rb), rbNextSeq := ?n + 1\<rparr>"
    using pop by (auto simp: Insert_pop_def split: option.splits)
  have del: "map_of (AList.delete ?n (rbBuf rb)) s = (if s = ?n then None else map_of (rbBuf rb) s)" for s
    by (simp add: AList.delete_conv')
  have shift: "?n + 1 + of_nat i = ?n + of_nat (Suc i)" for i by simp
  have img: "(\<lambda>i. ?n + of_nat i) ` {0..<Suc k} = insert ?n ((\<lambda>i. ?n + 1 + of_nat i) ` {0..<k})"
    unfolding shift by (force simp: image_iff less_Suc_eq_0_disj simp del: of_nat_Suc)
  have there: "\<forall>i < k. ?n + 1 + of_nat i \<noteq> ?n \<and> map_of (rbBuf rb) (?n + 1 + of_nat i) \<noteq> None"
    using d by (auto simp: drained_def rb1 Insert_send_def del split: if_splits)
  then have all: "\<forall>i < Suc k. map_of (rbBuf rb) (?n + of_nat i) \<noteq> None"
    using look by (auto simp: less_Suc_eq_0_disj ac_simps)
  have "consecutive rb (Suc k) = p # consecutive (Insert_send p rb1) k"
    using look there
    by (simp add: consecutive_def rb1 Insert_send_def del upt_conv_Cons map_Suc_upt [symmetric]
        ac_simps del: upt_Suc)
  with d have ch: "rbDataCh rb' = rbDataCh rb @ consecutive rb (Suc k)"
    by (simp add: drained_def rb1 Insert_send_def)
  have nxt: "rbNextSeq rb' = ?n + of_nat (Suc k)"
    using d by (simp add: drained_def rb1 Insert_send_def)
  have gap: "map_of (rbBuf rb') (rbNextSeq rb') = None"
    using d unfolding drained_def by blast
  have "map_of (rbBuf rb') s =
      (if s \<in> (\<lambda>i. ?n + of_nat i) ` {0..<Suc k} then None else map_of (rbBuf rb) s)" for s
    using d unfolding img by (simp add: drained_def rb1 Insert_send_def del)
  with all ch nxt gap show ?thesis
    unfolding drained_def by blast
qed

lemma insert_loop_drains:
  "insert_loop rb = (rb', Return e) \<Longrightarrow> \<not> rbClosed rb \<Longrightarrow> e = None \<and> (\<exists>k. drained rb k rb')"
proof (induction rb rule: insert_loop.induct)
  case (1 rb)
  show ?case
  proof (cases "Insert_pop rb")
    case None
    with "1.prems" have "rb' = rb" "e = None" by (simp_all add: insert_loop.simps [of rb])
    moreover from None have "drained rb 0 rb"
      by (simp add: drained_def consecutive_def Insert_pop_def split: option.splits)
    ultimately show ?thesis by blast
  next
    case (Some q)
    obtain p rb1 where q: "q = (p, rb1)" by (cases q)
    have cl: "rbClosed (Insert_send p rb1) = rbClosed rb" "rbClosed rb1 = rbClosed rb"
      using Some q by (auto simp: Insert_pop_def Insert_send_def split: option.splits)
    show ?thesis
    proof (cases "DataCh_ready rb1")
      case True
      with "1.prems"(1) Some q have loop: "insert_loop (Insert_send p rb1) = (rb', Return e)"
        by (simp add: insert_loop.simps [of rb])
      from "1.IH" [OF Some q [symmetric] True loop] "1.prems"(2) cl
      obtain k where "e = None" and "drained (Insert_send p rb1) k rb'" by auto
      with Some q show ?thesis using drained_step by blast
    next
      case False
      with "1.prems" Some q cl show ?thesis by (simp add: insert_loop.simps [of rb])
    qed
  qed
qed

section \<open>Main properties\<close>

text \<open>Frame 1 before frame 0.\<close>

definition out_of_order :: "rb_event list" where
  "out_of_order = [InsertStores 1 [8], LoopEnds, InsertStores 0 [7], Pops [7], Sends [7], Pops [8], Sends [8],
     LoopEnds, Receives [7], Receives [8]]"

lemma out_of_order_run: "\<exists>rb. run rb_step (NewReorderBuffer 4, Idle) out_of_order (rb, Idle) \<and> \<not> rbClosed rb \<and> rbDataCh rb = []"
proof -
  define r where "r = NewReorderBuffer 4"
  note defs = r_def NewReorderBuffer_def rb_step_simps Insert_enter_def Insert_pop_def Insert_send_def DataCh_ready_def
  have s1: "rb_step (r, Idle) (InsertStores 1 [8]) (r\<lparr>rbBuf := [(1, [8])]\<rparr>, AtLoop)" by (simp add: defs)
  have s2: "rb_step (r\<lparr>rbBuf := [(1, [8])]\<rparr>, AtLoop) LoopEnds (r\<lparr>rbBuf := [(1, [8])]\<rparr>, Idle)" by (simp add: defs)
  have s3: "rb_step (r\<lparr>rbBuf := [(1, [8])]\<rparr>, Idle) (InsertStores 0 [7]) (r\<lparr>rbBuf := [(0, [7]), (1, [8])]\<rparr>, AtLoop)"
    by (simp add: defs)
  have s4: "rb_step (r\<lparr>rbBuf := [(0, [7]), (1, [8])]\<rparr>, AtLoop) (Pops [7])
      (r\<lparr>rbBuf := [(1, [8])], rbNextSeq := 1\<rparr>, AtSend [7])" by (simp add: defs)
  have s5: "rb_step (r\<lparr>rbBuf := [(1, [8])], rbNextSeq := 1\<rparr>, AtSend [7]) (Sends [7])
      (r\<lparr>rbBuf := [(1, [8])], rbNextSeq := 1, rbDataCh := [[7]]\<rparr>, AtLoop)" by (simp add: defs)
  have s6: "rb_step (r\<lparr>rbBuf := [(1, [8])], rbNextSeq := 1, rbDataCh := [[7]]\<rparr>, AtLoop) (Pops [8])
      (r\<lparr>rbNextSeq := 2, rbDataCh := [[7]]\<rparr>, AtSend [8])" by (simp add: defs)
  have s7: "rb_step (r\<lparr>rbNextSeq := 2, rbDataCh := [[7]]\<rparr>, AtSend [8]) (Sends [8])
      (r\<lparr>rbNextSeq := 2, rbDataCh := [[7], [8]]\<rparr>, AtLoop)" by (simp add: defs)
  have s8: "rb_step (r\<lparr>rbNextSeq := 2, rbDataCh := [[7], [8]]\<rparr>, AtLoop) LoopEnds
      (r\<lparr>rbNextSeq := 2, rbDataCh := [[7], [8]]\<rparr>, Idle)" by (simp add: defs)
  have s9: "rb_step (r\<lparr>rbNextSeq := 2, rbDataCh := [[7], [8]]\<rparr>, Idle) (Receives [7])
      (r\<lparr>rbNextSeq := 2, rbDataCh := [[8]]\<rparr>, Idle)" by (simp add: defs)
  have s10: "rb_step (r\<lparr>rbNextSeq := 2, rbDataCh := [[8]]\<rparr>, Idle) (Receives [8]) (r\<lparr>rbNextSeq := 2, rbDataCh := []\<rparr>, Idle)"
    by (simp add: defs)
  have "run rb_step (r, Idle) out_of_order (r\<lparr>rbNextSeq := 2, rbDataCh := []\<rparr>, Idle)"
    unfolding out_of_order_def
    by (rule run_cons [of rb_step, OF s1], rule run_cons [of rb_step, OF s2], rule run_cons [of rb_step, OF s3], rule run_cons [of rb_step, OF s4],
        rule run_cons [of rb_step, OF s5], rule run_cons [of rb_step, OF s6], rule run_cons [of rb_step, OF s7], rule run_cons [of rb_step, OF s8],
        rule run_cons [of rb_step, OF s9], rule run_single [of rb_step, OF s10])
  then show ?thesis by (auto simp: r_def NewReorderBuffer_def)
qed

text \<open>C9. Frames accepted in any order, with repetitions, come out complete and in order: when frames \<open>0\<close> to \<open>m - 1\<close> have been accepted, no call is under way and the channel is empty, the first \<open>m\<close> payloads received are those of the frames.\<close>

theorem reorder_complete:
  assumes "run rb_step (NewReorderBuffer sz, Idle) es (rb, Idle)" and "\<forall>e \<in> set es. frame_ok pl N e"
    and "N < 2 ^ 32" and "\<not> rbClosed rb" and "rbDataCh rb = []" and "{0..<m} \<subseteq> accepted es"
  shows "take m (received es) = map pl [0..<m]"
  using assms by (rule rb_complete)

theorem reorder_complete_witness:
  "take 2 (received out_of_order) = [[7], [8]]"
proof -
  obtain rb where "run rb_step (NewReorderBuffer 4, Idle) out_of_order (rb, Idle)" "\<not> rbClosed rb" "rbDataCh rb = []"
    using out_of_order_run by blast
  moreover have "\<forall>e \<in> set out_of_order. frame_ok (\<lambda>i. [of_nat i + 7]) 2 e"
    by (simp add: out_of_order_def)
  moreover have "{0..<2} \<subseteq> accepted out_of_order"
  proof -
    have "{0..<2} = {0, 1::nat}" by auto
    moreover have "InsertStores 0 [7] \<in> set out_of_order" "InsertStores 1 [8] \<in> set out_of_order"
      by (simp_all add: out_of_order_def)
    then have "unat (0::u32) \<in> accepted out_of_order" "unat (1::u32) \<in> accepted out_of_order"
      unfolding accepted_def stored_def by blast+
    ultimately show ?thesis by simp
  qed
  ultimately have "take 2 (received out_of_order) = map (\<lambda>i. [of_nat i + 7]) [0..<2]"
    by (intro reorder_complete [of 4 _ _ _ 2]) simp_all
  then show ?thesis by (simp add: eval_nat_numeral)
qed

end
