(* ===== verification/Manager.thy ===== *)
theory Manager
  imports Reorder
begin

text \<open>
  \<open>SessionManager\<close> of \<open>internal/tunnel/session.go\<close>: the table of sessions by id and the time each
  was last heard of. Each operation is one critical section of the manager's mutex. The type of
  the sessions is a parameter here (the peers put pointers there); closing them is the peer's
  business (theory \<open>Node\<close>), so \<open>CloseAll\<close> and \<open>cleanupStale\<close> are their critical sections: the
  part that takes the sessions out and the part that clears the table.
\<close>

record 's SessionManager =
  smSessions :: "string \<Rightarrow> 's option"
  smLastSeen :: "string \<Rightarrow> time option"

definition NewSessionManager :: "'s SessionManager" where
  "NewSessionManager = \<lparr>smSessions = Map.empty, smLastSeen = Map.empty\<rparr>"

definition Add :: "time \<Rightarrow> string \<Rightarrow> 's \<Rightarrow> 's SessionManager \<Rightarrow> tunnel_error + 's SessionManager" where
  "Add now i s sm =
     (if smSessions sm i \<noteq> None then Inl ErrSessionExists
      else Inr (sm\<lparr>smSessions := (smSessions sm)(i \<mapsto> s), smLastSeen := (smLastSeen sm)(i \<mapsto> now)\<rparr>))"

definition Get :: "string \<Rightarrow> 's SessionManager \<Rightarrow> tunnel_error + 's" where
  "Get i sm = (case smSessions sm i of None \<Rightarrow> Inl ErrSessionNotFound | Some s \<Rightarrow> Inr s)"

definition Remove :: "string \<Rightarrow> 's SessionManager \<Rightarrow> 's SessionManager" where
  "Remove i sm = sm\<lparr>smSessions := (smSessions sm)(i := None), smLastSeen := (smLastSeen sm)(i := None)\<rparr>"

definition Touch :: "time \<Rightarrow> string \<Rightarrow> 's SessionManager \<Rightarrow> 's SessionManager" where
  "Touch now i sm =
     (if smSessions sm i \<noteq> None then sm\<lparr>smLastSeen := (smLastSeen sm)(i \<mapsto> now)\<rparr> else sm)"

definition Count :: "'s SessionManager \<Rightarrow> nat" where
  "Count sm = card (dom (smSessions sm))"

text \<open>\<open>CloseAll\<close>: the copy taken under the lock, and the fresh tables put in afterwards.\<close>

definition CloseAll_snapshot :: "'s SessionManager \<Rightarrow> string \<Rightarrow> 's option" where
  "CloseAll_snapshot sm = smSessions sm"

definition CloseAll_clear :: "'s SessionManager \<Rightarrow> 's SessionManager" where
  "CloseAll_clear sm = sm\<lparr>smSessions := Map.empty, smLastSeen := Map.empty\<rparr>"

text \<open>\<open>cleanupStale\<close>: the stale entries leave the tables; an id without a session would put a nil
  interface among those to close (the inner \<^term>\<open>None\<close>).\<close>

definition is_stale :: "time \<Rightarrow> time \<Rightarrow> 's SessionManager \<Rightarrow> string \<Rightarrow> bool" where
  "is_stale now timeout sm i = (case smLastSeen sm i of None \<Rightarrow> False | Some t \<Rightarrow> now - t > timeout)"

definition cleanupStale :: "time \<Rightarrow> time \<Rightarrow> 's SessionManager \<Rightarrow> 's SessionManager \<times> (string \<Rightarrow> 's option option)" where
  "cleanupStale now timeout sm =
     (let stale = is_stale now timeout sm in
      (sm\<lparr>smSessions := (\<lambda>i. if stale i then None else smSessions sm i),
          smLastSeen := (\<lambda>i. if stale i then None else smLastSeen sm i)\<rparr>,
       \<lambda>i. if stale i then Some (smSessions sm i) else None))"

section \<open>The invariant\<close>

text \<open>Both tables have the same keys.\<close>

definition sm_inv :: "'s SessionManager \<Rightarrow> bool" where
  "sm_inv sm \<longleftrightarrow> (\<forall>i. smSessions sm i = None \<longleftrightarrow> smLastSeen sm i = None)"

lemmas manager_defs = Add_def Get_def Remove_def Touch_def

lemma sm_inv_New [simp]: "sm_inv NewSessionManager"
  by (simp add: sm_inv_def NewSessionManager_def)

lemma sm_inv_Add: "sm_inv sm \<Longrightarrow> Add now i s sm = Inr sm' \<Longrightarrow> sm_inv sm'"
  by (auto simp: sm_inv_def Add_def split: if_splits)

lemma sm_inv_Remove [simp]: "sm_inv sm \<Longrightarrow> sm_inv (Remove i sm)"
  by (simp add: sm_inv_def Remove_def)

lemma sm_inv_Touch [simp]: "sm_inv sm \<Longrightarrow> sm_inv (Touch now i sm)"
  by (simp add: sm_inv_def Touch_def)

lemma sm_inv_clear [simp]: "sm_inv (CloseAll_clear sm)"
  by (simp add: sm_inv_def CloseAll_clear_def)

lemma sm_inv_cleanup: "sm_inv sm \<Longrightarrow> sm_inv (fst (cleanupStale now timeout sm))"
  by (simp add: sm_inv_def cleanupStale_def Let_def)

lemma cleanup_no_nil:
  "sm_inv sm \<Longrightarrow> snd (cleanupStale now timeout sm) i \<noteq> Some None"
  by (auto simp: sm_inv_def cleanupStale_def Let_def is_stale_def split: option.splits)

lemma smSessions_Touch [simp]: "smSessions (Touch now i sm) = smSessions sm"
  by (simp add: Touch_def)

lemma smSessions_Remove [simp]: "smSessions (Remove i sm) = (smSessions sm)(i := None)"
  by (simp add: Remove_def)

lemma smSessions_Add: "Add now i s sm = Inr sm' \<Longrightarrow> smSessions sm' = (smSessions sm)(i \<mapsto> s)"
  by (auto simp: Add_def split: if_splits)

lemma Remove_Remove [simp]: "Remove i (Remove i sm) = Remove i sm"
  by (simp add: Remove_def)

section \<open>The interface of a session table\<close>

text \<open>What the message handlers of both peers rely on.\<close>

locale session_table =
  fixes lookup :: "'i \<Rightarrow> 't \<Rightarrow> 's option"
    and insert_new :: "'i \<Rightarrow> 's \<Rightarrow> 't \<Rightarrow> 't option"
    and discard :: "'i \<Rightarrow> 't \<Rightarrow> 't"
  assumes insert_refused: "insert_new i s t = None \<longleftrightarrow> lookup i t \<noteq> None"
    and lookup_insert: "insert_new i s t = Some t' \<Longrightarrow> lookup j t' = (if j = i then Some s else lookup j t)"
    and lookup_discard: "lookup j (discard i t) = (if j = i then None else lookup j t)"
begin

lemma insert_after_discard: "\<exists>t'. insert_new i s (discard i t) = Some t'"
  using insert_refused [of i s "discard i t"] lookup_discard [of i i t] by auto

lemma no_overwrite: "lookup i t = Some s \<Longrightarrow> insert_new i s' t = None"
  by (simp add: insert_refused)

lemma insert_discard: "insert_new i s t = Some t' \<Longrightarrow> lookup j (discard i t') = lookup j t"
  using insert_refused [of i s t] by (auto simp: lookup_discard lookup_insert)

end

text \<open>A table whose entries expire unless they are refreshed.\<close>

locale expiring_table = session_table lookup insert_new discard
  for lookup :: "'i \<Rightarrow> 't \<Rightarrow> 's option"
    and insert_new :: "'i \<Rightarrow> 's \<Rightarrow> 't \<Rightarrow> 't option"
    and discard :: "'i \<Rightarrow> 't \<Rightarrow> 't" +
  fixes seen :: "'i \<Rightarrow> 't \<Rightarrow> int option"
    and refresh :: "int \<Rightarrow> 'i \<Rightarrow> 't \<Rightarrow> 't"
    and expire :: "int \<Rightarrow> int \<Rightarrow> 't \<Rightarrow> 't"
    and ok :: "'t \<Rightarrow> bool"
  assumes seen_iff: "ok t \<Longrightarrow> seen i t = None \<longleftrightarrow> lookup i t = None"
    and lookup_refresh: "lookup j (refresh now i t) = lookup j t"
    and seen_refresh: "seen j (refresh now i t) = (if j = i \<and> lookup i t \<noteq> None then Some now else seen j t)"
    and lookup_expire: "lookup i (expire now d t)
      = (case seen i t of Some u \<Rightarrow> if now - u > d then None else lookup i t | None \<Rightarrow> lookup i t)"
begin

text \<open>An entry refreshed within the timeout survives; one that was not is gone.\<close>

lemma fresh_survives:
  assumes "lookup i t = Some s" and "now - at \<le> d"
  shows "lookup i (expire now d (refresh at i t)) = Some s"
  using assms by (simp add: lookup_expire seen_refresh lookup_refresh)

lemma idle_expires:
  assumes "seen i t = Some u" and "now - u > d"
  shows "lookup i (expire now d t) = None"
  using assms by (simp add: lookup_expire)

lemma refresh_other: "j \<noteq> i \<Longrightarrow> lookup j (expire now d (refresh at i t)) = lookup j (expire now d t)"
  by (auto simp: lookup_expire seen_refresh lookup_refresh split: option.splits)

lemma expire_keeps: "lookup i (expire now d t) = Some s \<Longrightarrow> lookup i t = Some s"
  by (auto simp: lookup_expire split: option.splits if_splits)

end

fun some_right :: "'e + 'a \<Rightarrow> 'a option" where
  "some_right (Inl e) = None"
| "some_right (Inr a) = Some a"

lemma some_right_iff: "some_right x = Some a \<longleftrightarrow> x = Inr a"
  by (cases x) auto

lemma some_right_Get [simp]: "some_right (Get i sm) = smSessions sm i"
  by (simp add: Get_def split: option.split)

lemma sm_inv_seen: "sm_inv sm \<Longrightarrow> smLastSeen sm i = None \<longleftrightarrow> smSessions sm i = None"
  unfolding sm_inv_def by blast

interpretation manager_table: expiring_table
  "\<lambda>i sm. some_right (Get i sm)" "\<lambda>i s sm. some_right (Add t0 i s sm)" Remove
  "\<lambda>i sm. smLastSeen sm i" Touch "\<lambda>now d sm. fst (cleanupStale now d sm)" sm_inv
  for t0
  by unfold_locales
     (auto simp: sm_inv_seen Add_def Remove_def Touch_def cleanupStale_def is_stale_def Let_def
       split: option.splits if_splits)

text \<open>A session touched at most the timeout ago survives the cleanup, one touched longer ago does not,
  and touching a session makes no difference to the others.\<close>

lemma session_expiry:
  assumes "smSessions sm i = Some s"
  shows "(case Get i (fst (cleanupStale now d (Touch at i sm))) of
           Inl e \<Rightarrow> now - at > d \<and> e = ErrSessionNotFound
         | Inr x \<Rightarrow> now - at \<le> d \<and> x = s)
     \<and> (\<forall>j. j \<noteq> i \<longrightarrow> Get j (fst (cleanupStale now d (Touch at i sm))) = Get j (fst (cleanupStale now d sm)))"
proof -
  have Get_eq: "some_right (Get j x) = some_right (Get j y) \<Longrightarrow> Get j x = Get j y" for j x y
    by (simp add: Get_def split: option.splits)
  have other: "Get j (fst (cleanupStale now d (Touch at i sm))) = Get j (fst (cleanupStale now d sm))"
    if "j \<noteq> i" for j
    by (rule Get_eq) (rule manager_table.refresh_other [OF that])
  have seen: "smLastSeen (Touch at i sm) i = Some at" using assms by (simp add: Touch_def)
  show ?thesis
  proof (cases "now - at \<le> d")
    case True
    have "some_right (Get i sm) = Some s" using assms by simp
    from manager_table.fresh_survives [OF this True]
    have "Get i (fst (cleanupStale now d (Touch at i sm))) = Inr s" by (simp only: some_right_iff)
    then show ?thesis using True other by simp
  next
    case False
    then have "some_right (Get i (fst (cleanupStale now d (Touch at i sm)))) = None"
      by (intro manager_table.idle_expires [OF seen]) simp
    then have "Get i (fst (cleanupStale now d (Touch at i sm))) = Inl ErrSessionNotFound"
      by (simp add: Get_def split: option.splits)
    then show ?thesis using False other by simp
  qed
qed

section \<open>One table\<close>

text \<open>
  What the manager promises, without its two maps: one table from ids to a session and the time it
  was last heard of. The operations of the program as commands with their answers.
\<close>

datatype 's manager_op = OpAdd time string 's | OpGet string | OpRemove string | OpTouch time string
  | OpCount | OpCloseAll | OpCleanup time time

datatype 's manager_answer = Done | Refused tunnel_error | Found 's | Counted nat
  | Taken "string \<Rightarrow> 's option" | Stale "string \<Rightarrow> 's option option"

fun manager_do :: "'s manager_op \<Rightarrow> 's SessionManager \<Rightarrow> 's SessionManager \<times> 's manager_answer" where
  "manager_do (OpAdd now i s) sm = (case Add now i s sm of Inl e \<Rightarrow> (sm, Refused e) | Inr sm' \<Rightarrow> (sm', Done))"
| "manager_do (OpGet i) sm = (sm, case Get i sm of Inl e \<Rightarrow> Refused e | Inr s \<Rightarrow> Found s)"
| "manager_do (OpRemove i) sm = (Remove i sm, Done)"
| "manager_do (OpTouch now i) sm = (Touch now i sm, Done)"
| "manager_do OpCount sm = (sm, Counted (Count sm))"
| "manager_do OpCloseAll sm = (CloseAll_clear sm, Taken (CloseAll_snapshot sm))"
| "manager_do (OpCleanup now d) sm = (case cleanupStale now d sm of (sm', st) \<Rightarrow> (sm', Stale st))"

type_synonym 's table = "string \<Rightarrow> ('s \<times> time) option"

definition old_entry :: "time \<Rightarrow> time \<Rightarrow> ('s \<times> time) option \<Rightarrow> bool" where
  "old_entry now d x \<longleftrightarrow> (case x of None \<Rightarrow> False | Some (s, t) \<Rightarrow> now - t > d)"

fun table_do :: "'s manager_op \<Rightarrow> 's table \<Rightarrow> 's table \<times> 's manager_answer" where
  "table_do (OpAdd now i s) t = (if t i = None then (t(i \<mapsto> (s, now)), Done) else (t, Refused ErrSessionExists))"
| "table_do (OpGet i) t = (t, case t i of None \<Rightarrow> Refused ErrSessionNotFound | Some (s, u) \<Rightarrow> Found s)"
| "table_do (OpRemove i) t = (t(i := None), Done)"
| "table_do (OpTouch now i) t = (t(i := map_option (\<lambda>(s, u). (s, now)) (t i)), Done)"
| "table_do OpCount t = (t, Counted (card (dom t)))"
| "table_do OpCloseAll t = (Map.empty, Taken (\<lambda>i. map_option fst (t i)))"
| "table_do (OpCleanup now d) t =
     ((\<lambda>i. if old_entry now d (t i) then None else t i),
      Stale (\<lambda>i. if old_entry now d (t i) then Some (map_option fst (t i)) else None))"

text \<open>A program on a table: the answers of its commands, one after the other.\<close>

fun run_ops :: "('op \<Rightarrow> 'state \<Rightarrow> 'state \<times> 'answer) \<Rightarrow> 'op list \<Rightarrow> 'state \<Rightarrow> 'state \<times> 'answer list" where
  "run_ops step [] x = (x, [])"
| "run_ops step (op # ops) x =
     (let (y, a) = step op x; (z, as) = run_ops step ops y in (z, a # as))"

definition table_of :: "'s SessionManager \<Rightarrow> 's table" where
  "table_of sm i = (case (smSessions sm i, smLastSeen sm i) of (Some s, Some t) \<Rightarrow> Some (s, t) | _ \<Rightarrow> None)"

lemma table_of_entry:
  assumes "sm_inv sm"
  shows "table_of sm i = None \<longleftrightarrow> smSessions sm i = None"
    and "map_option fst (table_of sm i) = smSessions sm i" and "map_option snd (table_of sm i) = smLastSeen sm i"
proof -
  from assms have "smSessions sm i = None \<longleftrightarrow> smLastSeen sm i = None" unfolding sm_inv_def by blast
  then show "table_of sm i = None \<longleftrightarrow> smSessions sm i = None"
    "map_option fst (table_of sm i) = smSessions sm i" "map_option snd (table_of sm i) = smLastSeen sm i"
    by (auto simp: table_of_def split: option.splits)
qed

lemma old_entry_table: "sm_inv sm \<Longrightarrow> old_entry now d (table_of sm i) \<longleftrightarrow> is_stale now d sm i"
  using table_of_entry(3) [of sm i]
  by (cases "table_of sm i") (auto simp: old_entry_def is_stale_def split: option.splits)

lemma manager_do_inv: "sm_inv sm \<Longrightarrow> sm_inv (fst (manager_do op sm))"
  using sm_inv_cleanup [of sm]
  by (cases op) (auto simp: sm_inv_Add case_prod_beta split: sum.split)

lemma manager_do_refines:
  assumes inv: "sm_inv sm"
  shows "table_do op (table_of sm) = apfst table_of (manager_do op sm)"
proof (cases op)
  case (OpAdd now i s)
  then show ?thesis
    using table_of_entry(1) [OF inv, of i] by (auto simp: Add_def table_of_def fun_eq_iff split: option.split)
next
  case (OpGet i)
  then show ?thesis
    using table_of_entry(2) [OF inv, of i] by (auto simp: Get_def simp flip: table_of_entry(2) [OF inv, of i] split: option.split)
next
  case (OpTouch now i)
  then show ?thesis
    using table_of_entry(2) [OF inv, of i]
    by (auto simp: Touch_def table_of_def fun_eq_iff split: option.split)
next
  case OpCount
  have "dom (table_of sm) = dom (smSessions sm)"
    using table_of_entry(1) [OF inv] by (auto simp: dom_def)
  then show ?thesis using OpCount by (simp add: Count_def)
next
  case OpCloseAll
  then show ?thesis
    using table_of_entry(2) [OF inv]
    by (auto simp: CloseAll_clear_def CloseAll_snapshot_def table_of_def fun_eq_iff)
next
  case (OpCleanup now d)
  then show ?thesis
    using table_of_entry(2) [OF inv] old_entry_table [OF inv]
    by (auto simp: cleanupStale_def Let_def table_of_def fun_eq_iff)
qed (auto simp: Remove_def table_of_def fun_eq_iff)

lemma table_of_New: "table_of NewSessionManager = Map.empty"
  by (simp add: table_of_def NewSessionManager_def fun_eq_iff)

lemma run_ops_refines:
  "sm_inv sm \<Longrightarrow> run_ops table_do ops (table_of sm) = apfst table_of (run_ops manager_do ops sm)"
proof (induction ops arbitrary: sm)
  case (Cons op ops)
  obtain sm' a where op: "manager_do op sm = (sm', a)" by (cases "manager_do op sm")
  have "sm_inv sm'" using manager_do_inv [OF Cons.prems, of op] op by simp
  from Cons.IH [OF this] manager_do_refines [OF Cons.prems, of op] op show ?case
    by (simp add: Let_def split: prod.split)
qed simp

section \<open>Main properties\<close>

text \<open>C16. The session manager is a table of sessions with their last-seen times: any program of manager operations gets from it the answers the table gives, and leaves in it what the table holds.\<close>

theorem manager_refines:
  "run_ops table_do ops Map.empty = apfst table_of (run_ops manager_do ops NewSessionManager)"
  using run_ops_refines [OF sm_inv_New, of ops] by (simp add: table_of_New)

end
