(* ===== verification/Flow.thy ===== *)
theory Flow
  imports Prelude Protocol
begin

text \<open>
  \<open>FlowControl\<close> of \<open>internal/tunnel/session.go\<close>: the credit window of a sender, and the
  bookkeeping of the receivers, which acknowledge the total they consumed once every quarter of
  a window (\<open>sessionAckState\<close> of \<open>internal/client/client.go\<close> and the loops of the TCP and shell
  sessions, which keep the same three variables).

  The counters are 64-bit words, as in the code. \<open>blockedNotify\<close>, a channel of capacity one, is
  the flag \<open>fcNotify\<close>: a token is in the channel.
\<close>

section \<open>The sender's window\<close>

record FlowControl =
  fcSent :: u64
  fcAcked :: u64
  fcWindow :: u64
  fcNotify :: bool

definition NewFlowControl :: "u64 \<Rightarrow> FlowControl" where
  "NewFlowControl windowSize = \<lparr>fcSent = 0, fcAcked = 0, fcWindow = windowSize, fcNotify = False\<rparr>"

definition outstanding :: "FlowControl \<Rightarrow> u64" where
  "outstanding fc = (if fcSent fc > fcAcked fc then fcSent fc - fcAcked fc else 0)"

definition CanSend :: "u64 \<Rightarrow> FlowControl \<Rightarrow> bool" where
  "CanSend n fc \<longleftrightarrow> outstanding fc + n \<le> fcWindow fc"

definition AddSent :: "u64 \<Rightarrow> FlowControl \<Rightarrow> FlowControl" where
  "AddSent n fc = fc\<lparr>fcSent := fcSent fc + n\<rparr>"

definition UpdateAck :: "u64 \<Rightarrow> FlowControl \<Rightarrow> FlowControl" where
  "UpdateAck acked0 fc =
     (let acked = (if acked0 > fcSent fc then fcSent fc else acked0);
          fc1 = (if acked > fcAcked fc then fc\<lparr>fcAcked := acked\<rparr> else fc)
      in fc1\<lparr>fcNotify := True\<rparr>)"

definition SentBytes :: "FlowControl \<Rightarrow> u64" where
  "SentBytes fc = fcSent fc"

text \<open>
  One round of \<open>WaitForWindow\<close>: the window has room; or the \<open>select\<close> blocks, is cancelled by the
  context, or takes the token and goes round again. When the context is done and a token is
  there, Go picks either; \<open>ctxDone\<close> tells what it picked.
\<close>

datatype wait_result = WindowOpen | WindowBlocked | WindowRetry | WindowCancelled

definition WaitForWindow_round :: "bool \<Rightarrow> u64 \<Rightarrow> FlowControl \<Rightarrow> FlowControl \<times> wait_result" where
  "WaitForWindow_round ctxDone n fc =
     (if CanSend n fc then (fc, WindowOpen)
      else if ctxDone then (fc, WindowCancelled)
      else if fcNotify fc then (fc\<lparr>fcNotify := False\<rparr>, WindowRetry)
      else (fc, WindowBlocked))"

text \<open>The invariant of the counters, as naturals.\<close>

definition fc_inv :: "FlowControl \<Rightarrow> bool" where
  "fc_inv fc \<longleftrightarrow> fcAcked fc \<le> fcSent fc \<and> fcSent fc - fcAcked fc \<le> fcWindow fc"

lemma unat_le_sum: "a \<le> b \<Longrightarrow> unat (b - a) = unat b - unat a" for a b :: "'a::len word"
  by (simp add: unat_sub)

lemma unat_plus_small:
  "unat a + unat b < 2 ^ 64 \<Longrightarrow> unat (a + b) = unat a + unat b" for a b :: u64
  by (simp add: unat_word_ariths)

lemma fc_inv_unat:
  "fc_inv fc \<longleftrightarrow> unat (fcAcked fc) \<le> unat (fcSent fc) \<and>
     unat (fcSent fc) \<le> unat (fcAcked fc) + unat (fcWindow fc)"
  by (auto simp: fc_inv_def word_le_nat_alt unat_le_sum)

lemma outstanding_inv: "fc_inv fc \<Longrightarrow> outstanding fc = fcSent fc - fcAcked fc"
  by (auto simp: fc_inv_def outstanding_def)

lemma fc_inv_New: "fc_inv (NewFlowControl w)"
  by (simp add: fc_inv_def NewFlowControl_def)

lemma UpdateAck_fields [simp]:
  "fcSent (UpdateAck a fc) = fcSent fc" "fcWindow (UpdateAck a fc) = fcWindow fc"
  "fcNotify (UpdateAck a fc)"
  by (simp_all add: UpdateAck_def Let_def)

lemma fcAcked_UpdateAck: "fcAcked (UpdateAck a fc) = max (fcAcked fc) (min a (fcSent fc))"
  by (auto simp: UpdateAck_def Let_def max_def min_def)

lemma fc_inv_UpdateAck: "fc_inv fc \<Longrightarrow> fc_inv (UpdateAck a fc)"
  by (auto simp: fc_inv_unat fcAcked_UpdateAck max_def min_def word_le_nat_alt)

text \<open>
  A payload the window admits keeps the invariant, as long as neither the counter of sent bytes
  nor the check itself wraps.
\<close>

lemma CanSend_unat:
  assumes "fc_inv fc" and "unat (fcWindow fc) + unat n < 2 ^ 64"
  shows "CanSend n fc \<longleftrightarrow> unat (fcSent fc) - unat (fcAcked fc) + unat n \<le> unat (fcWindow fc)"
proof -
  have le: "fcAcked fc \<le> fcSent fc" using assms(1) by (simp add: fc_inv_def)
  have "unat (fcSent fc - fcAcked fc) + unat n < 2 ^ 64"
    using assms by (auto simp: fc_inv_def word_le_nat_alt)
  then have "unat (outstanding fc + n) = unat (fcSent fc) - unat (fcAcked fc) + unat n"
    using outstanding_inv [OF assms(1)] le by (simp add: unat_plus_small unat_le_sum)
  then show ?thesis by (simp add: CanSend_def word_le_nat_alt)
qed

lemma fc_inv_AddSent:
  assumes "fc_inv fc" and "CanSend n fc" and "unat (fcWindow fc) + unat n < 2 ^ 64"
    and "unat (fcSent fc) + unat n < 2 ^ 64"
  shows "fc_inv (AddSent n fc)"
  using assms CanSend_unat [OF assms(1,3)]
  by (auto simp: fc_inv_unat AddSent_def unat_plus_small)

section \<open>The interface of a credit window\<close>

text \<open>
  What a writer relies on: sending what is admitted keeps the window, and an acknowledgement
  neither takes credit away nor lets a blocked writer sleep on.
\<close>

locale credit_window =
  fixes can :: "nat \<Rightarrow> 'w \<Rightarrow> bool"
    and send :: "nat \<Rightarrow> 'w \<Rightarrow> 'w"
    and ack :: "nat \<Rightarrow> 'w \<Rightarrow> 'w"
    and ok :: "'w \<Rightarrow> bool"
    and used :: "'w \<Rightarrow> nat"
    and total :: "'w \<Rightarrow> nat"
    and window :: "'w \<Rightarrow> nat"
    and token :: "'w \<Rightarrow> bool"
    and limit :: nat
  assumes can_used: "ok w \<Longrightarrow> n \<le> limit \<Longrightarrow> can n w \<longleftrightarrow> used w + n \<le> window w"
    and send_used: "ok w \<Longrightarrow> n \<le> limit \<Longrightarrow> can n w \<Longrightarrow> total w + n < 2 ^ 64 \<Longrightarrow>
      ok (send n w) \<and> used (send n w) = used w + n \<and> total (send n w) = total w + n
        \<and> window (send n w) = window w"
    and ack_used: "ok w \<Longrightarrow> a < 2 ^ 64 \<Longrightarrow> ok (ack a w) \<and> used (ack a w) \<le> used w \<and> total (ack a w) = total w
        \<and> window (ack a w) = window w \<and> token (ack a w)"
begin

lemma used_bounded: "ok w \<Longrightarrow> n \<le> limit \<Longrightarrow> can n w \<Longrightarrow> total w + n < 2 ^ 64 \<Longrightarrow> used (send n w) \<le> window w"
  using can_used send_used by auto

lemma ack_keeps_credit: "ok w \<Longrightarrow> a < 2 ^ 64 \<Longrightarrow> n \<le> limit \<Longrightarrow> can n w \<Longrightarrow> can n (ack a w)"
  using can_used ack_used by (metis add_le_mono1 order_trans)

text \<open>A sequence of admitted payloads and acknowledgements.\<close>

fun play :: "(nat + nat) list \<Rightarrow> 'w \<Rightarrow> 'w option" where
  "play [] w = Some w"
| "play (Inl n # es) w = (if n \<le> limit \<and> can n w \<and> total w + n < 2 ^ 64 then play es (send n w) else None)"
| "play (Inr a # es) w = (if a < 2 ^ 64 then play es (ack a w) else None)"

lemma play_window: "play es w = Some v \<Longrightarrow> ok w \<Longrightarrow> used w \<le> window w \<Longrightarrow> ok v \<and> used v \<le> window w"
proof (induction es w rule: play.induct)
  case (2 n es w)
  then show ?case using send_used used_bounded by (auto split: if_splits)
next
  case (3 a es w)
  then show ?case using ack_used by (fastforce split: if_splits intro: order_trans)
qed simp

end

definition fc_used :: "FlowControl \<Rightarrow> nat" where
  "fc_used fc = unat (fcSent fc) - unat (fcAcked fc)"

definition fc_ok :: "FlowControl \<Rightarrow> bool" where
  "fc_ok fc \<longleftrightarrow> fc_inv fc \<and> fcWindow fc = FlowControlWindow"

lemma unat_window [simp]: "unat FlowControlWindow = 262144"
  by (simp add: FlowControlWindow_def)

lemma unat_of_nat64: "n < 2 ^ 64 \<Longrightarrow> unat (of_nat n :: u64) = n"
  by (simp add: unat_of_nat take_bit_nat_eq_self)

interpretation fc_window: credit_window "\<lambda>n. CanSend (of_nat n)" "\<lambda>n. AddSent (of_nat n)"
  "\<lambda>a. UpdateAck (of_nat a)" fc_ok fc_used "\<lambda>fc. unat (fcSent fc)" "\<lambda>fc. unat (fcWindow fc)"
  fcNotify MaxPayloadSize
proof (unfold_locales, goal_cases)
  case (1 w n)
  then show ?case
    using CanSend_unat [of w "of_nat n"]
    by (simp add: fc_ok_def fc_used_def unat_of_nat64 MaxPayloadSize_def)
next
  case (2 w n)
  then show ?case
    using fc_inv_AddSent [of w "of_nat n"]
    by (auto simp: fc_ok_def fc_used_def fc_inv_unat unat_of_nat64 MaxPayloadSize_def AddSent_def
        unat_plus_small)
next
  case (3 w a)
  then show ?case
    using fc_inv_UpdateAck [of w "of_nat a"]
    by (auto simp: fc_ok_def fc_used_def fcAcked_UpdateAck max_def word_le_nat_alt)
qed

section \<open>The receiver's acknowledgements\<close>

record sessionAckState =
  asTotal :: u64
  asLast :: u64
  asInterval :: u64

definition newSessionAckState :: sessionAckState where
  "newSessionAckState = \<lparr>asTotal = 0, asLast = 0, asInterval = FlowControlWindow div 4\<rparr>"

definition ackState_record :: "nat \<Rightarrow> sessionAckState \<Rightarrow> sessionAckState \<times> u64 option" where
  "ackState_record n s =
     (let s1 = s\<lparr>asTotal := asTotal s + of_nat n\<rparr> in
      if asTotal s1 - asLast s1 < asInterval s1 then (s1, None)
      else (s1\<lparr>asLast := asTotal s1\<rparr>, Some (asTotal s1)))"

definition ack_inv :: "nat \<Rightarrow> sessionAckState \<Rightarrow> bool" where
  "ack_inv consumed s \<longleftrightarrow> asInterval s = FlowControlWindow div 4 \<and> unat (asTotal s) = consumed
     \<and> unat (asLast s) \<le> consumed \<and> consumed < unat (asLast s) + 65536"

lemma unat_interval [simp]: "unat (FlowControlWindow div 4) = 65536"
  by (simp add: FlowControlWindow_def)

lemma ack_inv_New: "ack_inv 0 newSessionAckState"
  by (simp add: ack_inv_def newSessionAckState_def)

text \<open>
  A receiver never holds back the acknowledgement of a quarter of the window or more, and what
  it acknowledges is exactly the total consumed.
\<close>

lemma ack_inv_record:
  assumes "ack_inv c s" and "ackState_record n s = (s', r)" and "c + n < 2 ^ 64"
  shows "ack_inv (c + n) s'" and "r = Some a \<Longrightarrow> unat a = c + n \<and> asLast s' = a"
    and "r = None \<Longrightarrow> asLast s' = asLast s"
proof -
  have n: "unat (of_nat n :: u64) = n" using assms(3) by (simp add: unat_of_nat64)
  have t: "unat (asTotal s + of_nat n) = c + n"
    using assms(1,3) n by (subst unat_plus_small) (auto simp: ack_inv_def)
  have le: "asLast s \<le> asTotal s + of_nat n"
    using assms(1) t by (simp add: word_le_nat_alt ack_inv_def)
  have d: "unat (asTotal s + of_nat n - asLast s) = c + n - unat (asLast s)"
    using t by (simp add: unat_le_sum [OF le])
  show "ack_inv (c + n) s'" and "r = Some a \<Longrightarrow> unat a = c + n \<and> asLast s' = a"
    and "r = None \<Longrightarrow> asLast s' = asLast s"
    using assms(1,2) t d
    by (auto simp: ackState_record_def Let_def ack_inv_def word_less_nat_alt split: if_splits)
qed

end
