(* ===== verification/JsonText.thy ===== *)
theory JsonText
  imports GoStd
begin

text \<open>
  The text layer of \<open>encoding/json\<close>: documents as trees, the compact text \<open>json.Marshal\<close> writes, and
  the scanner that \<open>json.Unmarshal\<close> runs over the bytes before it fills a Go value.

  A Go string is any sequence of bytes. The encoder copies valid UTF-8, replaces every other byte
  by the escape of U+FFFD, and escapes quotes, control characters, the characters of HTML and the
  two line separators. The decoder does the reverse, replacing what is no UTF-8 and lone surrogates.
\<close>

section \<open>UTF-8\<close>

abbreviation byte_of :: "char \<Rightarrow> nat" where
  "byte_of c \<equiv> of_char c"

text \<open>\<open>utf8.DecodeRune\<close>: the length of the valid sequence at the front, 0 when there is none.\<close>

definition cont_byte :: "char \<Rightarrow> bool" where
  "cont_byte c \<longleftrightarrow> 0x80 \<le> byte_of c \<and> byte_of c \<le> 0xBF"

definition second_byte :: "nat \<Rightarrow> char \<Rightarrow> bool" where
  "second_byte x c \<longleftrightarrow>
     (if x = 0xE0 then 0xA0 else if x = 0xF0 then 0x90 else 0x80) \<le> byte_of c \<and>
     byte_of c \<le> (if x = 0xED then 0x9F else if x = 0xF4 then 0x8F else 0xBF)"

definition utf8_size :: "string \<Rightarrow> nat" where
  "utf8_size s = (case s of
     [] \<Rightarrow> 0
   | a # t \<Rightarrow>
       if byte_of a < 0x80 then 1
       else if 0xC2 \<le> byte_of a \<and> byte_of a \<le> 0xDF then
         (case t of b # _ \<Rightarrow> if cont_byte b then 2 else 0 | _ \<Rightarrow> 0)
       else if 0xE0 \<le> byte_of a \<and> byte_of a \<le> 0xEF then
         (case t of b # c # _ \<Rightarrow> if second_byte (byte_of a) b \<and> cont_byte c then 3 else 0 | _ \<Rightarrow> 0)
       else if 0xF0 \<le> byte_of a \<and> byte_of a \<le> 0xF4 then
         (case t of b # c # d # _ \<Rightarrow> if second_byte (byte_of a) b \<and> cont_byte c \<and> cont_byte d then 4 else 0 | _ \<Rightarrow> 0)
       else 0)"

lemma utf8_size_cases:
  assumes "utf8_size s = n" and "n > 0"
  obtains (one) a t where "s = a # t" "n = 1" "byte_of a < 0x80"
    | (two) a b t where "s = a # b # t" "n = 2" "0x80 \<le> byte_of a" "0x80 \<le> byte_of b"
    | (three) a b c t where "s = a # b # c # t" "n = 3" "0x80 \<le> byte_of a" "0x80 \<le> byte_of b" "0x80 \<le> byte_of c"
    | (four) a b c d t where "s = a # b # c # d # t" "n = 4" "0x80 \<le> byte_of a" "0x80 \<le> byte_of b"
        "0x80 \<le> byte_of c" "0x80 \<le> byte_of d"
  using assms that
  by (auto simp: utf8_size_def cont_byte_def second_byte_def split: list.splits if_splits)

lemma utf8_size_le: "utf8_size s \<le> length s"
  by (cases "utf8_size s = 0") (use utf8_size_cases [of s "utf8_size s"] in fastforce)+

lemma utf8_size_iff:
  "utf8_size (a # t) = Suc 0 \<longleftrightarrow> byte_of a < 0x80"
  "utf8_size (a # b # t) = 2 \<longleftrightarrow> 0xC2 \<le> byte_of a \<and> byte_of a \<le> 0xDF \<and> cont_byte b"
  "utf8_size (a # b # c # t) = 3 \<longleftrightarrow> 0xE0 \<le> byte_of a \<and> byte_of a \<le> 0xEF \<and> second_byte (byte_of a) b \<and> cont_byte c"
  "utf8_size (a # b # c # d # t) = 4 \<longleftrightarrow>
     0xF0 \<le> byte_of a \<and> byte_of a \<le> 0xF4 \<and> second_byte (byte_of a) b \<and> cont_byte c \<and> cont_byte d"
  by (auto simp: utf8_size_def split: list.split)

lemma utf8_size_take: "utf8_size s = n \<Longrightarrow> n > 0 \<Longrightarrow> utf8_size (take n s @ r) = n"
  by (cases rule: utf8_size_cases [of s n]) (auto simp: utf8_size_iff)

lemma utf8_size_ascii: "byte_of a < 0x80 \<Longrightarrow> utf8_size (a # t) = 1"
  by (simp add: utf8_size_def)

function valid_utf8 :: "string \<Rightarrow> bool" where
  "valid_utf8 [] = True"
| "valid_utf8 (c # s) =
     (let n = utf8_size (c # s) in if n = 0 then False else valid_utf8 (drop n (c # s)))"
  by pat_completeness auto
termination by (relation "measure length") auto

declare valid_utf8.simps(2) [simp del]

text \<open>What a string becomes when each byte that is no part of a valid sequence turns into U+FFFD.\<close>

definition replacement :: string where
  "replacement = [CHR 0xEF, CHR 0xBF, CHR 0xBD]"

function utf8_repair :: "string \<Rightarrow> string" where
  "utf8_repair [] = []"
| "utf8_repair (c # s) =
     (let n = utf8_size (c # s) in
      if n = 0 then replacement @ utf8_repair s
      else take n (c # s) @ utf8_repair (drop n (c # s)))"
  by pat_completeness auto
termination by (relation "measure length") auto

lemma utf8_repair_valid: "valid_utf8 s \<Longrightarrow> utf8_repair s = s"
  by (induction s rule: valid_utf8.induct) (auto simp: Let_def valid_utf8.simps split: if_splits)

lemma valid_utf8_Cons_ascii [simp]: "byte_of c < 0x80 \<Longrightarrow> valid_utf8 (c # s) \<longleftrightarrow> valid_utf8 s"
  by (simp add: utf8_size_ascii valid_utf8.simps)

lemma valid_utf8_ascii: "list_all (\<lambda>c. byte_of c < 0x80) s \<Longrightarrow> valid_utf8 s"
  by (induction s) auto

lemma valid_utf8_append: "valid_utf8 s \<Longrightarrow> valid_utf8 t \<Longrightarrow> valid_utf8 (s @ t)"
proof (induction s rule: valid_utf8.induct)
  case (2 c s)
  define n where "n = utf8_size (c # s)"
  have n: "n > 0" "valid_utf8 (drop n (c # s))" using "2.prems"(1) by (auto simp: n_def Let_def valid_utf8.simps split: if_splits)
  have le: "n \<le> length (c # s)" using utf8_size_le [of "c # s"] by (simp add: n_def)
  have size: "utf8_size (c # s @ t) = n"
    using utf8_size_take [of "c # s" n "drop n (c # s) @ t"] n(1)
    by (metis append.assoc append_Cons append_take_drop_id n_def)
  have "valid_utf8 (drop n (c # s) @ t)"
    using "2.IH" [OF n_def] n "2.prems"(2) by simp
  moreover have "drop n (c # s @ t) = drop n (c # s) @ t" using le by (cases n) auto
  ultimately show ?case using n(1) by (simp add: size Let_def valid_utf8.simps)
qed simp

text \<open>\<open>utf8.AppendRune\<close>.\<close>

definition encode_rune :: "nat \<Rightarrow> string" where
  "encode_rune r =
     (if r < 0x80 then [char_of r]
      else if r < 0x800 then [char_of (0xC0 + r div 0x40), char_of (0x80 + r mod 0x40)]
      else if r < 0x10000 then [char_of (0xE0 + r div 0x1000), char_of (0x80 + r div 0x40 mod 0x40),
        char_of (0x80 + r mod 0x40)]
      else [char_of (0xF0 + r div 0x40000), char_of (0x80 + r div 0x1000 mod 0x40),
        char_of (0x80 + r div 0x40 mod 0x40), char_of (0x80 + r mod 0x40)])"

section \<open>Quoted strings\<close>

definition backslash :: char where
  "backslash = CHR 0x5C"

definition dquote :: char where
  "dquote = CHR 0x22"

definition escape_ascii :: "char \<Rightarrow> string" where
  "escape_ascii c =
     (if c = dquote \<or> c = backslash then [backslash, c]
      else if byte_of c = 8 then backslash # ''b''
      else if byte_of c = 12 then backslash # ''f''
      else if byte_of c = 10 then backslash # ''n''
      else if byte_of c = 13 then backslash # ''r''
      else if byte_of c = 9 then backslash # ''t''
      else if byte_of c < 0x20 \<or> c = CHR ''<'' \<or> c = CHR ''>'' \<or> c = CHR ''&''
        then backslash # ''u00'' @ [hex_char (byte_of c div 16), hex_char (byte_of c mod 16)]
      else [c])"

definition line_separators :: "string list" where
  "line_separators = [[CHR 0xE2, CHR 0x80, CHR 0xA8], [CHR 0xE2, CHR 0x80, CHR 0xA9]]"

function quote_body :: "string \<Rightarrow> string" where
  "quote_body [] = []"
| "quote_body (c # s) =
     (if byte_of c < 0x80 then escape_ascii c @ quote_body s
      else let n = utf8_size (c # s) in
        if n = 0 then backslash # ''ufffd'' @ quote_body s
        else if take n (c # s) = line_separators ! 0 then backslash # ''u2028'' @ quote_body (drop n (c # s))
        else if take n (c # s) = line_separators ! 1 then backslash # ''u2029'' @ quote_body (drop n (c # s))
        else take n (c # s) @ quote_body (drop n (c # s)))"
  by pat_completeness auto
termination by (relation "measure length") auto

definition quote :: "string \<Rightarrow> string" where
  "quote s = dquote # quote_body s @ [dquote]"

definition hex_val :: "char \<Rightarrow> nat option" where
  "hex_val c =
     (if is_digit c then Some (digit_val c)
      else if 97 \<le> byte_of c \<and> byte_of c \<le> 102 then Some (byte_of c - 87)
      else if 65 \<le> byte_of c \<and> byte_of c \<le> 70 then Some (byte_of c - 55)
      else None)"

text \<open>Four hexadecimal digits and what follows them.\<close>

definition hex4 :: "string \<Rightarrow> (nat \<times> string) option" where
  "hex4 s = (case s of
     a # b # c # d # t \<Rightarrow> (case (hex_val a, hex_val b, hex_val c, hex_val d) of
         (Some w, Some x, Some y, Some z) \<Rightarrow> Some (((w * 16 + x) * 16 + y) * 16 + z, t)
       | _ \<Rightarrow> None)
   | _ \<Rightarrow> None)"

text \<open>The second half of a surrogate pair, if the escape of one follows.\<close>

definition low_surrogate :: "string \<Rightarrow> (nat \<times> string) option" where
  "low_surrogate s = (case s of
     a # b # t \<Rightarrow> if a = backslash \<and> b = CHR ''u'' then (case hex4 t of
         Some (r, t') \<Rightarrow> if 0xDC00 \<le> r \<and> r < 0xE000 then Some (r, t') else None
       | None \<Rightarrow> None) else None
   | _ \<Rightarrow> None)"

definition unescape_rune :: "nat \<Rightarrow> string \<Rightarrow> string \<times> string" where
  "unescape_rune r s =
     (if 0xD800 \<le> r \<and> r < 0xE000 then
        (case (if r < 0xDC00 then low_surrogate s else None) of
           Some (l, t) \<Rightarrow> (encode_rune (0x10000 + (r - 0xD800) * 0x400 + (l - 0xDC00)), t)
         | None \<Rightarrow> (replacement, s))
      else (encode_rune r, s))"

definition unescape :: "string \<Rightarrow> (string \<times> string) option" where
  "unescape s = (case s of
     [] \<Rightarrow> None
   | e # t \<Rightarrow>
       if e = dquote \<or> e = backslash \<or> e = CHR ''/'' then Some ([e], t)
       else if e = CHR ''b'' then Some ([CHR 0x08], t)
       else if e = CHR ''f'' then Some ([CHR 0x0C], t)
       else if e = CHR ''n'' then Some ([CHR 0x0A], t)
       else if e = CHR ''r'' then Some ([CHR 0x0D], t)
       else if e = CHR ''t'' then Some ([CHR 0x09], t)
       else if e = CHR ''u'' then (case hex4 t of
           None \<Rightarrow> None
         | Some (r, t') \<Rightarrow> Some (unescape_rune r t'))
       else None)"

lemma hex4_length: "hex4 s = Some (r, t) \<Longrightarrow> length s = length t + 4"
  by (auto simp: hex4_def split: list.splits option.splits)

lemma unescape_rune_length: "unescape_rune r s = (v, t) \<Longrightarrow> length t \<le> length s"
  by (auto simp: unescape_rune_def low_surrogate_def dest!: hex4_length split: if_splits option.splits list.splits)

lemma unescape_length: "unescape s = Some (v, t) \<Longrightarrow> length t < length s"
  by (auto simp: unescape_def dest!: hex4_length unescape_rune_length split: list.splits if_splits option.splits)

text \<open>A string from behind its opening quote, and what follows the closing one.\<close>

function unquote_body :: "string \<Rightarrow> (string \<times> string) option" where
  "unquote_body [] = None"
| "unquote_body (c # s) =
     (if c = dquote then Some ([], s)
      else if c = backslash then (case unescape s of
          None \<Rightarrow> None
        | Some (v, t) \<Rightarrow> map_option (apfst (append v)) (unquote_body t))
      else if byte_of c < 0x20 then None
      else let n = utf8_size (c # s) in
        if n = 0 then map_option (apfst (append replacement)) (unquote_body s)
        else map_option (apfst (append (take n (c # s)))) (unquote_body (drop n (c # s))))"
  by pat_completeness auto
termination by (relation "measure length") (auto dest: unescape_length)

lemma unquote_body_length: "unquote_body s = Some (v, t) \<Longrightarrow> length t < length s"
proof (induction s arbitrary: v t rule: unquote_body.induct)
  case (2 c s)
  show ?case
  proof (cases "c = dquote \<or> byte_of c < 0x20 \<or> c = backslash")
    case True
    then show ?thesis
      using "2.prems" "2.IH"(1) by (fastforce dest: unescape_length split: if_splits option.splits)
  next
    case False
    define n where "n = utf8_size (c # s)"
    show ?thesis
    proof (cases "n = 0")
      case True
      with False "2.prems" obtain v' where "unquote_body s = Some (v', t)" by (auto simp: n_def)
      from "2.IH"(2) [OF _ _ _ n_def True this] False show ?thesis by simp
    next
      case n: False
      with False "2.prems" obtain v' where r: "unquote_body (drop n (c # s)) = Some (v', t)"
        by (auto simp: n_def [symmetric] Let_def)
      from "2.IH"(3) [OF _ _ _ n_def n r] False have "length t < length (drop n (c # s))" by simp
      then show ?thesis by simp
    qed
  qed
qed simp

lemma quote_body_multi:
  assumes "\<not> byte_of c < 0x80" and "n = utf8_size (c # s)" and "n \<noteq> 0"
  shows "quote_body (c # s) = (if take n (c # s) = line_separators ! 0 then backslash # ''u2028''
        else if take n (c # s) = line_separators ! 1 then backslash # ''u2029'' else take n (c # s))
      @ quote_body (drop n (c # s))"
  using assms(1,3) by (simp add: assms(2) [symmetric])

text \<open>What is quoted comes back, with the bytes that are no UTF-8 repaired.\<close>

lemma hex_val_char: "n < 16 \<Longrightarrow> hex_val (hex_char n) = Some n"
  by (auto simp: hex_val_def hex_char_def is_digit_def digit_char_def digit_val_def)

lemma char_of_code [simp]: "char_of (byte_of c) = c"
  by simp

lemma code_eq_iff: "c = d \<longleftrightarrow> byte_of c = byte_of d"
  by (metis char_of_char)

lemma hex4_two: "n < 0x80 \<Longrightarrow> hex4 (CHR ''0'' # CHR ''0'' # hex_char (n div 16) # hex_char (n mod 16) # t) = Some (n, t)"
proof -
  assume n: "n < 0x80"
  have z: "hex_val CHR ''0'' = Some 0" by (simp add: hex_val_def is_digit_def digit_val_def)
  have "hex_val (hex_char (n div 16)) = Some (n div 16)" "hex_val (hex_char (n mod 16)) = Some (n mod 16)"
    using n by (simp_all add: hex_val_char)
  with z show ?thesis by (simp add: hex4_def)
qed

lemma unescape_u00:
  assumes "byte_of c < 0x80"
  shows "unescape (''u00'' @ [hex_char (byte_of c div 16), hex_char (byte_of c mod 16)] @ t) = Some ([c], t)"
  using hex4_two [OF assms, of t] assms
  by (simp add: unescape_def unescape_rune_def encode_rune_def dquote_def backslash_def)

lemma map_append_single: "map_option (apfst (append [c])) x = map_option (apfst (Cons c)) x"
  for x :: "(string \<times> string) option"
  by (cases x) auto

lemma unquote_plain:
  assumes "byte_of c < 0x80" "c \<noteq> dquote" "c \<noteq> backslash" "\<not> byte_of c < 0x20"
  shows "unquote_body (c # t) = map_option (apfst (Cons c)) (unquote_body t)"
  using assms utf8_size_ascii [OF assms(1), of t] by (simp add: map_append_single)

lemma unquote_escaped:
  assumes "escape_ascii c = backslash # s" and "unescape (s @ t) = Some ([c], t)"
  shows "unquote_body (escape_ascii c @ t) = map_option (apfst (Cons c)) (unquote_body t)"
  unfolding assms(1) using assms(2) by (simp add: backslash_def dquote_def map_append_single)

lemma unescape_named:
  "unescape (dquote # t) = Some ([dquote], t)" "unescape (backslash # t) = Some ([backslash], t)"
  "unescape (CHR ''b'' # t) = Some ([CHR 0x08], t)" "unescape (CHR ''f'' # t) = Some ([CHR 0x0C], t)"
  "unescape (CHR ''n'' # t) = Some ([CHR 0x0A], t)" "unescape (CHR ''r'' # t) = Some ([CHR 0x0D], t)"
  "unescape (CHR ''t'' # t) = Some ([CHR 0x09], t)"
  by (simp_all add: unescape_def dquote_def backslash_def)

lemma escape_named:
  "escape_ascii dquote = [backslash, dquote]" "escape_ascii backslash = [backslash, backslash]"
  "escape_ascii (CHR 0x08) = [backslash, CHR ''b'']" "escape_ascii (CHR 0x0C) = [backslash, CHR ''f'']"
  "escape_ascii (CHR 0x0A) = [backslash, CHR ''n'']" "escape_ascii (CHR 0x0D) = [backslash, CHR ''r'']"
  "escape_ascii (CHR 0x09) = [backslash, CHR ''t'']"
  by (simp_all add: escape_ascii_def dquote_def backslash_def)

lemma unquote_named:
  "unquote_body (escape_ascii dquote @ t) = map_option (apfst (Cons dquote)) (unquote_body t)"
  "unquote_body (escape_ascii backslash @ t) = map_option (apfst (Cons backslash)) (unquote_body t)"
  "unquote_body (escape_ascii (CHR 0x08) @ t) = map_option (apfst (Cons (CHR 0x08))) (unquote_body t)"
  "unquote_body (escape_ascii (CHR 0x0C) @ t) = map_option (apfst (Cons (CHR 0x0C))) (unquote_body t)"
  "unquote_body (escape_ascii (CHR 0x0A) @ t) = map_option (apfst (Cons (CHR 0x0A))) (unquote_body t)"
  "unquote_body (escape_ascii (CHR 0x0D) @ t) = map_option (apfst (Cons (CHR 0x0D))) (unquote_body t)"
  "unquote_body (escape_ascii (CHR 0x09) @ t) = map_option (apfst (Cons (CHR 0x09))) (unquote_body t)"
  by (rule unquote_escaped, rule escape_named, simp only: append.simps unescape_named)+

lemma unquote_escape:
  assumes "byte_of c < 0x80"
  shows "unquote_body (escape_ascii c @ t) = map_option (apfst (Cons c)) (unquote_body t)"
proof (cases "c = dquote \<or> c = backslash \<or> byte_of c \<in> {8, 12, 10, 13, 9}")
  case True
  moreover have "byte_of c = 8 \<Longrightarrow> c = CHR 0x08" "byte_of c = 12 \<Longrightarrow> c = CHR 0x0C" "byte_of c = 10 \<Longrightarrow> c = CHR 0x0A"
    "byte_of c = 13 \<Longrightarrow> c = CHR 0x0D" "byte_of c = 9 \<Longrightarrow> c = CHR 0x09"
    by (simp_all add: code_eq_iff)
  ultimately have "c \<in> {dquote, backslash, CHR 0x08, CHR 0x0C, CHR 0x0A, CHR 0x0D, CHR 0x09}"
    by blast
  then show ?thesis
    by (elim insertE emptyE) (simp_all only: unquote_named)
next
  case plain: False
  show ?thesis
  proof (cases "byte_of c < 0x20 \<or> c = CHR ''<'' \<or> c = CHR ''>'' \<or> c = CHR ''&''")
    case True
    with plain have "escape_ascii c = backslash # (''u00'' @ [hex_char (byte_of c div 16), hex_char (byte_of c mod 16)])"
      unfolding escape_ascii_def by simp
    then show ?thesis
      by (rule unquote_escaped) (use unescape_u00 [OF assms, of t] in simp)
  next
    case False
    with plain have "escape_ascii c = [c]" unfolding escape_ascii_def by simp
    with unquote_plain [OF assms] plain False show ?thesis by auto
  qed
qed

lemma not_special: "0x80 \<le> byte_of c \<Longrightarrow> c \<noteq> dquote \<and> c \<noteq> backslash \<and> \<not> byte_of c < 0x20"
  by (auto simp: dquote_def backslash_def)

lemma unquote_verbatim:
  assumes "utf8_size (c # s) = n" and "n > 0" and "\<not> byte_of c < 0x80"
  shows "unquote_body (take n (c # s) @ t) = map_option (apfst (append (take n (c # s)))) (unquote_body t)"
proof -
  obtain m where m: "n = Suc m" using assms(2) by (cases n) auto
  have len: "length (take n (c # s)) = n" using utf8_size_le [of "c # s"] assms(1) by simp
  have "utf8_size (take n (c # s) @ t) = n" by (rule utf8_size_take [OF assms(1,2)])
  then have "utf8_size (c # take m s @ t) = n" by (simp add: m)
  then show ?thesis
    using not_special [of c] assms(3) len by (simp add: m Let_def)
qed

lemma unquote_rune:
  assumes "hex4 h = Some (r, [])" and "\<not> (0xD800 \<le> r \<and> r < 0xE000)"
  shows "unquote_body (backslash # CHR ''u'' # h @ t) = map_option (apfst (append (encode_rune r))) (unquote_body t)"
proof -
  have "hex4 (h @ t) = Some (r, t)"
    using assms(1) by (auto simp: hex4_def split: list.splits option.splits)
  moreover have "unescape_rune r t = (encode_rune r, t)"
    using assms(2) by (auto simp: unescape_rune_def)
  ultimately show ?thesis by (simp add: unescape_def dquote_def backslash_def)
qed

lemma unquote_named_runes:
  "unquote_body (backslash # ''ufffd'' @ t) = map_option (apfst (append replacement)) (unquote_body t)"
  "unquote_body (backslash # ''u2028'' @ t) = map_option (apfst (append (line_separators ! 0))) (unquote_body t)"
  "unquote_body (backslash # ''u2029'' @ t) = map_option (apfst (append (line_separators ! 1))) (unquote_body t)"
proof -
  have v: "hex_val CHR ''f'' = Some 15" "hex_val CHR ''d'' = Some 13" "hex_val CHR ''2'' = Some 2"
    "hex_val CHR ''0'' = Some 0" "hex_val CHR ''8'' = Some 8" "hex_val CHR ''9'' = Some 9"
    by (simp_all add: hex_val_def is_digit_def digit_val_def)
  have "hex4 ''fffd'' = Some (0xFFFD, [])" "hex4 ''2028'' = Some (0x2028, [])" "hex4 ''2029'' = Some (0x2029, [])"
    by (simp_all add: hex4_def v)
  moreover have "encode_rune 0xFFFD = replacement" "encode_rune 0x2028 = line_separators ! 0"
    "encode_rune 0x2029 = line_separators ! 1"
    by (simp_all add: encode_rune_def replacement_def line_separators_def code_eq_iff)
  ultimately show "unquote_body (backslash # ''ufffd'' @ t) = map_option (apfst (append replacement)) (unquote_body t)"
    "unquote_body (backslash # ''u2028'' @ t) = map_option (apfst (append (line_separators ! 0))) (unquote_body t)"
    "unquote_body (backslash # ''u2029'' @ t) = map_option (apfst (append (line_separators ! 1))) (unquote_body t)"
    using unquote_rune [of "''fffd''" _ t] unquote_rune [of "''2028''" _ t] unquote_rune [of "''2029''" _ t]
    by simp_all
qed

lemma unquote_quote: "unquote_body (quote_body s @ dquote # t) = Some (utf8_repair s, t)"
proof (induction s rule: quote_body.induct)
  case (2 c s)
  show ?case
  proof (cases "byte_of c < 0x80")
    case True
    from unquote_escape [OF True] "2.IH"(1) [OF True] show ?thesis
      by (simp add: True utf8_size_ascii [OF True])
  next
    case multi: False
    define n where "n = utf8_size (c # s)"
    show ?thesis
    proof (cases "n = 0")
      case True
      with multi "2.IH"(2) [OF multi n_def True] show ?thesis
        using unquote_named_runes(1) [of "quote_body s @ dquote # t"]
        by (simp add: n_def [symmetric])
    next
      case n: False
      let ?rest = "quote_body (drop n (c # s)) @ dquote # t"
      have rep: "utf8_repair (c # s) = take n (c # s) @ utf8_repair (drop n (c # s))"
        using n by (simp add: n_def [symmetric])
      have "unquote_body ?rest = Some (utf8_repair (drop n (c # s)), t)"
        using "2.IH"(3,4,5) [OF multi n_def n] by blast
      then show ?thesis
        unfolding quote_body_multi [OF multi n_def n] rep
        using unquote_named_runes(2,3) [of ?rest] unquote_verbatim [OF n_def [symmetric] _ multi, of ?rest] n
        by (auto simp del: take_Cons' drop_Cons')
    qed
  qed
qed (simp add: dquote_def)

section \<open>Documents\<close>

text \<open>A number keeps its literal: the program only decodes numbers into integer fields.\<close>

datatype json = JNull | JBool bool | JNum string | JStr string | JArr "json list"
  | JObj "(string \<times> json) list"

fun json_text :: "json \<Rightarrow> string" where
  "json_text JNull = ''null''"
| "json_text (JBool b) = (if b then ''true'' else ''false'')"
| "json_text (JNum s) = s"
| "json_text (JStr s) = quote s"
| "json_text (JArr js) = ''['' @ join_with '','' (map json_text js) @ '']''"
| "json_text (JObj ms) = ''{'' @ join_with '','' (map (\<lambda>(k, j). quote k @ '':'' @ json_text j) ms) @ ''}''"

text \<open>The document a reader gets: the strings are repaired.\<close>

fun json_repair :: "json \<Rightarrow> json" where
  "json_repair (JStr s) = JStr (utf8_repair s)"
| "json_repair (JArr js) = JArr (map json_repair js)"
| "json_repair (JObj ms) = JObj (map (\<lambda>(k, j). (utf8_repair k, json_repair j)) ms)"
| "json_repair j = j"

section \<open>Scanning\<close>

datatype token = TPunct char | TStr string | TScalar json

definition is_json_space :: "char \<Rightarrow> bool" where
  "is_json_space c \<longleftrightarrow> c = CHR '' '' \<or> byte_of c = 9 \<or> byte_of c = 10 \<or> byte_of c = 13"

definition lex_digits :: "string \<Rightarrow> (string \<times> string) option" where
  "lex_digits s =
     (let ds = takeWhile is_digit s in if ds = [] then None else Some (ds, dropWhile is_digit s))"

definition lex_int :: "string \<Rightarrow> (string \<times> string) option" where
  "lex_int s = (if has_prefix s ''0'' then Some (''0'', drop 1 s) else lex_digits s)"

definition lex_frac :: "string \<Rightarrow> (string \<times> string) option" where
  "lex_frac s =
     (if has_prefix s ''.'' then map_option (apfst (append ''.'')) (lex_digits (drop 1 s)) else Some ([], s))"

definition lex_exp :: "string \<Rightarrow> (string \<times> string) option" where
  "lex_exp s =
     (if has_prefix s ''e'' \<or> has_prefix s ''E'' then
        (let sign = (if has_prefix (drop 1 s) ''+'' \<or> has_prefix (drop 1 s) ''-'' then 2 else 1) in
         map_option (apfst (append (take sign s))) (lex_digits (drop sign s)))
      else Some ([], s))"

definition lex_number :: "string \<Rightarrow> (string \<times> string) option" where
  "lex_number s =
     (let sign = (if has_prefix s ''-'' then 1 else 0) in
      case lex_int (drop sign s) of
        None \<Rightarrow> None
      | Some (ip, s1) \<Rightarrow> (case lex_frac s1 of
          None \<Rightarrow> None
        | Some (fp, s2) \<Rightarrow> (case lex_exp s2 of
            None \<Rightarrow> None
          | Some (ep, s3) \<Rightarrow> Some (take sign s @ ip @ fp @ ep, s3))))"

lemma lex_digits_length: "lex_digits s = Some (v, t) \<Longrightarrow> length t < length s"
proof -
  assume "lex_digits s = Some (v, t)"
  then have "takeWhile is_digit s \<noteq> []" "t = dropWhile is_digit s"
    by (auto simp: lex_digits_def Let_def split: if_splits)
  then show ?thesis
    by (metis length_append length_greater_0_conv less_add_same_cancel2 takeWhile_dropWhile_id)
qed

lemma lex_int_length: "lex_int s = Some (v, t) \<Longrightarrow> length t < length s"
  by (cases s) (auto simp: lex_int_def has_prefix_def dest: lex_digits_length split: if_splits)

lemma lex_frac_length: "lex_frac s = Some (v, t) \<Longrightarrow> length t \<le> length s"
  by (auto simp: lex_frac_def dest!: lex_digits_length split: if_splits)

lemma lex_exp_length: "lex_exp s = Some (v, t) \<Longrightarrow> length t \<le> length s"
  by (auto simp: lex_exp_def Let_def dest!: lex_digits_length split: if_splits)

lemma lex_number_length: "lex_number s = Some (v, t) \<Longrightarrow> length t < length s"
  by (auto simp: lex_number_def Let_def dest!: lex_int_length lex_frac_length lex_exp_length
      split: if_splits option.splits) linarith

function scan :: "string \<Rightarrow> token list option" where
  "scan [] = Some []"
| "scan (c # s) =
     (if is_json_space c then scan s
      else if c \<in> set ''{}[]:,'' then map_option (Cons (TPunct c)) (scan s)
      else if c = dquote then (case unquote_body s of
          None \<Rightarrow> None
        | Some (v, t) \<Rightarrow> map_option (Cons (TStr v)) (scan t))
      else if has_prefix (c # s) ''true'' then map_option (Cons (TScalar (JBool True))) (scan (drop 3 s))
      else if has_prefix (c # s) ''false'' then map_option (Cons (TScalar (JBool False))) (scan (drop 4 s))
      else if has_prefix (c # s) ''null'' then map_option (Cons (TScalar JNull)) (scan (drop 3 s))
      else (case lex_number (c # s) of
          None \<Rightarrow> None
        | Some (v, t) \<Rightarrow> map_option (Cons (TScalar (JNum v))) (scan t)))"
  by pat_completeness auto
termination by (relation "measure length") (auto dest!: unquote_body_length lex_number_length)

section \<open>Parsing\<close>

text \<open>
  The scanner's state machine: what may come next, and the stack of the arrays and objects that are
  open, with what they hold so far and the key of the member in progress. Nesting deeper than
  10,000 is an error.
\<close>

datatype parse_state = Value | ValueOrEnd | Key | KeyOrEnd | Colon | Complete json

datatype frame = InArr "json list" | InObj "(string \<times> json) list" string

definition maxNestingDepth :: nat where
  "maxNestingDepth = 10000"

type_synonym parser = "parse_state \<times> frame list"

definition open_frame :: "parse_state \<Rightarrow> frame \<Rightarrow> frame list \<Rightarrow> parser option" where
  "open_frame st f fs = (if length fs < maxNestingDepth then Some (st, f # fs) else None)"

definition begin_value :: "token \<Rightarrow> frame list \<Rightarrow> parser option" where
  "begin_value tok fs = (case tok of
     TStr s \<Rightarrow> Some (Complete (JStr s), fs)
   | TScalar j \<Rightarrow> Some (Complete j, fs)
   | TPunct c \<Rightarrow>
       if c = CHR ''['' then open_frame ValueOrEnd (InArr []) fs
       else if c = CHR ''{'' then open_frame KeyOrEnd (InObj [] []) fs
       else None)"

definition begin_key :: "token \<Rightarrow> frame list \<Rightarrow> parser option" where
  "begin_key tok fs = (case (tok, fs) of
     (TStr k, InObj ms _ # fs') \<Rightarrow> Some (Colon, InObj ms k # fs')
   | _ \<Rightarrow> None)"

definition end_value :: "json \<Rightarrow> token \<Rightarrow> frame list \<Rightarrow> parser option" where
  "end_value j tok fs = (case fs of
     InArr js # fs' \<Rightarrow>
       if tok = TPunct CHR '','' then Some (Value, InArr (js @ [j]) # fs')
       else if tok = TPunct CHR '']'' then Some (Complete (JArr (js @ [j])), fs')
       else None
   | InObj ms k # fs' \<Rightarrow>
       if tok = TPunct CHR '','' then Some (Key, InObj (ms @ [(k, j)]) [] # fs')
       else if tok = TPunct CHR ''}'' then Some (Complete (JObj (ms @ [(k, j)])), fs')
       else None
   | [] \<Rightarrow> None)"

fun parse_token :: "token \<Rightarrow> parser \<Rightarrow> parser option" where
  "parse_token tok (Value, fs) = begin_value tok fs"
| "parse_token tok (ValueOrEnd, fs) =
     (if tok = TPunct CHR '']'' then Some (Complete (JArr []), tl fs) else begin_value tok fs)"
| "parse_token tok (Key, fs) = begin_key tok fs"
| "parse_token tok (KeyOrEnd, fs) =
     (if tok = TPunct CHR ''}'' then Some (Complete (JObj []), tl fs) else begin_key tok fs)"
| "parse_token tok (Colon, fs) = (if tok = TPunct CHR '':'' then Some (Value, fs) else None)"
| "parse_token tok (Complete j, fs) = end_value j tok fs"

fun parse_tokens :: "token list \<Rightarrow> parser \<Rightarrow> parser option" where
  "parse_tokens [] p = Some p"
| "parse_tokens (tok # toks) p = (case parse_token tok p of None \<Rightarrow> None | Some p' \<Rightarrow> parse_tokens toks p')"

definition json_parse :: "string \<Rightarrow> json option" where
  "json_parse s = (case scan s of
     None \<Rightarrow> None
   | Some toks \<Rightarrow> (case parse_tokens toks (Value, []) of
       Some (Complete j, []) \<Rightarrow> Some j
     | _ \<Rightarrow> None))"

section \<open>Reading back\<close>

text \<open>The tokens of a document's text.\<close>

fun tokens :: "json \<Rightarrow> token list" where
  "tokens (JStr s) = [TStr (utf8_repair s)]"
| "tokens (JArr js) = [TPunct CHR ''[''] @ join_with [TPunct CHR '',''] (map tokens js) @ [TPunct CHR '']'']"
| "tokens (JObj ms) = [TPunct CHR ''{'']
     @ join_with [TPunct CHR '',''] (map (\<lambda>(k, j). [TStr (utf8_repair k), TPunct CHR '':''] @ tokens j) ms)
     @ [TPunct CHR ''}'']"
| "tokens j = [TScalar j]"

fun json_depth :: "json \<Rightarrow> nat" where
  "json_depth (JArr js) = Suc (Max (insert 0 (set (map json_depth js))))"
| "json_depth (JObj ms) = Suc (Max (insert 0 (set (map (\<lambda>(k, j). json_depth j) ms))))"
| "json_depth _ = 0"

lemma json_depth_le:
  "(\<And>j. j \<in> set js \<Longrightarrow> json_depth j \<le> d) \<Longrightarrow> json_depth (JArr js) \<le> Suc d"
  "list_all (\<lambda>(k, j). json_depth j \<le> d) ms \<Longrightarrow> json_depth (JObj ms) \<le> Suc d"
  by (auto simp: Max_le_iff list_all_iff)

declare json_depth.simps(1,2) [simp del]

lemma json_depth_strings [simp]: "json_depth (JArr (map JStr xs)) \<le> Suc 0"
  by (rule json_depth_le(1)) auto

text \<open>Literals without sign other than minus, fraction or exponent: what the program's integers print to.\<close>

definition plain_number :: "string \<Rightarrow> bool" where
  "plain_number s \<longleftrightarrow> (let ds = (if has_prefix s ''-'' then tl s else s) in
     ds \<noteq> [] \<and> list_all is_digit ds \<and> (has_prefix ds ''0'' \<longrightarrow> length ds = 1))"

fun json_plain :: "json \<Rightarrow> bool" where
  "json_plain (JNum s) \<longleftrightarrow> plain_number s"
| "json_plain (JArr js) \<longleftrightarrow> (\<forall>j \<in> set js. json_plain j)"
| "json_plain (JObj ms) \<longleftrightarrow> (\<forall>(k, j) \<in> set ms. json_plain j)"
| "json_plain _ \<longleftrightarrow> True"

text \<open>What the scanner found before the rest.\<close>

definition after :: "token list \<Rightarrow> token list option \<Rightarrow> token list option" where
  "after ts x = map_option (append ts) x"

lemma after_simps [simp]:
  "map_option (Cons t) x = after [t] x" "after ts (after us x) = after (ts @ us) x" "after [] x = x"
  "after ts (Some us) = Some (ts @ us)"
  by (cases x; simp add: after_def)+

definition boundary :: "string \<Rightarrow> bool" where
  "boundary r \<longleftrightarrow> r = [] \<or> hd r \<in> set '',]}''"

lemma lex_digits_plain:
  assumes "list_all is_digit ds" and "ds \<noteq> []" and "boundary r"
  shows "lex_digits (ds @ r) = Some (ds, r)"
proof -
  have "takeWhile is_digit r = []" "dropWhile is_digit r = r"
    using assms(3) by (cases r; auto simp: boundary_def is_digit_def)+
  then show ?thesis using assms(1,2) by (simp add: lex_digits_def list_all_iff)
qed

lemma lex_number_tail: "boundary r \<Longrightarrow> lex_frac r = Some ([], r)" "boundary r \<Longrightarrow> lex_exp r = Some ([], r)"
  by (cases r; auto simp: boundary_def lex_frac_def lex_exp_def has_prefix_def)+

lemma lex_int_plain:
  assumes "list_all is_digit ds" and "ds \<noteq> []" and "has_prefix ds ''0'' \<longrightarrow> length ds = 1" and "boundary r"
  shows "lex_int (ds @ r) = Some (ds, r)"
proof (cases "has_prefix ds ''0''")
  case True
  with assms(3) have "ds = ''0''" by (cases ds) (auto simp: has_prefix_def)
  then show ?thesis by (simp add: lex_int_def has_prefix_def)
next
  case False
  with assms(2) have "\<not> has_prefix (ds @ r) ''0''" by (cases ds) (auto simp: has_prefix_def)
  with lex_digits_plain [OF assms(1,2,4)] show ?thesis by (simp add: lex_int_def)
qed

lemma lex_number_plain:
  assumes "plain_number s" and "boundary r"
  shows "lex_number (s @ r) = Some (s, r)"
proof (cases "has_prefix s ''-''")
  case True
  then obtain ds where s: "s = CHR ''-'' # ds" by (cases s) (auto simp: has_prefix_def)
  with assms(1) have "lex_int (ds @ r) = Some (ds, r)"
    by (intro lex_int_plain assms(2)) (auto simp: plain_number_def has_prefix_def Let_def)
  then show ?thesis by (simp add: lex_number_def s has_prefix_def lex_number_tail [OF assms(2)])
next
  case False
  with assms have i: "lex_int (s @ r) = Some (s, r)" and "s \<noteq> []"
    by (auto intro!: lex_int_plain simp: plain_number_def Let_def)
  with False have "\<not> has_prefix (s @ r) ''-''" by (cases s) (auto simp: has_prefix_def)
  with i show ?thesis by (simp add: lex_number_def lex_number_tail [OF assms(2)])
qed

lemma plain_number_hd: "plain_number s \<Longrightarrow> \<exists>c t. s = c # t \<and> (is_digit c \<or> c = CHR ''-'')"
  by (cases s) (auto simp: plain_number_def has_prefix_def Let_def split: if_splits)

lemma lex_punct: "c \<in> set ''{}[]:,'' \<Longrightarrow> scan (c # s) = after [TPunct c] (scan s)"
  by (auto simp: is_json_space_def)

lemma lex_quote: "scan (quote s @ r) = after [TStr (utf8_repair s)] (scan r)"
proof -
  have "dquote \<notin> set ''{}[]:,''" "\<not> is_json_space dquote" by (simp_all add: dquote_def is_json_space_def)
  moreover have "quote s @ r = dquote # quote_body s @ dquote # r" by (simp add: quote_def)
  ultimately show ?thesis using unquote_quote [of s r] by simp
qed

lemma lex_scalar:
  "scan (''true'' @ r) = after [TScalar (JBool True)] (scan r)"
  "scan (''false'' @ r) = after [TScalar (JBool False)] (scan r)"
  "scan (''null'' @ r) = after [TScalar JNull] (scan r)"
  by (simp_all add: is_json_space_def dquote_def has_prefix_def)

lemma lex_plain_number:
  assumes "plain_number s" and "boundary r"
  shows "scan (s @ r) = after [TScalar (JNum s)] (scan r)"
proof -
  obtain c t where s: "s = c # t" and c: "is_digit c \<or> c = CHR ''-''" using plain_number_hd [OF assms(1)] by blast
  then have "\<not> is_json_space c" "c \<notin> set ''{}[]:,''" "c \<noteq> dquote" "\<not> has_prefix (c # t @ r) ''true''"
    "\<not> has_prefix (c # t @ r) ''false''" "\<not> has_prefix (c # t @ r) ''null''"
    by (auto simp: is_digit_def is_json_space_def dquote_def has_prefix_def)
  with lex_number_plain [OF assms] show ?thesis by (simp add: s)
qed

lemmas [simp del] = scan.simps

definition lexes :: "string \<Rightarrow> token list \<Rightarrow> bool" where
  "lexes x ts \<longleftrightarrow> (\<forall>r. boundary r \<longrightarrow> scan (x @ r) = after ts (scan r))"

lemma boundary_simps [simp]:
  "boundary []" "boundary (c # r) \<longleftrightarrow> c \<in> set '',]}''"
  by (auto simp: boundary_def)

lemma lexes_join:
  assumes "\<And>p. p \<in> set ps \<Longrightarrow> lexes (f p) (g p)" and "c \<in> set '']}''"
  shows "scan (join_with '','' (map f ps) @ c # r)
    = after (join_with [TPunct CHR '',''] (map g ps) @ [TPunct c]) (scan r)"
  using assms(1)
proof (induction ps rule: induct_list012)
  case 1
  show ?case using assms(2) by (auto simp: lex_punct)
next
  case (2 p)
  then have "scan (f p @ c # r) = after (g p) (scan (c # r))"
    using assms(2) by (auto simp: lexes_def)
  then show ?case using assms(2) by (auto simp: lex_punct)
next
  case (3 p q ps)
  then have "scan (f p @ CHR '','' # x) = after (g p) (scan (CHR '','' # x))" for x
    by (simp add: lexes_def)
  with 3 show ?case by (simp add: lex_punct)
qed

lemma lexes_json_text: "json_plain j \<Longrightarrow> lexes (json_text j) (tokens j)"
proof (induction j rule: json_text.induct)
  case (2 b)
  then show ?case using lex_scalar(1,2) by (auto simp: lexes_def)
next
  case (5 js)
  then have "\<And>j. j \<in> set js \<Longrightarrow> lexes (json_text j) (tokens j)" by simp
  from lexes_join [of js json_text tokens "CHR '']''", OF this] show ?case by (simp add: lexes_def lex_punct)
next
  case (6 ms)
  have one: "lexes (quote k @ '':'' @ json_text j) ([TStr (utf8_repair k), TPunct CHR '':''] @ tokens j)"
    if "(k, j) \<in> set ms" for k j
    using 6 that by (fastforce simp: lexes_def lex_quote lex_punct)
  have "lexes ((\<lambda>(k, j). quote k @ '':'' @ json_text j) m)
      ((\<lambda>(k, j). [TStr (utf8_repair k), TPunct CHR '':''] @ tokens j) m)" if "m \<in> set ms" for m
    using one that by (cases m) auto
  from lexes_join [of ms "\<lambda>(k, j). quote k @ '':'' @ json_text j"
      "\<lambda>(k, j). [TStr (utf8_repair k), TPunct CHR '':''] @ tokens j" "CHR ''}''", OF this] show ?case by (simp add: lexes_def lex_punct)
qed (use lex_scalar(3) lex_quote lex_plain_number in \<open>simp_all add: lexes_def\<close>)

text \<open>The parser on the tokens of a document.\<close>

lemma parse_append: "parse_tokens (ts @ us) p = (case parse_tokens ts p of None \<Rightarrow> None | Some q \<Rightarrow> parse_tokens us q)"
  by (induction ts p rule: parse_tokens.induct) (auto split: option.split)

definition parses :: "token list \<Rightarrow> nat \<Rightarrow> json \<Rightarrow> bool" where
  "parses ts d j \<longleftrightarrow> ts \<noteq> [] \<and> hd ts \<notin> {TPunct CHR '']'', TPunct CHR ''}''} \<and>
     (\<forall>fs. length fs + d \<le> maxNestingDepth \<longrightarrow> parse_tokens ts (Value, fs) = Some (Complete j, fs))"

lemma parse_array:
  assumes "\<And>p. p \<in> set ps \<Longrightarrow> parses (f p) d (g p)" and "ps \<noteq> []" and "Suc (length fs + d) \<le> maxNestingDepth"
  shows "parse_tokens (join_with [TPunct CHR '',''] (map f ps) @ [TPunct CHR '']'']) (Value, InArr vs # fs)
    = Some (Complete (JArr (vs @ map g ps)), fs)"
  using assms(2,1)
proof (induction ps arbitrary: vs rule: induct_list012)
  case (2 p)
  then show ?case using assms(3) by (auto simp: parse_append parses_def end_value_def)
next
  case (3 p q ps)
  then have "parse_tokens (f p) (Value, InArr vs # fs) = Some (Complete (g p), InArr vs # fs)"
    using assms(3) by (auto simp: parses_def)
  with 3 show ?case by (simp add: parse_append end_value_def)
qed simp

lemma parse_object:
  assumes "\<And>p. p \<in> set ps \<Longrightarrow> parses (f p) d (g p)" and "ps \<noteq> []" and "Suc (length fs + d) \<le> maxNestingDepth"
  shows "parse_tokens (join_with [TPunct CHR '',''] (map (\<lambda>p. [TStr (k p), TPunct CHR '':''] @ f p) ps) @ [TPunct CHR ''}''])
      (Key, InObj ms k0 # fs)
    = Some (Complete (JObj (ms @ map (\<lambda>p. (k p, g p)) ps)), fs)"
  using assms(2,1)
proof (induction ps arbitrary: ms k0 rule: induct_list012)
  case (2 p)
  then show ?case using assms(3) by (auto simp: parse_append parses_def end_value_def begin_key_def)
next
  case (3 p q ps)
  then have "parse_tokens (f p) (Value, InObj ms (k p) # fs) = Some (Complete (g p), InObj ms (k p) # fs)"
    using assms(3) by (auto simp: parses_def)
  with 3 show ?case by (simp add: parse_append end_value_def begin_key_def)
qed simp

lemma parses_tokens: "parses (tokens j) (json_depth j) (json_repair j)"
  (is "?P j")
proof (induction j rule: tokens.induct)
  case (2 js)
  define d where "d = Max (insert 0 (set (map json_depth js)))"
  have one: "parses (tokens j) d (json_repair j)" if "j \<in> set js" for j
  proof -
    have "json_depth j \<le> d" unfolding d_def by (rule Max_ge) (use that in auto)
    with 2 [OF that] show ?thesis by (auto simp: parses_def)
  qed
  show ?case
  proof (cases js)
    case Nil
    then show ?thesis by (auto simp: parses_def begin_value_def open_frame_def json_depth.simps)
  next
    case (Cons a as)
    have "parse_tokens (join_with [TPunct CHR '',''] (map tokens js) @ [TPunct CHR '']'']) (ValueOrEnd, InArr [] # fs)
        = Some (Complete (JArr (map json_repair js)), fs)" if d: "Suc (length fs + d) \<le> maxNestingDepth" for fs
    proof -
      obtain t ts where t: "tokens a = t # ts" "t \<noteq> TPunct CHR '']''"
        using one [of a] Cons by (cases "tokens a") (auto simp: parses_def)
      have "parse_tokens (t # x) (ValueOrEnd, fs') = parse_tokens (t # x) (Value, fs')" for x fs'
        using t(2) by simp
      moreover obtain x where "join_with [TPunct CHR '',''] (map tokens js) = t # x"
        using t Cons by (cases as) auto
      ultimately show ?thesis
        using parse_array [of js tokens d json_repair fs "[]", OF one _ d] Cons by simp
    qed
    then show ?thesis by (auto simp: parses_def begin_value_def open_frame_def d_def json_depth.simps)
  qed
next
  case (3 ms)
  define d where "d = Max (insert 0 (set (map (\<lambda>(k, j). json_depth j) ms)))"
  have one: "parses (tokens (snd m)) d (json_repair (snd m))" if "m \<in> set ms" for m
  proof -
    have "json_depth (snd m) \<in> set (map (\<lambda>(k, j). json_depth j) ms)"
      using that by (auto simp: case_prod_beta)
    then have "json_depth (snd m) \<le> d" unfolding d_def by (intro Max_ge) auto
    moreover have "?P (snd m)" using 3 that by (metis prod.collapse)
    ultimately show ?thesis by (auto simp: parses_def)
  qed
  let ?f = "\<lambda>(k, j). [TStr (utf8_repair k), TPunct CHR '':''] @ tokens j"
  have f: "map ?f ms = map (\<lambda>m. [TStr (utf8_repair (fst m)), TPunct CHR '':''] @ tokens (snd m)) ms"
    "map (\<lambda>m. (utf8_repair (fst m), json_repair (snd m))) ms = map (\<lambda>(k, j). (utf8_repair k, json_repair j)) ms"
    by (auto simp: case_prod_beta)
  show ?case
  proof (cases ms)
    case Nil
    then show ?thesis by (auto simp: parses_def begin_value_def open_frame_def json_depth.simps)
  next
    case (Cons a as)
    have "parse_tokens (join_with [TPunct CHR '',''] (map ?f ms) @ [TPunct CHR ''}'']) (KeyOrEnd, InObj [] [] # fs)
        = Some (Complete (JObj (map (\<lambda>(k, j). (utf8_repair k, json_repair j)) ms)), fs)"
      if d: "Suc (length fs + d) \<le> maxNestingDepth" for fs
    proof -
      have "parse_tokens (join_with [TPunct CHR '',''] (map ?f ms) @ [TPunct CHR ''}'']) (Key, InObj [] [] # fs)
          = Some (Complete (JObj (map (\<lambda>(k, j). (utf8_repair k, json_repair j)) ms)), fs)"
        unfolding f(1) f(2) [symmetric]
        using parse_object [of ms "\<lambda>m. tokens (snd m)" d "\<lambda>m. json_repair (snd m)" fs "\<lambda>m. utf8_repair (fst m)" "[]" "[]",
            OF one _ d] Cons by simp
      moreover obtain k x where "join_with [TPunct CHR '',''] (map ?f ms) = TStr k # x"
        using Cons by (cases as; cases a) auto
      ultimately show ?thesis by simp
    qed
    then show ?thesis by (auto simp: parses_def begin_value_def open_frame_def d_def json_depth.simps)
  qed
qed (auto simp: parses_def begin_value_def)

lemma json_parse_text:
  assumes "json_plain j" and "json_depth j \<le> maxNestingDepth"
  shows "json_parse (json_text j) = Some (json_repair j)"
proof -
  have "scan (json_text j) = Some (tokens j)"
    using lexes_json_text [OF assms(1)] by (auto simp: lexes_def scan.simps dest: spec [of _ "[]"])
  then show ?thesis using parses_tokens [of j] assms(2) by (auto simp: json_parse_def parses_def)
qed

lemma plain_number_show_nat [simp]: "plain_number (show_nat n)"
proof (cases "n = 0")
  case True
  then show ?thesis by (simp add: show_nat.simps plain_number_def has_prefix_def digit_char_def is_digit_def
        code_eq_iff)
next
  case False
  with show_nat_leading [of n] show_nat_hd [of n] show_nat_digits [of n] show ?thesis
    by (cases "show_nat n") (auto simp: plain_number_def has_prefix_def)
qed

lemma plain_number_show_int [simp]: "plain_number (show_int i)"
proof (cases "i < 0")
  case True
  with show_nat_leading [of "nat (- i)"] show_nat_digits [of "nat (- i)"] show ?thesis
    by (cases "show_nat (nat (- i))") (auto simp: plain_number_def has_prefix_def show_int_def)
qed (simp add: show_int_def)

text \<open>The strings of a document are valid UTF-8: then it is read back unchanged.\<close>

fun json_utf8 :: "json \<Rightarrow> bool" where
  "json_utf8 (JStr s) \<longleftrightarrow> valid_utf8 s"
| "json_utf8 (JArr js) \<longleftrightarrow> (\<forall>j \<in> set js. json_utf8 j)"
| "json_utf8 (JObj ms) \<longleftrightarrow> (\<forall>(k, j) \<in> set ms. valid_utf8 k \<and> json_utf8 j)"
| "json_utf8 _ \<longleftrightarrow> True"

lemma json_repair_utf8: "json_utf8 j \<Longrightarrow> json_repair j = j"
  by (induction j rule: json_utf8.induct) (auto simp: utf8_repair_valid intro!: map_idI)

lemma json_round_trip:
  assumes "json_plain j" and "json_utf8 j" and "json_depth j \<le> maxNestingDepth"
  shows "json_parse (json_text j) = Some j"
  using json_parse_text [OF assms(1,3)] json_repair_utf8 [OF assms(2)] by simp

text \<open>What the encoder writes is valid UTF-8, whatever the strings.\<close>

lemma valid_utf8_escape: "byte_of c < 0x80 \<Longrightarrow> valid_utf8 (escape_ascii c)"
  by (rule valid_utf8_ascii)
     (auto simp: escape_ascii_def backslash_def dquote_def hex_char_def digit_char_def)

lemma valid_utf8_take: "n > 0 \<Longrightarrow> utf8_size (c # s) = n \<Longrightarrow> valid_utf8 (take n (c # s))"
  using utf8_size_take [of "c # s" n "[]"] utf8_size_le [of "c # s"]
  by (cases n) (simp_all add: valid_utf8.simps)

lemma valid_utf8_named:
  "valid_utf8 (backslash # ''ufffd'')" "valid_utf8 (backslash # ''u2028'')" "valid_utf8 (backslash # ''u2029'')"
  by (rule valid_utf8_ascii, simp add: backslash_def)+

lemma valid_utf8_multi:
  assumes "n > 0" and "n = utf8_size (c # s)"
  shows "valid_utf8 (if take n (c # s) = line_separators ! 0 then backslash # ''u2028''
        else if take n (c # s) = line_separators ! 1 then backslash # ''u2029'' else take n (c # s))"
  using valid_utf8_take [OF assms(1) assms(2) [symmetric]]
  by (simp only: valid_utf8_named split: if_split) blast

lemma valid_utf8_quote_body: "valid_utf8 (quote_body s)"
proof (induction s rule: quote_body.induct)
  case (2 c s)
  show ?case
  proof (cases "byte_of c < 0x80")
    case True
    then have q: "quote_body (c # s) = escape_ascii c @ quote_body s" by simp
    show ?thesis unfolding q
      by (rule valid_utf8_append [OF valid_utf8_escape [OF True] "2.IH"(1) [OF True]])
  next
    case multi: False
    define n where "n = utf8_size (c # s)"
    show ?thesis
    proof (cases "n = 0")
      case True
      then have q: "quote_body (c # s) = (backslash # ''ufffd'') @ quote_body s"
        using multi by (simp add: n_def)
      show ?thesis unfolding q
        by (rule valid_utf8_append [OF valid_utf8_named(1) "2.IH"(2) [OF multi n_def True]])
    next
      case n: False
      have rest: "valid_utf8 (quote_body (drop n (c # s)))"
        using "2.IH"(3,4,5) [OF multi n_def n] by blast
      show ?thesis
        unfolding quote_body_multi [OF multi n_def n]
        by (rule valid_utf8_append [OF valid_utf8_multi [OF _ n_def] rest]) (use n in simp)
    qed
  qed
qed simp

lemma valid_utf8_quote: "valid_utf8 (quote s)"
  using valid_utf8_append [OF valid_utf8_quote_body [of s], of "[dquote]"]
  by (simp add: quote_def dquote_def)

lemma valid_utf8_join: "(\<And>x. x \<in> set xs \<Longrightarrow> valid_utf8 x) \<Longrightarrow> valid_utf8 (join_with '','' xs)"
  by (induction xs rule: induct_list012) (auto intro!: valid_utf8_append)

lemma valid_utf8_json_text: "json_plain j \<Longrightarrow> valid_utf8 (json_text j)"
proof (induction j rule: json_text.induct)
  case (3 s)
  then show ?case
    by (intro valid_utf8_ascii)
       (cases s; auto simp: plain_number_def has_prefix_def list_all_iff is_digit_def Let_def split: if_splits)
next
  case (5 js)
  then have "valid_utf8 (join_with '','' (map json_text js))" by (intro valid_utf8_join) auto
  then show ?case by (simp add: valid_utf8_append)
next
  case (6 ms)
  then have "valid_utf8 (join_with '','' (map (\<lambda>(k, j). quote k @ '':'' @ json_text j) ms))"
    by (intro valid_utf8_join) (fastforce intro!: valid_utf8_append simp: valid_utf8_quote)
  then show ?case by (simp add: valid_utf8_append)
qed (simp_all add: valid_utf8_quote)

section \<open>What the reader delivers\<close>

text \<open>
  Whatever bytes come in, the strings of the document read from them are valid UTF-8: raw bytes are
  checked, escapes name a character or become U+FFFD.
\<close>

lemma byte_of_char_of: "n < 256 \<Longrightarrow> byte_of (char_of n) = n"
  by (simp add: of_char_of take_bit_eq_mod)

lemma valid_utf8_replacement: "valid_utf8 replacement"
  by (simp add: replacement_def valid_utf8.simps utf8_size_def second_byte_def cont_byte_def)

lemma valid_utf8_single: "utf8_size s = length s \<Longrightarrow> valid_utf8 s"
  by (cases s) (simp_all add: valid_utf8.simps)

lemma valid_utf8_encode_rune:
  assumes "r < 0x110000" and "\<not> (0xD800 \<le> r \<and> r < 0xE000)"
  shows "valid_utf8 (encode_rune r)"
proof -
  consider "r < 0x80" | "0x80 \<le> r" "r < 0x800" | "0x800 \<le> r" "r < 0x10000" | "0x10000 \<le> r" by linarith
  then show ?thesis
  proof cases
    case 1
    then show ?thesis by (simp add: encode_rune_def byte_of_char_of)
  next
    case 2
    then have "2 \<le> r div 0x40" "r div 0x40 < 0x20" by (simp_all add: div_le_mono less_mult_imp_div_less)
    with 2 show ?thesis
      by (intro valid_utf8_single) (simp add: encode_rune_def utf8_size_def cont_byte_def byte_of_char_of)
  next
    case 3
    define h m where "h = r div 0x1000" and "m = r div 0x40 mod 0x40"
    have h: "h < 0x10" and r: "r div 0x40 = h * 0x40 + m" and m: "m < 0x40"
      using 3 by (simp_all add: h_def m_def less_mult_imp_div_less div_mult2_eq [of r "0x40" "0x40", simplified])
    have lo: "h = 0 \<Longrightarrow> 0x20 \<le> m" using 3 r by (simp add: m_def)
    have sur: "m < 0x20" if "h = 0xD"
    proof (rule ccontr)
      assume "\<not> m < 0x20"
      with that r m have "0x360 \<le> r div 0x40" "r div 0x40 < 0x380" by simp_all
      then have "0xD800 \<le> r" "r < 0xE000"
        by (simp_all add: less_eq_div_iff_mult_less_eq div_less_iff_less_mult)
      with assms(2) show False by simp
    qed
    show ?thesis
      using 3 h m lo sur
      by (intro valid_utf8_single)
         (auto simp: encode_rune_def utf8_size_def cont_byte_def second_byte_def byte_of_char_of h_def [symmetric] m_def [symmetric])
  next
    case 4
    define h m where "h = r div 0x40000" and "m = r div 0x1000 mod 0x40"
    have r: "r div 0x1000 = h * 0x40 + m" and m: "m < 0x40"
      by (simp_all add: h_def m_def div_mult2_eq [of r "0x1000" "0x40", simplified])
    have h: "h \<le> 4" using assms(1) by (simp add: h_def) 
    have lo: "h = 0 \<Longrightarrow> 0x10 \<le> m" using 4 r by (simp add: m_def)
    have hi: "h = 4 \<Longrightarrow> m < 0x10" using assms(1) r by simp
    show ?thesis
      using 4 h m lo hi
      by (intro valid_utf8_single)
         (auto simp: encode_rune_def utf8_size_def cont_byte_def second_byte_def byte_of_char_of h_def [symmetric] m_def [symmetric])
  qed
qed

lemma hex_val_lt: "hex_val c = Some n \<Longrightarrow> n < 16"
  by (auto simp: hex_val_def is_digit_def digit_val_def split: if_splits)

lemma hex4_lt: "hex4 s = Some (r, t) \<Longrightarrow> r < 0x10000"
  by (auto simp: hex4_def dest!: hex_val_lt split: list.splits option.splits)

lemma low_surrogate_range: "low_surrogate s = Some (l, t) \<Longrightarrow> 0xDC00 \<le> l \<and> l < 0xE000"
  by (auto simp: low_surrogate_def split: list.splits option.splits if_splits)

lemma valid_utf8_unescape_rune: "r < 0x10000 \<Longrightarrow> valid_utf8 (fst (unescape_rune r s))"
proof (cases "0xD800 \<le> r \<and> r < 0xE000")
  case True
  have "valid_utf8 (encode_rune (0x10000 + (r - 0xD800) * 0x400 + (l - 0xDC00)))"
    if "r < 0xDC00" "0xDC00 \<le> l" "l < 0xE000" for l
    using that by (intro valid_utf8_encode_rune) simp_all
  with True show ?thesis
    by (auto simp: unescape_rune_def valid_utf8_replacement dest: low_surrogate_range split: option.split)
next
  case False
  moreover assume "r < 0x10000"
  ultimately show ?thesis by (auto simp: unescape_rune_def intro: valid_utf8_encode_rune)
qed

lemma valid_utf8_unescape: "unescape s = Some (v, t) \<Longrightarrow> valid_utf8 v"
proof -
  assume u: "unescape s = Some (v, t)"
  then obtain e s' where s: "s = e # s'" by (auto simp: unescape_def split: list.splits)
  show ?thesis
  proof (cases "e = CHR ''u''")
    case True
    with u s obtain r t' where "hex4 s' = Some (r, t')" "unescape_rune r t' = (v, t)"
      by (auto simp: unescape_def dquote_def backslash_def split: option.splits)
    with valid_utf8_unescape_rune [OF hex4_lt, of s' r t' t'] show ?thesis by simp
  next
    case False
    with u s show ?thesis
      by (auto simp: unescape_def dquote_def backslash_def split: if_splits)
  qed
qed

lemma valid_utf8_unquote: "unquote_body s = Some (v, t) \<Longrightarrow> valid_utf8 v"
proof (induction s arbitrary: v t rule: unquote_body.induct)
  case (2 c s)
  consider "c = dquote" | "c = backslash" "c \<noteq> dquote" | "c \<noteq> dquote" "c \<noteq> backslash" "\<not> byte_of c < 0x20"
    using "2.prems" by (auto split: if_splits)
  then show ?case
  proof cases
    case 1
    with "2.prems" show ?thesis by simp
  next
    case 2
    with "2.prems" obtain x u v' where x: "unescape s = Some (x, u)" "unquote_body u = Some (v', t)" "v = x @ v'"
      by (auto split: option.splits)
    from valid_utf8_append [OF valid_utf8_unescape [OF x(1)] "2.IH"(1) [OF 2(2,1) x(1) refl x(2)]] x(3)
    show ?thesis by simp
  next
    case 3
    define n where "n = utf8_size (c # s)"
    show ?thesis
    proof (cases "n = 0")
      case True
      with 3 "2.prems" obtain v' where v': "unquote_body s = Some (v', t)" "v = replacement @ v'"
        by (auto simp: n_def)
      from valid_utf8_append [OF valid_utf8_replacement "2.IH"(2) [OF 3 n_def True v'(1)]] v'(2)
      show ?thesis by simp
    next
      case n: False
      with 3 "2.prems" obtain v' where v': "unquote_body (drop n (c # s)) = Some (v', t)" "v = take n (c # s) @ v'"
        by (auto simp: n_def [symmetric] Let_def)
      from valid_utf8_append [OF valid_utf8_take [OF _ n_def [symmetric]] "2.IH"(3) [OF 3 n_def n v'(1)]] n v'(2)
      show ?thesis by simp
    qed
  qed
qed simp

fun token_utf8 :: "token \<Rightarrow> bool" where
  "token_utf8 (TStr s) \<longleftrightarrow> valid_utf8 s"
| "token_utf8 (TScalar j) \<longleftrightarrow> json_utf8 j"
| "token_utf8 _ \<longleftrightarrow> True"

definition scan_ok :: "token list option \<Rightarrow> bool" where
  "scan_ok x \<longleftrightarrow> (\<forall>toks. x = Some toks \<longrightarrow> list_all token_utf8 toks)"

lemma scan_ok_if: "(b \<Longrightarrow> scan_ok x) \<Longrightarrow> (\<not> b \<Longrightarrow> scan_ok y) \<Longrightarrow> scan_ok (if b then x else y)"
  by simp

lemma scan_ok_Cons: "token_utf8 t \<Longrightarrow> scan_ok x \<Longrightarrow> scan_ok (map_option (Cons t) x)"
  by (cases x) (auto simp: scan_ok_def)

lemma scan_ok_case: "(\<And>v t. r = Some (v, t) \<Longrightarrow> scan_ok (f v t)) \<Longrightarrow>
   scan_ok (case r of None \<Rightarrow> None | Some (v, t) \<Rightarrow> f v t)"
  by (cases r) (auto simp: scan_ok_def)

lemma token_utf8_intros:
  "token_utf8 (TPunct c)" "token_utf8 (TScalar (JBool b))" "token_utf8 (TScalar JNull)" "token_utf8 (TScalar (JNum n))"
  "unquote_body s = Some (v, t) \<Longrightarrow> token_utf8 (TStr v)"
  by (simp_all add: valid_utf8_unquote)

lemma scan_utf8: "scan_ok (scan s)"
proof (induction s rule: scan.induct)
  case (2 c s)
  show ?case
    apply (subst scan.simps)
    apply (intro scan_ok_if scan_ok_case scan_ok_Cons)
    apply (rule "2.IH" token_utf8_intros; (assumption | rule refl))+
    done
qed (simp add: scan_ok_def scan.simps)

fun frame_utf8 :: "frame \<Rightarrow> bool" where
  "frame_utf8 (InArr js) \<longleftrightarrow> (\<forall>j \<in> set js. json_utf8 j)"
| "frame_utf8 (InObj ms k) \<longleftrightarrow> (\<forall>(k, j) \<in> set ms. valid_utf8 k \<and> json_utf8 j) \<and> valid_utf8 k"

fun parser_utf8 :: "parser \<Rightarrow> bool" where
  "parser_utf8 (Complete j, fs) \<longleftrightarrow> json_utf8 j \<and> list_all frame_utf8 fs"
| "parser_utf8 (st, fs) \<longleftrightarrow> list_all frame_utf8 fs"

lemma parser_utf8_frames: "parser_utf8 (st, fs) \<Longrightarrow> list_all frame_utf8 fs"
  by (cases st) auto

lemma begin_value_utf8:
  "begin_value tok fs = Some p \<Longrightarrow> token_utf8 tok \<Longrightarrow> list_all frame_utf8 fs \<Longrightarrow> parser_utf8 p"
  by (cases tok) (auto simp: begin_value_def open_frame_def split: if_splits)

lemma begin_key_utf8:
  "begin_key tok fs = Some p \<Longrightarrow> token_utf8 tok \<Longrightarrow> list_all frame_utf8 fs \<Longrightarrow> parser_utf8 p"
  by (auto simp: begin_key_def split: token.splits list.splits frame.splits)

lemma end_value_utf8:
  "end_value j tok fs = Some p \<Longrightarrow> json_utf8 j \<Longrightarrow> list_all frame_utf8 fs \<Longrightarrow> parser_utf8 p"
  by (auto simp: end_value_def split: list.splits frame.splits if_splits)

lemma parse_token_utf8:
  assumes "parse_token tok p = Some q" and "token_utf8 tok" and "parser_utf8 p"
  shows "parser_utf8 q"
proof -
  obtain st fs where p: "p = (st, fs)" by (cases p)
  have fs: "list_all frame_utf8 fs" "list_all frame_utf8 (tl fs)"
    using assms(3) parser_utf8_frames [of st fs] by (cases fs; simp add: p)+
  show ?thesis
    using assms fs
    by (cases st) (auto simp: p split: if_splits dest: begin_value_utf8 begin_key_utf8 end_value_utf8)
qed

lemma parse_tokens_utf8:
  "parse_tokens toks p = Some q \<Longrightarrow> list_all token_utf8 toks \<Longrightarrow> parser_utf8 p \<Longrightarrow> parser_utf8 q"
  by (induction toks p rule: parse_tokens.induct) (auto split: option.splits dest: parse_token_utf8)

lemma json_parse_utf8: "json_parse s = Some j \<Longrightarrow> json_utf8 j"
  by (auto simp: json_parse_def split: option.splits prod.splits parse_state.splits list.splits
      
      dest!: parse_tokens_utf8 [OF _ scan_utf8 [unfolded scan_ok_def, rule_format]])

section \<open>Field names\<close>

text \<open>
  How \<open>encoding/json\<close> folds a key that is no field's name as it stands: ASCII letters to one case,
  and the two other characters whose folding is an ASCII letter, U+017F and the Kelvin sign. The
  program's field names are in lower case.
\<close>

fun fold_name :: "string \<Rightarrow> string" where
  "fold_name (a # b # s) =
     (if byte_of a = 0xC5 \<and> byte_of b = 0xBF then CHR ''s'' # fold_name s
      else if byte_of a = 0xE2 \<and> byte_of b = 0x84 \<and> has_prefix s [CHR 0xAA] then CHR ''k'' # fold_name (drop 1 s)
      else to_lower a # fold_name (b # s))"
| "fold_name [a] = [to_lower a]"
| "fold_name [] = []"

end
