(* ===== verification/ControlJson.thy ===== *)
theory ControlJson
  imports Protocol JsonText
begin

text \<open>
  The wire form of a control message: \<open>json.Marshal\<close> and \<open>json.Unmarshal\<close> on the
  \<open>ControlMessage\<close> struct of \<open>internal/tunnel/protocol.go\<close>, driven by its field tags (names,
  order, \<open>omitempty\<close>).

  The document is the one of theory \<open>JsonText\<close>, whose text goes over the wire. As in
  \<open>encoding/json\<close>: an object key selects a field by its exact name or, failing that, up to
  case; unknown keys are skipped; the last of several members for a field wins; \<open>null\<close> leaves
  a field alone (and sets a pointer to nil); a value of the wrong kind or out of range makes the
  whole call fail.
\<close>

section \<open>Encoding\<close>

definition omit_str :: "string \<Rightarrow> string \<Rightarrow> (string \<times> json) list" where
  "omit_str k v = (if v = [] then [] else [(k, JStr v)])"

definition omit_int :: "string \<Rightarrow> int \<Rightarrow> (string \<times> json) list" where
  "omit_int k v = (if v = 0 then [] else [(k, JNum (show_int v))])"

definition omit_word :: "string \<Rightarrow> 'a::len word \<Rightarrow> (string \<times> json) list" where
  "omit_word k v = (if v = 0 then [] else [(k, JNum (show_nat (unat v)))])"

definition omit_bool :: "string \<Rightarrow> bool \<Rightarrow> (string \<times> json) list" where
  "omit_bool k v = (if v then [(k, JBool True)] else [])"

definition omit_ptr :: "string \<Rightarrow> int option \<Rightarrow> (string \<times> json) list" where
  "omit_ptr k v = (case v of None \<Rightarrow> [] | Some i \<Rightarrow> [(k, JNum (show_int i))])"

definition Marshal :: "ControlMessage \<Rightarrow> json" where
  "Marshal m = JObj (
     [(''type'', JStr (cmType m)), (''session_id'', JStr (cmSessionID m))]
     @ omit_str ''mode'' (cmMode m)
     @ omit_str ''target'' (cmTarget m)
     @ omit_str ''command'' (cmCommand m)
     @ omit_word ''cols'' (cmCols m)
     @ omit_word ''rows'' (cmRows m)
     @ omit_bool ''success'' (cmSuccess m)
     @ omit_str ''error'' (cmError m)
     @ omit_ptr ''exit_code'' (cmExitCode m)
     @ omit_word ''ack_bytes'' (cmAckBytes m)
     @ omit_int ''timestamp'' (cmTimestamp m)
     @ omit_int ''timeout'' (cmTimeout m)
     @ omit_str ''version'' (cmVersion m)
     @ omit_str ''arch'' (cmArch m))"

section \<open>Decoding\<close>

definition field_names :: "string list" where
  "field_names = [''type'', ''session_id'', ''mode'', ''target'', ''command'', ''cols'', ''rows'',
     ''success'', ''error'', ''exit_code'', ''ack_bytes'', ''timestamp'', ''timeout'', ''version'', ''arch'']"

definition field_for :: "string \<Rightarrow> string option" where
  "field_for key =
     (if key \<in> set field_names then Some key
      else find (\<lambda>f. f = fold_name key) field_names)"

definition dec_str :: "json \<Rightarrow> string \<Rightarrow> string option" where
  "dec_str j old = (case j of JStr s \<Rightarrow> Some s | JNull \<Rightarrow> Some old | _ \<Rightarrow> None)"

definition dec_bool :: "json \<Rightarrow> bool \<Rightarrow> bool option" where
  "dec_bool j old = (case j of JBool b \<Rightarrow> Some b | JNull \<Rightarrow> Some old | _ \<Rightarrow> None)"

definition dec_int :: "json \<Rightarrow> int \<Rightarrow> int option" where
  "dec_int j old = (case j of JNum s \<Rightarrow> ParseInt s | JNull \<Rightarrow> Some old | _ \<Rightarrow> None)"

definition dec_word :: "json \<Rightarrow> 'a::len word \<Rightarrow> 'a word option" where
  "dec_word j old = (case j of
     JNum s \<Rightarrow> (case ParseUint s of
        None \<Rightarrow> None
      | Some n \<Rightarrow> if n < 2 ^ LENGTH('a) then Some (of_nat n) else None)
   | JNull \<Rightarrow> Some old
   | _ \<Rightarrow> None)"

definition dec_ptr :: "json \<Rightarrow> int option option" where
  "dec_ptr j = (case j of JNum s \<Rightarrow> map_option Some (ParseInt s) | JNull \<Rightarrow> Some None | _ \<Rightarrow> None)"

definition set_field :: "string \<Rightarrow> json \<Rightarrow> ControlMessage \<Rightarrow> ControlMessage option" where
  "set_field f j m =
     (if f = ''type'' then map_option (\<lambda>v. m\<lparr>cmType := v\<rparr>) (dec_str j (cmType m))
      else if f = ''session_id'' then map_option (\<lambda>v. m\<lparr>cmSessionID := v\<rparr>) (dec_str j (cmSessionID m))
      else if f = ''mode'' then map_option (\<lambda>v. m\<lparr>cmMode := v\<rparr>) (dec_str j (cmMode m))
      else if f = ''target'' then map_option (\<lambda>v. m\<lparr>cmTarget := v\<rparr>) (dec_str j (cmTarget m))
      else if f = ''command'' then map_option (\<lambda>v. m\<lparr>cmCommand := v\<rparr>) (dec_str j (cmCommand m))
      else if f = ''cols'' then map_option (\<lambda>v. m\<lparr>cmCols := v\<rparr>) (dec_word j (cmCols m))
      else if f = ''rows'' then map_option (\<lambda>v. m\<lparr>cmRows := v\<rparr>) (dec_word j (cmRows m))
      else if f = ''success'' then map_option (\<lambda>v. m\<lparr>cmSuccess := v\<rparr>) (dec_bool j (cmSuccess m))
      else if f = ''error'' then map_option (\<lambda>v. m\<lparr>cmError := v\<rparr>) (dec_str j (cmError m))
      else if f = ''exit_code'' then map_option (\<lambda>v. m\<lparr>cmExitCode := v\<rparr>) (dec_ptr j)
      else if f = ''ack_bytes'' then map_option (\<lambda>v. m\<lparr>cmAckBytes := v\<rparr>) (dec_word j (cmAckBytes m))
      else if f = ''timestamp'' then map_option (\<lambda>v. m\<lparr>cmTimestamp := v\<rparr>) (dec_int j (cmTimestamp m))
      else if f = ''timeout'' then map_option (\<lambda>v. m\<lparr>cmTimeout := v\<rparr>) (dec_int j (cmTimeout m))
      else if f = ''version'' then map_option (\<lambda>v. m\<lparr>cmVersion := v\<rparr>) (dec_str j (cmVersion m))
      else if f = ''arch'' then map_option (\<lambda>v. m\<lparr>cmArch := v\<rparr>) (dec_str j (cmArch m))
      else Some m)"

fun dec_members :: "(string \<times> json) list \<Rightarrow> ControlMessage \<Rightarrow> ControlMessage option" where
  "dec_members [] m = Some m"
| "dec_members ((k, j) # ms) m =
     (case field_for k of
        None \<Rightarrow> dec_members ms m
      | Some f \<Rightarrow> (case set_field f j m of None \<Rightarrow> None | Some m' \<Rightarrow> dec_members ms m'))"

definition Unmarshal :: "json \<Rightarrow> ControlMessage option" where
  "Unmarshal j = (case j of JObj ms \<Rightarrow> dec_members ms zeroMessage | JNull \<Rightarrow> Some zeroMessage | _ \<Rightarrow> None)"

section \<open>Round trip\<close>

text \<open>The values a Go \<open>int\<close> and \<open>int64\<close> field can hold.\<close>

definition msg_ok :: "ControlMessage \<Rightarrow> bool" where
  "msg_ok m \<longleftrightarrow> int64_ok (cmTimestamp m) \<and> int64_ok (cmTimeout m)
     \<and> (\<forall>i. cmExitCode m = Some i \<longrightarrow> int64_ok i)"

lemma dec_members_append:
  "dec_members (xs @ ys) m = (case dec_members xs m of None \<Rightarrow> None | Some m' \<Rightarrow> dec_members ys m')"
proof (induction xs arbitrary: m)
  case (Cons x xs)
  then show ?case by (cases x) (auto split: option.splits)
qed simp

lemma field_for_known: "f \<in> set field_names \<Longrightarrow> field_for f = Some f"
  by (simp add: field_for_def)

lemma dec_omit_str:
  assumes "f \<in> set field_names" and "set_field f (JStr v) m = Some m'" and "v = [] \<Longrightarrow> m' = m"
  shows "dec_members (omit_str f v) m = Some m'"
  using assms by (simp add: omit_str_def field_for_known)

lemma dec_omit_word:
  assumes "f \<in> set field_names" and "set_field f (JNum (show_nat (unat v))) m = Some m'"
    and "v = 0 \<Longrightarrow> m' = m"
  shows "dec_members (omit_word f v) m = Some m'"
  using assms by (simp add: omit_word_def field_for_known)

lemma dec_omit_int:
  assumes "f \<in> set field_names" and "set_field f (JNum (show_int v)) m = Some m'"
    and "v = 0 \<Longrightarrow> m' = m"
  shows "dec_members (omit_int f v) m = Some m'"
  using assms by (simp add: omit_int_def field_for_known)

lemma dec_omit_bool:
  assumes "f \<in> set field_names" and "set_field f (JBool True) m = Some (upd True m)"
    and "upd False m = m"
  shows "dec_members (omit_bool f v) m = Some (upd v m)"
  using assms by (cases v) (simp_all add: omit_bool_def field_for_known)

lemma dec_omit_ptr:
  assumes "f \<in> set field_names"
    and "\<And>i. v = Some i \<Longrightarrow> set_field f (JNum (show_int i)) m = Some (upd v m)"
    and "v = None \<Longrightarrow> upd v m = m"
  shows "dec_members (omit_ptr f v) m = Some (upd v m)"
  using assms by (cases v) (simp_all add: omit_ptr_def field_for_known)

lemma dec_word_show:
  "LENGTH('a) \<le> 64 \<Longrightarrow> dec_word (JNum (show_nat (unat v))) old = Some v" for v :: "'a::len word"
proof -
  assume l: "LENGTH('a) \<le> 64"
  have "unat v < 2 ^ LENGTH('a)" by (rule unsigned_less)
  moreover from l have "(2::nat) ^ LENGTH('a) \<le> 2 ^ 64" by (rule power_increasing) simp
  ultimately have "unat v < 2 ^ LENGTH('a)" and "unat v < 2 ^ 64"
    by (blast, rule less_le_trans)
  then show ?thesis by (simp add: dec_word_def del: power_increasing_iff)
qed

lemma dec_int_show: "int64_ok v \<Longrightarrow> dec_int (JNum (show_int v)) old = Some v"
  by (simp add: dec_int_def)

lemma dec_str_JStr [simp]: "dec_str (JStr s) old = Some s"
  by (simp add: dec_str_def)

text \<open>One lemma per field: decoding the member of a field sets it, on any message that still
  has the zero value there.\<close>

lemma dec_field_str:
  "cmMode m = [] \<Longrightarrow> dec_members (omit_str ''mode'' v) m = Some (m\<lparr>cmMode := v\<rparr>)"
  "cmTarget m = [] \<Longrightarrow> dec_members (omit_str ''target'' v) m = Some (m\<lparr>cmTarget := v\<rparr>)"
  "cmCommand m = [] \<Longrightarrow> dec_members (omit_str ''command'' v) m = Some (m\<lparr>cmCommand := v\<rparr>)"
  "cmError m = [] \<Longrightarrow> dec_members (omit_str ''error'' v) m = Some (m\<lparr>cmError := v\<rparr>)"
  "cmVersion m = [] \<Longrightarrow> dec_members (omit_str ''version'' v) m = Some (m\<lparr>cmVersion := v\<rparr>)"
  "cmArch m = [] \<Longrightarrow> dec_members (omit_str ''arch'' v) m = Some (m\<lparr>cmArch := v\<rparr>)"
  by (rule dec_omit_str; simp add: field_names_def set_field_def)+

lemma dec_field_word:
  "cmCols m = 0 \<Longrightarrow> dec_members (omit_word ''cols'' v) m = Some (m\<lparr>cmCols := v\<rparr>)"
  "cmRows m = 0 \<Longrightarrow> dec_members (omit_word ''rows'' v) m = Some (m\<lparr>cmRows := v\<rparr>)"
  "cmAckBytes m = 0 \<Longrightarrow> dec_members (omit_word ''ack_bytes'' w) m = Some (m\<lparr>cmAckBytes := w\<rparr>)"
  by (rule dec_omit_word; simp add: field_names_def set_field_def dec_word_show)+

lemma dec_field_int:
  "int64_ok v \<Longrightarrow> cmTimestamp m = 0 \<Longrightarrow>
     dec_members (omit_int ''timestamp'' v) m = Some (m\<lparr>cmTimestamp := v\<rparr>)"
  "int64_ok v \<Longrightarrow> cmTimeout m = 0 \<Longrightarrow>
     dec_members (omit_int ''timeout'' v) m = Some (m\<lparr>cmTimeout := v\<rparr>)"
  by (rule dec_omit_int; simp add: field_names_def set_field_def dec_int_show)+

lemma dec_field_success:
  "\<not> cmSuccess m \<Longrightarrow> dec_members (omit_bool ''success'' v) m = Some (m\<lparr>cmSuccess := v\<rparr>)"
  by (rule dec_omit_bool [where upd = "\<lambda>v m. m\<lparr>cmSuccess := v\<rparr>"])
     (simp_all add: field_names_def set_field_def dec_bool_def)

lemma dec_field_exit:
  "cmExitCode m = None \<Longrightarrow> (\<And>i. v = Some i \<Longrightarrow> int64_ok i) \<Longrightarrow>
     dec_members (omit_ptr ''exit_code'' v) m = Some (m\<lparr>cmExitCode := v\<rparr>)"
  by (rule dec_omit_ptr [where upd = "\<lambda>v m. m\<lparr>cmExitCode := v\<rparr>"])
     (simp_all add: field_names_def set_field_def dec_ptr_def)

lemma dec_field_head:
  "dec_members [(''type'', JStr t), (''session_id'', JStr s)] m = Some (m\<lparr>cmType := t, cmSessionID := s\<rparr>)"
  by (simp add: field_for_def field_names_def set_field_def)

lemmas dec_fields = dec_field_str dec_field_word dec_field_int dec_field_success dec_field_exit

lemma Unmarshal_Marshal:
  assumes "msg_ok m"
  shows "Unmarshal (Marshal m) = Some m"
  using assms
  by (simp add: Unmarshal_def Marshal_def dec_members_append dec_field_head dec_fields msg_ok_def
      zeroMessage_def del: dec_members.simps append.simps)

subsection \<open>The text\<close>

definition msg_text :: "ControlMessage \<Rightarrow> string" where
  "msg_text m = json_text (Marshal m)"

definition read_msg :: "string \<Rightarrow> ControlMessage option" where
  "read_msg s = (case json_parse s of None \<Rightarrow> None | Some j \<Rightarrow> Unmarshal j)"

text \<open>A message whose strings hold bytes that are no UTF-8 arrives with them replaced.\<close>

definition msg_repair :: "ControlMessage \<Rightarrow> ControlMessage" where
  "msg_repair m = m\<lparr>cmType := utf8_repair (cmType m), cmSessionID := utf8_repair (cmSessionID m),
     cmMode := utf8_repair (cmMode m), cmTarget := utf8_repair (cmTarget m),
     cmCommand := utf8_repair (cmCommand m), cmError := utf8_repair (cmError m),
     cmVersion := utf8_repair (cmVersion m), cmArch := utf8_repair (cmArch m)\<rparr>"

definition msg_utf8 :: "ControlMessage \<Rightarrow> bool" where
  "msg_utf8 m \<longleftrightarrow> valid_utf8 (cmType m) \<and> valid_utf8 (cmSessionID m) \<and> valid_utf8 (cmMode m)
     \<and> valid_utf8 (cmTarget m) \<and> valid_utf8 (cmCommand m) \<and> valid_utf8 (cmError m)
     \<and> valid_utf8 (cmVersion m) \<and> valid_utf8 (cmArch m)"

definition wire_ok :: "ControlMessage \<Rightarrow> bool" where
  "wire_ok m \<longleftrightarrow> msg_ok m \<and> msg_utf8 m"

lemma utf8_repair_empty: "utf8_repair s = [] \<longleftrightarrow> s = []"
  by (cases s) (auto simp: Let_def replacement_def)

lemma field_name_repair: "f \<in> set field_names \<Longrightarrow> utf8_repair f = f"
  by (rule utf8_repair_valid, rule valid_utf8_ascii) (auto simp: field_names_def)

lemma repair_names:
  "utf8_repair ''type'' = ''type''" "utf8_repair ''session_id'' = ''session_id''"
  "utf8_repair ''mode'' = ''mode''" "utf8_repair ''target'' = ''target''"
  "utf8_repair ''command'' = ''command''" "utf8_repair ''cols'' = ''cols''"
  "utf8_repair ''rows'' = ''rows''" "utf8_repair ''success'' = ''success''"
  "utf8_repair ''error'' = ''error''" "utf8_repair ''exit_code'' = ''exit_code''"
  "utf8_repair ''ack_bytes'' = ''ack_bytes''" "utf8_repair ''timestamp'' = ''timestamp''"
  "utf8_repair ''timeout'' = ''timeout''" "utf8_repair ''version'' = ''version''"
  "utf8_repair ''arch'' = ''arch''"
  by (rule field_name_repair, simp add: field_names_def)+

lemma repair_members:
  assumes "utf8_repair k = k"
  shows "map (\<lambda>(k, j). (utf8_repair k, json_repair j)) (omit_str k v) = omit_str k (utf8_repair v)"
    and "map (\<lambda>(k, j). (utf8_repair k, json_repair j)) (omit_word k w) = omit_word k w"
    and "map (\<lambda>(k, j). (utf8_repair k, json_repair j)) (omit_int k i) = omit_int k i"
    and "map (\<lambda>(k, j). (utf8_repair k, json_repair j)) (omit_bool k b) = omit_bool k b"
    and "map (\<lambda>(k, j). (utf8_repair k, json_repair j)) (omit_ptr k x) = omit_ptr k x"
  using assms by (auto simp: omit_str_def omit_word_def omit_int_def omit_bool_def omit_ptr_def
      utf8_repair_empty split: option.split)

lemma json_repair_Marshal: "json_repair (Marshal m) = Marshal (msg_repair m)"
  unfolding Marshal_def json_repair.simps map_append list.map prod.case
  by (simp only: repair_members repair_names json_repair.simps) (simp add: msg_repair_def)

lemma json_plain_Marshal: "json_plain (Marshal m)"
  by (auto simp: Marshal_def omit_str_def omit_word_def omit_int_def omit_bool_def omit_ptr_def
      split: if_splits option.splits)

lemma flat_members:
  "list_all (\<lambda>(k, j). json_depth j \<le> 0) (omit_str k v)" "list_all (\<lambda>(k, j). json_depth j \<le> 0) (omit_word k w)"
  "list_all (\<lambda>(k, j). json_depth j \<le> 0) (omit_int k i)" "list_all (\<lambda>(k, j). json_depth j \<le> 0) (omit_bool k b)"
  "list_all (\<lambda>(k, j). json_depth j \<le> 0) (omit_ptr k x)"
  by (simp_all add: omit_str_def omit_word_def omit_int_def omit_bool_def omit_ptr_def split: option.split)

lemma json_depth_Marshal: "json_depth (Marshal m) \<le> maxNestingDepth"
proof -
  have "json_depth (Marshal m) \<le> Suc 0"
    unfolding Marshal_def by (rule json_depth_le(2)) (simp add: flat_members del: le_zero_eq)
  then show ?thesis by (simp add: maxNestingDepth_def)
qed

lemma read_msg_text: "msg_ok m \<Longrightarrow> read_msg (msg_text m) = Some (msg_repair m)"
  using json_parse_text [OF json_plain_Marshal json_depth_Marshal] Unmarshal_Marshal [of "msg_repair m"]
  by (simp add: read_msg_def msg_text_def json_repair_Marshal msg_ok_def msg_repair_def)

lemma msg_repair_utf8: "msg_utf8 m \<Longrightarrow> msg_repair m = m"
  by (simp add: msg_repair_def msg_utf8_def utf8_repair_valid)

lemma json_parse_Marshal: "wire_ok m \<Longrightarrow> json_parse (json_text (Marshal m)) = Some (Marshal m)"
  using json_parse_text [OF json_plain_Marshal json_depth_Marshal]
  by (simp add: json_repair_Marshal msg_repair_utf8 wire_ok_def)

text \<open>What is read is well formed, whatever the bytes: integers in range, strings in UTF-8.\<close>

lemma ParseInt_range: "ParseInt s = Some i \<Longrightarrow> int64_ok i"
  by (auto simp: ParseInt_def Let_def split: option.splits if_splits)

lemma dec_values:
  "dec_str j old = Some v \<Longrightarrow> json_utf8 j \<Longrightarrow> valid_utf8 old \<Longrightarrow> valid_utf8 v"
  "dec_int j old' = Some i \<Longrightarrow> int64_ok old' \<Longrightarrow> int64_ok i"
  "dec_ptr j = Some (Some k) \<Longrightarrow> int64_ok k"
  by (auto simp: dec_str_def dec_int_def dec_ptr_def dest: ParseInt_range split: json.splits)

lemma set_field_branch:
  "P x \<Longrightarrow> P y \<Longrightarrow> P (if b then x else y)"
  "(\<And>v. r = Some v \<Longrightarrow> wire_ok (g v)) \<Longrightarrow> pred_option wire_ok (map_option g r)"
  by (simp, cases r, simp_all)

lemma wire_ok_fields:
  "wire_ok m \<Longrightarrow> valid_utf8 v \<Longrightarrow> wire_ok (m\<lparr>cmType := v\<rparr>) \<and> wire_ok (m\<lparr>cmSessionID := v\<rparr>)
     \<and> wire_ok (m\<lparr>cmMode := v\<rparr>) \<and> wire_ok (m\<lparr>cmTarget := v\<rparr>) \<and> wire_ok (m\<lparr>cmCommand := v\<rparr>)
     \<and> wire_ok (m\<lparr>cmError := v\<rparr>) \<and> wire_ok (m\<lparr>cmVersion := v\<rparr>) \<and> wire_ok (m\<lparr>cmArch := v\<rparr>)"
  "wire_ok m \<Longrightarrow> int64_ok i \<Longrightarrow> wire_ok (m\<lparr>cmTimestamp := i\<rparr>) \<and> wire_ok (m\<lparr>cmTimeout := i\<rparr>)"
  "wire_ok m \<Longrightarrow> (\<And>k. x = Some k \<Longrightarrow> int64_ok k) \<Longrightarrow> wire_ok (m\<lparr>cmExitCode := x\<rparr>)"
  "wire_ok m \<Longrightarrow> wire_ok (m\<lparr>cmCols := a\<rparr>) \<and> wire_ok (m\<lparr>cmRows := a\<rparr>) \<and> wire_ok (m\<lparr>cmSuccess := b\<rparr>)
     \<and> wire_ok (m\<lparr>cmAckBytes := c\<rparr>)"
  by (simp_all add: wire_ok_def msg_ok_def msg_utf8_def)

lemma wire_ok_old:
  "wire_ok m \<Longrightarrow> valid_utf8 (cmType m) \<and> valid_utf8 (cmSessionID m) \<and> valid_utf8 (cmMode m) \<and> valid_utf8 (cmTarget m)
     \<and> valid_utf8 (cmCommand m) \<and> valid_utf8 (cmError m) \<and> valid_utf8 (cmVersion m) \<and> valid_utf8 (cmArch m)
     \<and> int64_ok (cmTimestamp m) \<and> int64_ok (cmTimeout m)"
  by (simp add: wire_ok_def msg_ok_def msg_utf8_def)

lemma set_field_ok:
  assumes "json_utf8 j" and "wire_ok m"
  shows "pred_option wire_ok (set_field f j m)"
  unfolding set_field_def
  apply (intro set_field_branch(1) [of "pred_option wire_ok"] set_field_branch(2))
  using wire_ok_fields [OF assms(2)] wire_ok_old [OF assms(2)] dec_values(1) [OF _ assms(1)] dec_values(2,3)
  by (simp_all add: assms(2)) metis

lemma dec_members_ok:
  "dec_members ms m = Some m' \<Longrightarrow> \<forall>(k, j) \<in> set ms. json_utf8 j \<Longrightarrow> wire_ok m \<Longrightarrow> wire_ok m'"
proof (induction ms m rule: dec_members.induct)
  case (2 k j ms m)
  show ?case
  proof (cases "field_for k")
    case None
    with 2 show ?thesis by simp
  next
    case (Some f)
    then obtain m1 where m1: "set_field f j m = Some m1" "dec_members ms m1 = Some m'"
      using "2.prems"(1) by (auto split: option.splits)
    have "wire_ok m1" using set_field_ok [of j m f] m1(1) "2.prems"(2,3) by simp
    then show ?thesis using "2.IH"(2) [OF Some m1] "2.prems"(2) by simp
  qed
qed simp

lemma read_msg_ok: "read_msg s = Some m \<Longrightarrow> wire_ok m"
proof -
  assume "read_msg s = Some m"
  then obtain j where j: "json_parse s = Some j" "Unmarshal j = Some m"
    by (auto simp: read_msg_def split: option.splits)
  have z: "wire_ok zeroMessage"
    by (simp add: wire_ok_def msg_ok_def msg_utf8_def zeroMessage_def int64_ok_def)
  from json_parse_utf8 [OF j(1)] j(2) z show ?thesis
    by (cases j) (auto simp: Unmarshal_def elim!: dec_members_ok)
qed

text \<open>The codec interface that the ends of the control channel rely on.\<close>

locale control_codec =
  fixes marshal :: "'m \<Rightarrow> 'j"
    and unmarshal :: "'j \<Rightarrow> 'm option"
    and valid :: "'m \<Rightarrow> bool"
  assumes round_trip: "valid m \<Longrightarrow> unmarshal (marshal m) = Some m"
begin

lemma marshal_inj: "valid m \<Longrightarrow> valid n \<Longrightarrow> marshal m = marshal n \<Longrightarrow> m = n"
  using round_trip by (metis option.inject)

lemma decoded_iff: "valid m \<Longrightarrow> unmarshal (marshal m) = Some n \<longleftrightarrow> n = m"
  using round_trip by auto

end

interpretation control_json: control_codec msg_text read_msg wire_ok
  by unfold_locales (simp add: wire_ok_def read_msg_text msg_repair_utf8)

section \<open>Main properties\<close>

text \<open>C20. Every control message survives the wire, as bytes: reading the text of a message gives it back, with what is no UTF-8 in its strings replaced; so messages in UTF-8 come back unchanged, and different ones have different texts.\<close>

theorem control_message_codec:
  assumes "msg_ok m"
  shows "read_msg (msg_text m) = Some (msg_repair m)
    \<and> (msg_utf8 m \<longrightarrow> read_msg (msg_text m) = Some m)
    \<and> (msg_utf8 m \<longrightarrow> (\<forall>m'. wire_ok m' \<longrightarrow> msg_text m = msg_text m' \<longrightarrow> m = m'))"
  using read_msg_text [OF assms] msg_repair_utf8 [of m] control_json.marshal_inj [of m] assms
  by (simp add: wire_ok_def)

theorem control_message_codec_witness:
  "read_msg (msg_text (zeroMessage\<lparr>cmType := ''close'', cmError := [CHR 0xFF], cmExitCode := Some 0\<rparr>))
     = Some (zeroMessage\<lparr>cmType := ''close'', cmError := [CHR 0xEF, CHR 0xBF, CHR 0xBD], cmExitCode := Some 0\<rparr>)"
proof -
  let ?m = "zeroMessage\<lparr>cmType := ''close'', cmError := [CHR 0xFF], cmExitCode := Some 0\<rparr>"
  have ok: "msg_ok ?m" by (simp add: msg_ok_def zeroMessage_def int64_ok_def)
  have "utf8_repair [CHR 0xFF] = [CHR 0xEF, CHR 0xBF, CHR 0xBD]" by (simp add: utf8_size_def replacement_def)
  moreover have "utf8_repair ''close'' = ''close''" by (rule utf8_repair_valid) simp
  ultimately show ?thesis
    using control_message_codec [OF ok] by (simp add: msg_repair_def zeroMessage_def)
qed

text \<open>C21. Reading never yields an ill-formed message: for any bytes, a message that is read has its integers in range and its strings in UTF-8, and its own text is valid UTF-8 and is read back as the same message.\<close>

theorem message_well_formed:
  assumes "read_msg bytes = Some m"
  shows "msg_ok m \<and> msg_utf8 m \<and> valid_utf8 (msg_text m) \<and> read_msg (msg_text m) = Some m"
  using read_msg_ok [OF assms] read_msg_text [of m] msg_repair_utf8 [of m] valid_utf8_json_text [OF json_plain_Marshal]
  by (simp add: wire_ok_def msg_text_def)

theorem message_well_formed_witness:
  "msg_utf8 (msg_repair (zeroMessage\<lparr>cmError := [CHR 0xFF, CHR 0xC5]\<rparr>))"
proof -
  have "msg_ok (zeroMessage\<lparr>cmError := [CHR 0xFF, CHR 0xC5]\<rparr>)" by (simp add: msg_ok_def zeroMessage_def int64_ok_def)
  from message_well_formed [OF read_msg_text [OF this]] show ?thesis by simp
qed

end
