(* ===== verification/Transport.thy ===== *)
theory Transport
  imports ControlJson
begin

text \<open>
  \<open>internal/tunnel/transport.go\<close>: the messages the program publishes, and \<open>MQTTTransport\<close>, which
  keeps the handlers in a router and passes the rest on to the MQTT client. The client and the
  router come from another module: what they answer is an argument.
\<close>

text \<open>
  A payload is bytes. It is kept as what it was made from, a marshalled document, a binary frame or a
  literal text, and read through its bytes.
\<close>

datatype payload = PJson json | PData "byte list" | PText string

record PubMessage =
  pmTopic :: string
  pmPayload :: payload
  pmQoS :: nat
  pmContentType :: string
  pmResponseTopic :: string

definition defaultQoS :: nat where
  "defaultQoS = 1"

text \<open>
  The publish of a control message, as every caller builds it: the payload is the marshalled
  message, which for this struct cannot fail.
\<close>

definition control_pub :: "string \<Rightarrow> nat \<Rightarrow> string \<Rightarrow> ControlMessage \<Rightarrow> PubMessage" where
  "control_pub topic qos resp msg = \<lparr>pmTopic = topic, pmPayload = PJson (Marshal msg), pmQoS = qos,
     pmContentType = ''application/json'', pmResponseTopic = resp\<rparr>"

definition data_pub :: "string \<Rightarrow> byte list \<Rightarrow> PubMessage" where
  "data_pub topic frame = \<lparr>pmTopic = topic, pmPayload = PData frame, pmQoS = 1,
     pmContentType = [], pmResponseTopic = []\<rparr>"

fun payload_text :: "payload \<Rightarrow> string" where
  "payload_text (PJson j) = json_text j"
| "payload_text (PData b) = string_of_bytes b"
| "payload_text (PText t) = t"

text \<open>What a control handler sees of a payload: the document, if the bytes are JSON.\<close>

definition payload_json :: "payload \<Rightarrow> json option" where
  "payload_json p = json_parse (payload_text p)"

lemma payload_control_pub:
  "wire_ok m \<Longrightarrow> payload_json (pmPayload (control_pub t q r m)) = Some (Marshal m)"
  by (simp add: payload_json_def control_pub_def json_parse_Marshal)

lemma payload_read_msg:
  "(case payload_json p of None \<Rightarrow> None | Some j \<Rightarrow> Unmarshal j) = read_msg (payload_text p)"
  by (simp add: payload_json_def read_msg_def)

definition pub_control :: "PubMessage \<Rightarrow> ControlMessage option" where
  "pub_control m = (case payload_json (pmPayload m) of None \<Rightarrow> None | Some j \<Rightarrow> Unmarshal j)"

lemma pub_control_control_pub: "wire_ok msg \<Longrightarrow> pub_control (control_pub t q r msg) = Some msg"
  using control_json.round_trip [of msg]
  by (simp add: pub_control_def payload_read_msg) (simp add: control_pub_def msg_text_def)

text \<open>
  \<open>SubscribeAll\<close>: the filters are subscribed in the router's order and the first failure ends
  the loop. The result holds the filters that were subscribed.
\<close>

fun SubscribeAll :: "(string \<Rightarrow> 'e option) \<Rightarrow> string list \<Rightarrow> string list \<times> 'e option" where
  "SubscribeAll subscribe [] = ([], None)"
| "SubscribeAll subscribe (f # fs) =
     (case subscribe f of
        Some err \<Rightarrow> ([], Some err)
      | None \<Rightarrow> (let (ds, r) = SubscribeAll subscribe fs in (f # ds, r)))"

lemma SubscribeAll_ok:
  "snd (SubscribeAll subscribe fs) = None \<longleftrightarrow> (\<forall>f \<in> set fs. subscribe f = None)"
  by (induction fs) (auto split: option.splits prod.splits)

lemma SubscribeAll_prefix:
  "\<exists>rest. fs = fst (SubscribeAll subscribe fs) @ rest \<and>
     (case snd (SubscribeAll subscribe fs) of
        None \<Rightarrow> rest = []
      | Some e \<Rightarrow> (\<exists>f r. rest = f # r \<and> subscribe f = Some e))"
proof (induction fs)
  case (Cons f fs)
  show ?case
  proof (cases "subscribe f")
    case None
    obtain ds r where rec: "SubscribeAll subscribe fs = (ds, r)" by fastforce
    with None Cons show ?thesis by (auto split: option.splits)
  next
    case (Some e)
    then show ?thesis by simp
  qed
qed simp

section \<open>The transport\<close>

text \<open>
  The MQTT client through what its calls answer. A route is a filter with its handler; of the router
  the code relies on this: \<open>Handle\<close> adds a route, \<open>Clear\<close> drops all of them, and \<open>Filters\<close>, an
  argument here, gives the filters of the routes there are.
\<close>

record mqtt_message =
  mmTopic :: string
  mmPayload :: string
  mmQoS :: nat
  mmContentType :: string
  mmResponseTopic :: string

record 'e mqtt_client =
  mcPublish :: "mqtt_message \<Rightarrow> 'e option"
  mcSubscribe :: "string \<Rightarrow> nat \<Rightarrow> 'e option"
  mcUnsubscribe :: "string list \<Rightarrow> 'e option"
  mcIsConnected :: bool
  mcClose :: "'e option"
  mcClientID :: string

record ('e, 'h) MQTTTransport =
  mtClient :: "'e mqtt_client"
  mtRoutes :: "(string \<times> nat \<times> 'h) list"

definition NewMQTTTransport :: "'e mqtt_client \<Rightarrow> ('e, 'h) MQTTTransport" where
  "NewMQTTTransport c = \<lparr>mtClient = c, mtRoutes = []\<rparr>"

definition mqtt_of :: "PubMessage \<Rightarrow> mqtt_message" where
  "mqtt_of m = \<lparr>mmTopic = pmTopic m, mmPayload = payload_text (pmPayload m), mmQoS = pmQoS m,
     mmContentType = pmContentType m, mmResponseTopic = pmResponseTopic m\<rparr>"

definition transport_Publish :: "PubMessage \<Rightarrow> ('e, 'h) MQTTTransport \<Rightarrow> 'e option" where
  "transport_Publish m t = mcPublish (mtClient t) (mqtt_of m)"

definition transport_Subscribe :: "string \<Rightarrow> 'h \<Rightarrow> ('e, 'h) MQTTTransport \<Rightarrow> ('e, 'h) MQTTTransport \<times> 'e option" where
  "transport_Subscribe f h t = (t\<lparr>mtRoutes := mtRoutes t @ [(f, defaultQoS, h)]\<rparr>, None)"

definition transport_SubscribeAll :: "(string list \<Rightarrow> string list) \<Rightarrow> ('e, 'h) MQTTTransport \<Rightarrow> string list \<times> 'e option" where
  "transport_SubscribeAll Filters t =
     SubscribeAll (\<lambda>f. mcSubscribe (mtClient t) f defaultQoS) (Filters (map fst (mtRoutes t)))"

definition transport_Unsubscribe :: "string list \<Rightarrow> ('e, 'h) MQTTTransport \<Rightarrow> ('e, 'h) MQTTTransport \<times> 'e option" where
  "transport_Unsubscribe fs t = (t\<lparr>mtRoutes := []\<rparr>, mcUnsubscribe (mtClient t) fs)"

definition transport_IsConnected :: "('e, 'h) MQTTTransport \<Rightarrow> bool" where
  "transport_IsConnected t = mcIsConnected (mtClient t)"

definition transport_Close :: "('e, 'h) MQTTTransport \<Rightarrow> 'e option" where
  "transport_Close t = mcClose (mtClient t)"

definition transport_ClientID :: "('e, 'h) MQTTTransport \<Rightarrow> string" where
  "transport_ClientID t = mcClientID (mtClient t)"

text \<open>
  What the peers rely on: after \<open>SubscribeAll\<close> without an error every filter registered before is
  subscribed. Of the router this needs that \<open>Filters\<close> leaves no filter out.
\<close>

fun subscribe_each :: "(string \<times> 'h) list \<Rightarrow> ('e, 'h) MQTTTransport \<Rightarrow> ('e, 'h) MQTTTransport" where
  "subscribe_each [] t = t"
| "subscribe_each ((f, h) # subs) t = subscribe_each subs (fst (transport_Subscribe f h t))"

lemma subscribe_each_routes: "map fst (mtRoutes (subscribe_each subs t)) = map fst (mtRoutes t) @ map fst subs"
  by (induction subs t rule: subscribe_each.induct) (simp_all add: transport_Subscribe_def)

lemma subscribed_hears:
  assumes "transport_SubscribeAll Filters (subscribe_each subs t) = (fs, None)"
    and "\<And>xs. set xs \<subseteq> set (Filters xs)" and "f \<in> fst ` set subs"
  shows "f \<in> set fs"
proof -
  let ?fs = "Filters (map fst (mtRoutes t) @ map fst subs)"
  let ?sub = "\<lambda>f. mcSubscribe (mtClient (subscribe_each subs t)) f defaultQoS"
  have "SubscribeAll ?sub ?fs = (fs, None)"
    using assms(1) by (simp add: transport_SubscribeAll_def subscribe_each_routes)
  with SubscribeAll_prefix [of ?fs ?sub] have "fs = ?fs" by simp
  with assms(2) [of "map fst (mtRoutes t) @ map fst subs"] assms(3) show ?thesis by auto
qed

end
