(* ===== verification/Writer.thy ===== *)
theory Writer
  imports Flow Transport
begin

text \<open>
  \<open>SequenceWriter\<close> of \<open>internal/tunnel/session.go\<close>: data is cut into payloads of at most 64 KB,
  each waits for window credit, gets the next sequence number, is counted as sent and published.

  \<open>write_loop\<close> is one call of \<open>Write\<close> run until it ends or has to wait. \<open>wr_step\<close> interleaves
  the calls of the session's one writing goroutine with the acknowledgements that arrive. After
  an error every caller stops writing to the session, which is the place \<open>WFailed\<close>.
\<close>

section \<open>State and operations\<close>

record SequenceWriter =
  swSeq :: u32
  swTopic :: string
  swFc :: FlowControl

definition NewSequenceWriter :: "string \<Rightarrow> FlowControl \<Rightarrow> SequenceWriter" where
  "NewSequenceWriter topic fc = \<lparr>swSeq = 0, swTopic = topic, swFc = fc\<rparr>"

definition next_chunk :: "byte list \<Rightarrow> byte list" where
  "next_chunk data = (if length data > MaxPayloadSize then take MaxPayloadSize data else data)"

text \<open>Numbering a chunk: the frame, the next number, the bytes counted as sent.\<close>

definition Write_frame :: "byte list \<Rightarrow> SequenceWriter \<Rightarrow> SequenceWriter \<times> PubMessage" where
  "Write_frame chunk sw =
     (sw\<lparr>swSeq := swSeq sw + 1, swFc := AddSent (of_nat (length chunk)) (swFc sw)\<rparr>,
      data_pub (swTopic sw) (EncodeDataFrame (swSeq sw) chunk))"

datatype write_outcome = WroteAll | WriteBlocked "byte list" | WriteFailed "byte list"

lemma next_chunk_take: "next_chunk data = take MaxPayloadSize data"
  by (simp add: next_chunk_def)

lemma next_chunk_nonempty [simp]: "next_chunk data = [] \<longleftrightarrow> data = []"
  by (simp add: next_chunk_take MaxPayloadSize_def)

lemma length_next_chunk: "length (next_chunk data) \<le> MaxPayloadSize"
  by (simp add: next_chunk_take)

lemma next_chunk_drop: "next_chunk data @ drop (length (next_chunk data)) data = data"
  by (simp add: next_chunk_take min_def)

lemma length_after_chunk: "data \<noteq> [] \<Longrightarrow> length (drop (length (next_chunk data)) data) < length data"
  by (cases "next_chunk data = []") (auto simp del: next_chunk_nonempty, simp)

text \<open>\<open>ok\<close> tells which publishes succeed.\<close>

function write_loop :: "(PubMessage \<Rightarrow> bool) \<Rightarrow> SequenceWriter \<Rightarrow> byte list
    \<Rightarrow> SequenceWriter \<times> PubMessage list \<times> write_outcome" where
  "write_loop ok sw data =
     (if data = [] then (sw, [], WroteAll)
      else let chunk = next_chunk data in
        if \<not> CanSend (of_nat (length chunk)) (swFc sw) then (sw, [], WriteBlocked data)
        else let (sw1, msg) = Write_frame chunk sw in
          if \<not> ok msg then (sw1, [], WriteFailed (drop (length chunk) data))
          else let (sw2, msgs, out) = write_loop ok sw1 (drop (length chunk) data)
            in (sw2, msg # msgs, out))"
  by pat_completeness auto
termination
  by (relation "measure (\<lambda>(ok, sw, data). length data)") (auto simp: length_after_chunk simp del: length_drop)

declare write_loop.simps [simp del]

section \<open>Reference: numbered chunks\<close>

function chunks :: "byte list \<Rightarrow> byte list list" where
  "chunks data = (if data = [] then [] else next_chunk data # chunks (drop (length (next_chunk data)) data))"
  by pat_completeness auto
termination
  by (relation "measure length") (auto simp: length_after_chunk simp del: length_drop)

declare chunks.simps [simp del]

fun number_from :: "string \<Rightarrow> u32 \<Rightarrow> byte list list \<Rightarrow> PubMessage list" where
  "number_from topic s [] = []"
| "number_from topic s (c # cs) = data_pub topic (EncodeDataFrame s c) # number_from topic (s + 1) cs"

lemma number_from_append:
  "number_from topic s (cs @ ds) = number_from topic s cs @ number_from topic (s + of_nat (length cs)) ds"
  by (induction topic s cs rule: number_from.induct) (simp_all add: ac_simps)

lemma concat_chunks: "concat (chunks data) = data"
proof (induction data rule: chunks.induct)
  case (1 data)
  then show ?case
    by (subst chunks.simps) (simp add: next_chunk_drop)
qed

lemma chunks_size: "c \<in> set (chunks data) \<Longrightarrow> c \<noteq> [] \<and> length c \<le> MaxPayloadSize"
proof (induction data rule: chunks.induct)
  case (1 data)
  show ?case
  proof (cases "data = []")
    case True
    with "1.prems" show ?thesis by (simp add: chunks.simps)
  next
    case False
    with "1.prems" have "c = next_chunk data \<or> c \<in> set (chunks (drop (length (next_chunk data)) data))"
      by (subst (asm) chunks.simps) simp
    then show ?thesis using "1.IH" [OF False] False length_next_chunk by auto
  qed
qed

text \<open>
  With credit for all of the data and a working transport, \<open>Write\<close> publishes exactly the
  numbered chunks.
\<close>

lemma write_loop_chunks:
  assumes "fc_ok (swFc sw)" and "fc_used (swFc sw) + length data \<le> 262144"
    and "unat (fcSent (swFc sw)) + length data < 2 ^ 64"
  shows "\<exists>sw'. write_loop (\<lambda>_. True) sw data =
      (sw', number_from (swTopic sw) (swSeq sw) (chunks data), WroteAll)
    \<and> swSeq sw' = swSeq sw + of_nat (length (chunks data))
    \<and> unat (fcSent (swFc sw')) = unat (fcSent (swFc sw)) + length data
    \<and> fc_ok (swFc sw') \<and> fc_used (swFc sw') = fc_used (swFc sw) + length data \<and> swTopic sw' = swTopic sw"
  using assms
proof (induction data arbitrary: sw rule: chunks.induct)
  case (1 data)
  show ?case
  proof (cases "data = []")
    case True
    with "1.prems"(1) show ?thesis by (simp add: write_loop.simps chunks.simps)
  next
    case False
    let ?c = "next_chunk data" and ?r = "drop (length (next_chunk data)) data"
    let ?sw = "fst (Write_frame ?c sw)"
    have len: "length ?c + length ?r = length data"
      using next_chunk_drop [of data] by (metis length_append)
    have win: "fcWindow (swFc sw) = FlowControlWindow"
      using "1.prems"(1) by (simp add: fc_ok_def)
    have can: "CanSend (of_nat (length ?c)) (swFc sw)"
      using fc_window.can_used [OF "1.prems"(1) length_next_chunk] "1.prems"(2) len win by simp
    have sent: "fc_ok (swFc ?sw) \<and> fc_used (swFc ?sw) = fc_used (swFc sw) + length ?c
        \<and> unat (fcSent (swFc ?sw)) = unat (fcSent (swFc sw)) + length ?c"
      using fc_window.send_used [OF "1.prems"(1) length_next_chunk can] "1.prems"(3) len
      by (simp add: Write_frame_def)
    have "\<exists>sw'. write_loop (\<lambda>_. True) ?sw ?r =
        (sw', number_from (swTopic ?sw) (swSeq ?sw) (chunks ?r), WroteAll)
      \<and> swSeq sw' = swSeq ?sw + of_nat (length (chunks ?r))
      \<and> unat (fcSent (swFc sw')) = unat (fcSent (swFc ?sw)) + length ?r
      \<and> fc_ok (swFc sw') \<and> fc_used (swFc sw') = fc_used (swFc ?sw) + length ?r \<and> swTopic sw' = swTopic ?sw"
      using "1.prems" sent len by (intro "1.IH" [OF False]) auto
    then obtain sw' where rec: "write_loop (\<lambda>_. True) ?sw ?r =
        (sw', number_from (swTopic ?sw) (swSeq ?sw) (chunks ?r), WroteAll)"
      and "swSeq sw' = swSeq ?sw + of_nat (length (chunks ?r))"
      and "unat (fcSent (swFc sw')) = unat (fcSent (swFc ?sw)) + length ?r"
      and "fc_ok (swFc sw')" "fc_used (swFc sw') = fc_used (swFc ?sw) + length ?r" "swTopic sw' = swTopic ?sw" by blast
    with False can sent len show ?thesis
      by (simp add: write_loop.simps [of _ sw data] chunks.simps [of data] Write_frame_def Let_def)
  qed
qed

section \<open>Interleaved execution\<close>

datatype write_thread = WIdle | WCheck "byte list" | WSelect "byte list" | WPublish PubMessage "byte list"
  | WFailed

datatype wr_event = WriteCall "byte list" | WriteReturns | Numbers "byte list" | Parks | Wakes
  | WriteCancelled | Publishes PubMessage | PublishFails PubMessage | AckArrives u64

type_synonym wr_conf = "SequenceWriter \<times> write_thread"

definition chunk_credit :: "byte list \<Rightarrow> SequenceWriter \<Rightarrow> bool" where
  "chunk_credit data sw \<longleftrightarrow> CanSend (of_nat (length (next_chunk data))) (swFc sw)"

inductive wr_step :: "wr_conf \<Rightarrow> wr_event \<Rightarrow> wr_conf \<Rightarrow> bool" where
  wr_call: "wr_step (sw, WIdle) (WriteCall data) (sw, WCheck data)"
| wr_return: "wr_step (sw, WCheck []) WriteReturns (sw, WIdle)"
| wr_number: "data \<noteq> [] \<Longrightarrow> chunk_credit data sw \<Longrightarrow> Write_frame (next_chunk data) sw = (sw', msg) \<Longrightarrow>
    wr_step (sw, WCheck data) (Numbers (next_chunk data))
      (sw', WPublish msg (drop (length (next_chunk data)) data))"
| wr_park: "data \<noteq> [] \<Longrightarrow> \<not> chunk_credit data sw \<Longrightarrow> wr_step (sw, WCheck data) Parks (sw, WSelect data)"
| wr_wake: "fcNotify (swFc sw) \<Longrightarrow>
    wr_step (sw, WSelect data) Wakes (sw\<lparr>swFc := (swFc sw)\<lparr>fcNotify := False\<rparr>\<rparr>, WCheck data)"
| wr_cancel: "wr_step (sw, WSelect data) WriteCancelled (sw, WFailed)"
| wr_publish: "wr_step (sw, WPublish msg rest) (Publishes msg) (sw, WCheck rest)"
| wr_publish_fail: "wr_step (sw, WPublish msg rest) (PublishFails msg) (sw, WFailed)"
| wr_ack: "wr_step (sw, th) (AckArrives a) (sw\<lparr>swFc := UpdateAck a (swFc sw)\<rparr>, th)"

inductive_cases wr_publishE: "wr_step c (Publishes m) c'"
inductive_cases wr_numberE: "wr_step c (Numbers ch) c'"
inductive_cases wr_ackE: "wr_step c (AckArrives a) c'"
inductive_simps wr_step_simps: "wr_step (sw, th) e (sw', th')"

text \<open>Ghost quantities: the data handed to \<open>Write\<close>, the numbered chunks, the published messages.\<close>

fun written :: "wr_event list \<Rightarrow> byte list" where
  "written [] = []"
| "written (WriteCall d # es) = d @ written es"
| "written (_ # es) = written es"

fun numbered :: "wr_event list \<Rightarrow> byte list list" where
  "numbered [] = []"
| "numbered (Numbers c # es) = c # numbered es"
| "numbered (_ # es) = numbered es"

lemma written_append [simp]: "written (es @ fs) = written es @ written fs"
  by (induction es rule: written.induct) auto

lemma numbered_append [simp]: "numbered (es @ fs) = numbered es @ numbered fs"
  by (induction es rule: numbered.induct) auto

fun unwritten :: "write_thread \<Rightarrow> byte list option" where
  "unwritten WIdle = Some []"
| "unwritten (WCheck d) = Some d"
| "unwritten (WSelect d) = Some d"
| "unwritten (WPublish m d) = Some d"
| "unwritten WFailed = None"

text \<open>The frames of the chunks, by number.\<close>

definition frame_of :: "string \<Rightarrow> byte list list \<Rightarrow> nat \<Rightarrow> PubMessage" where
  "frame_of topic cs i = data_pub topic (EncodeDataFrame (of_nat i) (cs ! i))"

definition frames :: "string \<Rightarrow> byte list list \<Rightarrow> PubMessage set" where
  "frames topic cs = frame_of topic cs ` {0..<length cs}"

lemma frames_mono: "m \<in> frames topic cs \<Longrightarrow> m \<in> frames topic (cs @ ds)"
  by (auto simp: frames_def frame_of_def nth_append image_iff)

lemma frames_last: "data_pub topic (EncodeDataFrame (of_nat (length cs)) c) \<in> frames topic (cs @ [c])"
  by (auto simp: frames_def frame_of_def image_iff intro!: bexI [of _ "length cs"])

definition chunk_bytes :: "byte list list \<Rightarrow> nat" where
  "chunk_bytes cs = sum_list (map length cs)"

lemma chunk_bytes_simps [simp]:
  "chunk_bytes [] = 0" "chunk_bytes (cs @ ds) = chunk_bytes cs + chunk_bytes ds"
  "chunk_bytes (c # cs) = length c + chunk_bytes cs"
  by (simp_all add: chunk_bytes_def)

text \<open>
  The invariant. The part about the counters holds while fewer than \<open>2 ^ 64\<close> bytes have been
  sent.
\<close>

definition wr_stream_inv :: "string \<Rightarrow> wr_event list \<Rightarrow> wr_conf \<Rightarrow> bool" where
  "wr_stream_inv topic es c \<longleftrightarrow> (case c of (sw, th) \<Rightarrow>
     swTopic sw = topic \<and> swSeq sw = of_nat (length (numbered es)) \<and>
     (\<forall>ch \<in> set (numbered es). ch \<noteq> [] \<and> length ch \<le> MaxPayloadSize) \<and>
     (\<forall>m. Publishes m \<in> set es \<longrightarrow> m \<in> frames topic (numbered es)) \<and>
     (\<forall>m d. th = WPublish m d \<longrightarrow> m \<in> frames topic (numbered es)) \<and>
     (case unwritten th of
        Some d \<Rightarrow> written es = concat (numbered es) @ d
      | None \<Rightarrow> \<exists>d. written es = concat (numbered es) @ d))"

definition wr_credit_inv :: "wr_event list \<Rightarrow> wr_conf \<Rightarrow> bool" where
  "wr_credit_inv es c \<longleftrightarrow> (case c of (sw, th) \<Rightarrow>
     chunk_bytes (numbered es) < 2 ^ 64 \<longrightarrow>
       fc_ok (swFc sw) \<and> unat (fcSent (swFc sw)) = chunk_bytes (numbered es))"

definition wr_wake_inv :: "wr_conf \<Rightarrow> bool" where
  "wr_wake_inv c \<longleftrightarrow> (case c of (sw, th) \<Rightarrow>
     \<forall>d. th = WSelect d \<and> chunk_credit d sw \<longrightarrow> fcNotify (swFc sw))"

definition wr_inv :: "string \<Rightarrow> wr_event list \<Rightarrow> wr_conf \<Rightarrow> bool" where
  "wr_inv topic es c \<longleftrightarrow> wr_stream_inv topic es c \<and> wr_credit_inv es c \<and> wr_wake_inv c"

abbreviation fresh_writer :: "string \<Rightarrow> wr_conf" where
  "fresh_writer topic \<equiv> (NewSequenceWriter topic (NewFlowControl FlowControlWindow), WIdle)"

lemma wr_inv_start: "wr_inv topic [] (fresh_writer topic)"
  by (simp add: wr_inv_def wr_stream_inv_def wr_credit_inv_def wr_wake_inv_def NewSequenceWriter_def
      fc_ok_def fc_inv_New, simp add: NewFlowControl_def)

lemma wr_stream_step:
  assumes "wr_stream_inv topic es c" and "wr_step c e c'"
  shows "wr_stream_inv topic (es @ [e]) c'"
  using assms(2,1)
proof (cases rule: wr_step.cases)
  case (wr_number data sw sw' msg)
  then have sw': "sw' = sw\<lparr>swSeq := swSeq sw + 1, swFc := AddSent (of_nat (length (next_chunk data))) (swFc sw)\<rparr>"
    and msg: "msg = data_pub (swTopic sw) (EncodeDataFrame (swSeq sw) (next_chunk data))"
    by (auto simp: Write_frame_def)
  with wr_number assms(1) frames_last [of topic "numbered es" "next_chunk data"]
  show ?thesis
    by (auto simp: wr_stream_inv_def next_chunk_drop length_next_chunk intro: frames_mono)
next
  case wr_cancel
  then show ?thesis using assms(1) by (auto simp: wr_stream_inv_def)
next
  case wr_publish
  then show ?thesis using assms(1) by (auto simp: wr_stream_inv_def)
next
  case wr_publish_fail
  then show ?thesis using assms(1) by (auto simp: wr_stream_inv_def)
qed (use assms(1) in \<open>auto simp: wr_stream_inv_def split: option.splits\<close>)

lemma wr_credit_step:
  assumes "wr_credit_inv es c" and "wr_step c e c'"
  shows "wr_credit_inv (es @ [e]) c'"
  using assms(2,1)
proof (cases rule: wr_step.cases)
  case (wr_number data sw sw' msg)
  let ?c = "next_chunk data"
  have sw': "swFc sw' = AddSent (of_nat (length ?c)) (swFc sw)"
    using wr_number by (auto simp: Write_frame_def)
  show ?thesis
  proof (cases "chunk_bytes (numbered es) + length ?c < 2 ^ 64")
    case True
    then have inv: "fc_ok (swFc sw)" "unat (fcSent (swFc sw)) = chunk_bytes (numbered es)"
      using assms(1) wr_number by (auto simp: wr_credit_inv_def)
    with True fc_window.send_used [OF inv(1) length_next_chunk [of data]] wr_number sw'
    show ?thesis by (simp add: wr_credit_inv_def chunk_credit_def)
  next
    case False
    then show ?thesis using wr_number by (simp add: wr_credit_inv_def)
  qed
next
  case (wr_ack sw th a)
  have "of_nat (unat a) = a" and "unat a < 2 ^ 64"
    using unsigned_less [of a, where ?'a = nat] by simp_all
  with assms(1) wr_ack fc_window.ack_used [of "swFc sw" "unat a"] show ?thesis
    by (auto simp: wr_credit_inv_def)
qed (use assms(1) in \<open>auto simp: wr_credit_inv_def fc_ok_def fc_inv_def\<close>)

lemma wr_wake_step:
  assumes "wr_wake_inv c" and "wr_step c e c'"
  shows "wr_wake_inv c'"
  using assms(2,1) by (cases rule: wr_step.cases) (auto simp: wr_wake_inv_def)

interpretation wr_history: history_invariant wr_step "fresh_writer topic" "\<lambda>_. True" "wr_inv topic" for topic
proof unfold_locales
  show "wr_inv topic [] (fresh_writer topic)" by (rule wr_inv_start)
qed (auto simp: wr_inv_def intro: wr_stream_step wr_credit_step wr_wake_step)

lemma wr_run_inv: "run wr_step (fresh_writer topic) es c \<Longrightarrow> wr_inv topic es c"
  by (rule wr_history.run_inv) simp_all

text \<open>A call that runs alone is a run of the relation.\<close>

fun write_thread_of :: "write_outcome \<Rightarrow> write_thread" where
  "write_thread_of WroteAll = WIdle"
| "write_thread_of (WriteBlocked d) = WSelect d"
| "write_thread_of (WriteFailed d) = WFailed"

definition published :: "wr_event list \<Rightarrow> PubMessage list" where
  "published es = [m. Publishes m \<leftarrow> es]"

definition no_acks :: "wr_event list \<Rightarrow> bool" where
  "no_acks es \<longleftrightarrow> (\<forall>a. AckArrives a \<notin> set es)"

lemma published_append [simp]: "published (es @ fs) = published es @ published fs"
  by (simp add: published_def)

lemma no_acks_simps [simp]:
  "no_acks []" "no_acks (es @ fs) \<longleftrightarrow> no_acks es \<and> no_acks fs"
  "no_acks (e # es) \<longleftrightarrow> (\<forall>a. e \<noteq> AckArrives a) \<and> no_acks es"
  by (auto simp: no_acks_def)

lemma write_loop_run:
  "write_loop ok sw data = (sw', msgs, out) \<Longrightarrow>
     \<exists>es. run wr_step (sw, WCheck data) es (sw', write_thread_of out)
       \<and> published es = msgs \<and> written es = [] \<and> no_acks es"
proof (induction ok sw data arbitrary: sw' msgs out rule: write_loop.induct)
  case (1 ok sw data)
  show ?case
  proof (cases "data = []")
    case True
    with "1.prems" show ?thesis
      by (intro exI [of _ "[WriteReturns]"])
         (auto simp: write_loop.simps published_def intro: run_single wr_return)
  next
    case ne: False
    let ?c = "next_chunk data" and ?r = "drop (length (next_chunk data)) data"
    obtain sw1 msg where fr: "Write_frame ?c sw = (sw1, msg)" by fastforce
    show ?thesis
    proof (cases "chunk_credit data sw")
      case False
      with "1.prems" ne have "sw' = sw" "msgs = []" "out = WriteBlocked data"
        by (simp_all add: write_loop.simps [of ok] chunk_credit_def)
      with run_single [of wr_step, OF wr_park [OF ne False]] show ?thesis
        by (intro exI [of _ "[Parks]"]) (auto simp: published_def)
    next
      case credit: True
      from ne credit fr have num: "wr_step (sw, WCheck data) (Numbers ?c) (sw1, WPublish msg ?r)"
        by (rule wr_number)
      show ?thesis
      proof (cases "ok msg")
        case False
        with "1.prems" ne credit fr have "sw' = sw1" "msgs = []" "out = WriteFailed ?r"
          by (simp_all add: write_loop.simps [of ok] chunk_credit_def Let_def)
        with num show ?thesis
          by (intro exI [of _ "[Numbers ?c, PublishFails msg]"])
             (auto simp: published_def intro: run_cons run_single wr_publish_fail)
      next
        case True
        obtain sw2 ms o2 where rec: "write_loop ok sw1 ?r = (sw2, ms, o2)"
          by (cases "write_loop ok sw1 ?r")
        with "1.prems" ne credit fr True have eq: "sw' = sw2" "msgs = msg # ms" "out = o2"
          by (simp_all add: write_loop.simps [of ok sw data] chunk_credit_def Let_def)
        have "\<exists>es. run wr_step (sw1, WCheck ?r) es (sw2, write_thread_of o2)
            \<and> published es = ms \<and> written es = [] \<and> no_acks es"
          using "1.IH" [OF ne refl _ fr [symmetric]] credit True rec by (simp add: chunk_credit_def)
        then obtain es where "run wr_step (sw1, WCheck ?r) es (sw2, write_thread_of o2)"
          and "published es = ms" "written es = []" "no_acks es" by blast
        with num eq show ?thesis
          by (intro exI [of _ "Numbers ?c # Publishes msg # es"])
             (auto simp: published_def intro: run_cons wr_publish)
      qed
    qed
  qed
qed

section \<open>Main properties\<close>

text \<open>C17. With credit for all of the data and a transport that accepts it, a write publishes frames on the session's data topic numbered consecutively from the writer's counter, whose payloads are not empty, fit a frame and join to the data.\<close>

theorem write_numbers_chunks:
  assumes "fc_ok (swFc sw)" and "fc_used (swFc sw) + length data \<le> 262144"
    and "unat (fcSent (swFc sw)) + length data < 2 ^ 64"
    and "write_loop (\<lambda>_. True) sw data = (sw', ms, out)"
  shows "out = WroteAll \<and> swSeq sw' = swSeq sw + of_nat (length ms)
     \<and> (\<exists>cs. concat cs = data \<and> length cs = length ms \<and> (\<forall>c \<in> set cs. c \<noteq> [] \<and> length c \<le> 65536)
          \<and> (\<forall>k < length ms. ms ! k = data_pub (swTopic sw) (EncodeDataFrame (swSeq sw + of_nat k) (cs ! k))))"
proof -
  have nth: "length (number_from t s cs) = length cs
      \<and> (\<forall>k < length cs. number_from t s cs ! k = data_pub t (EncodeDataFrame (s + of_nat k) (cs ! k)))" for t s cs
    by (induction t s cs rule: number_from.induct) (auto simp: nth_Cons ac_simps split: nat.split)
  obtain w where w: "write_loop (\<lambda>_. True) sw data
      = (w, number_from (swTopic sw) (swSeq sw) (chunks data), WroteAll)"
    "swSeq w = swSeq sw + of_nat (length (chunks data))"
    using write_loop_chunks [OF assms(1-3)] by blast
  then have eq: "sw' = w" "ms = number_from (swTopic sw) (swSeq sw) (chunks data)" "out = WroteAll"
    using assms(4) by simp_all
  have "\<forall>c \<in> set (chunks data). c \<noteq> [] \<and> length c \<le> 65536"
    using chunks_size [of _ data] by (simp add: MaxPayloadSize_def)
  then show ?thesis
    using nth [of "swTopic sw" "swSeq sw" "chunks data"] concat_chunks [of data] w(2)
    by (auto simp: eq intro: exI [of _ "chunks data"])
qed

theorem write_numbers_chunks_witness:
  "\<exists>sw' ms. write_loop (\<lambda>_. True) (NewSequenceWriter ''t'' (NewFlowControl FlowControlWindow)) [1, 2, 3] = (sw', ms, WroteAll)
     \<and> swSeq sw' = of_nat (length ms)"
proof -
  let ?sw = "NewSequenceWriter ''t'' (NewFlowControl FlowControlWindow)"
  obtain sw' ms out where w: "write_loop (\<lambda>_. True) ?sw [1, 2, 3] = (sw', ms, out)"
    by (cases "write_loop (\<lambda>_. True) ?sw [1, 2, 3]")
  have "fc_ok (swFc ?sw)" "fc_used (swFc ?sw) + length [1::byte, 2, 3] \<le> 262144"
    "unat (fcSent (swFc ?sw)) + length [1::byte, 2, 3] < 2 ^ 64"
    by (simp_all add: NewSequenceWriter_def NewFlowControl_def fc_ok_def fc_inv_def fc_used_def outstanding_def
        FlowControlWindow_def)
  from write_numbers_chunks [OF this w] w show ?thesis by (simp add: NewSequenceWriter_def)
qed

end
