(* ===== verification/Sessions.thy ===== *)
theory Sessions
  imports Manager Writer
begin

text \<open>
  The sessions of \<open>internal/tunnel\<close>: \<open>TCPSession\<close>, \<open>ExecSession\<close>, \<open>ShellSession\<close> and
  \<open>ExecClientSession\<close>. Their goroutines are in theory \<open>Loops\<close>, the table and the heap of a peer in
  theory \<open>Node\<close>.

  The four structs share most fields, so one record models them with the kind as a field; what a
  kind does not have keeps its initial value. A session is a pointer in the code: the peer's
  sessions live in a heap, the manager maps ids to pointers, and \<open>Close\<close> runs the close hook,
  which removes the id from the manager.

  A call of \<open>HandleData\<close> that finds the reorder buffer's mutex held (an earlier call is blocked in
  its drain) waits in \<open>ssQueue\<close>.
\<close>

section \<open>Sessions\<close>

datatype session_kind = KTCP | KExec | KShell | KExecClient

datatype resource = NoResource | ResourceOpen | ResourceClosed

record session =
  ssId :: string
  ssKind :: session_kind
  ssControlTopic :: string
  ssCommand :: string
  ssReorder :: rb_conf
  ssQueue :: "(u32 \<times> byte list) list"
  ssWriter :: SequenceWriter
  ssStarted :: bool
  ssCancelled :: bool
  ssTimeout :: int
  ssConn :: resource
  ssWinSize :: "(u16 \<times> u16) option"
  ssPgid :: int
  ssSignals :: "nat list"
  ssClosed :: bool
  ssDone :: bool
  ssHook :: bool

definition new_session :: "session_kind \<Rightarrow> string \<Rightarrow> string \<Rightarrow> string \<Rightarrow> session" where
  "new_session k i controlTopic dataTopic = \<lparr>ssId = i, ssKind = k, ssControlTopic = controlTopic,
     ssCommand = [], ssReorder = (NewReorderBuffer ReorderBufSize, Idle), ssQueue = [],
     ssWriter = NewSequenceWriter dataTopic (NewFlowControl FlowControlWindow),
     ssStarted = False, ssCancelled = False, ssTimeout = 0, ssConn = NoResource, ssWinSize = None,
     ssPgid = 0, ssSignals = [], ssClosed = False, ssDone = False, ssHook = False\<rparr>"

definition NewTCPSession :: "string \<Rightarrow> string \<Rightarrow> string \<Rightarrow> session" where
  "NewTCPSession i controlTopic dataTopic =
     (new_session KTCP i controlTopic dataTopic)\<lparr>ssConn := ResourceOpen\<rparr>"

definition NewExecSession :: "string \<Rightarrow> string \<Rightarrow> string \<Rightarrow> string \<Rightarrow> session" where
  "NewExecSession i command controlTopic dataTopic =
     (new_session KExec i controlTopic dataTopic)\<lparr>ssCommand := command\<rparr>"

definition NewShellSession :: "string \<Rightarrow> string \<Rightarrow> string \<Rightarrow> session" where
  "NewShellSession i controlTopic dataTopic = new_session KShell i controlTopic dataTopic"

text \<open>The client's end of an exec or shell session has no writer of its own: only its window.\<close>

definition NewExecClientSession :: "string \<Rightarrow> session" where
  "NewExecClientSession i = new_session KExecClient i [] []"

fun kind_mode :: "session_kind \<Rightarrow> string" where
  "kind_mode KTCP = SessionModeTCP"
| "kind_mode KExec = SessionModeExec"
| "kind_mode KShell = SessionModeShell"
| "kind_mode KExecClient = SessionModeExec"

definition SetOnClose :: "session \<Rightarrow> session" where
  "SetOnClose s = s\<lparr>ssHook := True\<rparr>"

lemmas new_session_defs = new_session_def NewTCPSession_def NewExecSession_def NewShellSession_def
  NewExecClientSession_def

subsection \<open>Start\<close>

text \<open>
  \<open>Start\<close> derives the cancellable context and starts the goroutines. Only the shell can fail:
  \<open>shellErr\<close> is the error of opening the terminal or of starting the shell on it, whether the
  master end had been stored by then or not (\<open>ptmx\<close> is set right after it is opened and closed
  on the later errors).
\<close>

datatype shell_start = ShellStarted | NoPTY string | ShellFailed string

definition session_start :: "shell_start \<Rightarrow> session \<Rightarrow> session \<times> string option" where
  "session_start sh s =
     (let s1 = s\<lparr>ssStarted := True\<rparr> in
      case ssKind s of
        KShell \<Rightarrow> (case sh of
            ShellStarted \<Rightarrow> (s1\<lparr>ssConn := ResourceOpen\<rparr>, None)
          | NoPTY e \<Rightarrow> (s1, Some e)
          | ShellFailed e \<Rightarrow> (s1\<lparr>ssConn := ResourceClosed\<rparr>, Some e))
      | _ \<Rightarrow> (s1, None))"

subsection \<open>Data and acknowledgements\<close>

definition HandleData :: "u32 \<Rightarrow> byte list \<Rightarrow> session \<Rightarrow> session" where
  "HandleData seq p s = (case ssReorder s of
     (rb, Idle) \<Rightarrow> (case Insert seq p rb of (rb', out) \<Rightarrow> s\<lparr>ssReorder := (rb', thread_of out)\<rparr>)
   | _ \<Rightarrow> s\<lparr>ssQueue := ssQueue s @ [(seq, p)]\<rparr>)"

text \<open>
  \<open>UpdateFlowControl\<close> is a method of every kind but \<open>ExecSession\<close>: the handlers find it with a
  type assertion and skip a session that lacks it.
\<close>

fun has_UpdateFlowControl :: "session_kind \<Rightarrow> bool" where
  "has_UpdateFlowControl KExec = False"
| "has_UpdateFlowControl _ = True"

definition UpdateFlowControl :: "u64 \<Rightarrow> session \<Rightarrow> session" where
  "UpdateFlowControl acked s =
     s\<lparr>ssWriter := (ssWriter s)\<lparr>swFc := UpdateAck acked (swFc (ssWriter s))\<rparr>\<rparr>"

definition session_ack :: "u64 \<Rightarrow> session \<Rightarrow> session" where
  "session_ack acked s = (if has_UpdateFlowControl (ssKind s) then UpdateFlowControl acked s else s)"

text \<open>No terminal: nothing to do. A terminal that was closed: the \<open>ioctl\<close> fails and is logged.\<close>

definition Resize :: "u16 \<Rightarrow> u16 \<Rightarrow> session \<Rightarrow> session" where
  "Resize cols rows s =
     (if ssConn s = ResourceOpen then s\<lparr>ssWinSize := Some (cols, rows)\<rparr> else s)"

subsection \<open>Control messages a session sends\<close>

definition close_msg :: "string \<Rightarrow> int option \<Rightarrow> string \<Rightarrow> ControlMessage" where
  "close_msg i exitCode err = zeroMessage\<lparr>cmType := MessageTypeClose, cmSessionID := i,
     cmExitCode := exitCode, cmError := err\<rparr>"

definition ack_msg :: "string \<Rightarrow> u64 \<Rightarrow> ControlMessage" where
  "ack_msg i bytes = zeroMessage\<lparr>cmType := MessageTypeAck, cmSessionID := i, cmAckBytes := bytes\<rparr>"

definition sendCloseMsg :: "session \<Rightarrow> PubMessage" where
  "sendCloseMsg s = control_pub (ssControlTopic s) 1 [] (close_msg (ssId s) None [])"

definition exec_sendClose :: "session \<Rightarrow> int option \<Rightarrow> string \<Rightarrow> PubMessage" where
  "exec_sendClose s exitCode err = control_pub (ssControlTopic s) 1 [] (close_msg (ssId s) exitCode err)"

definition shell_sendClose :: "session \<Rightarrow> int option \<Rightarrow> PubMessage" where
  "shell_sendClose s exitCode = control_pub (ssControlTopic s) 1 [] (close_msg (ssId s) exitCode [])"

definition session_sendAck :: "session \<Rightarrow> u64 \<Rightarrow> PubMessage" where
  "session_sendAck s bytes = control_pub (ssControlTopic s) 1 [] (ack_msg (ssId s) bytes)"

subsection \<open>Close\<close>

definition SIGINT :: nat where "SIGINT = 2"
definition SIGKILL :: nat where "SIGKILL = 9"
definition SIGTERM :: nat where "SIGTERM = 15"

definition close_reorder :: "session \<Rightarrow> session" where
  "close_reorder s = s\<lparr>ssReorder := (ReorderBuffer_Close (fst (ssReorder s)), snd (ssReorder s))\<rparr>"

definition cancel_ctx :: "session \<Rightarrow> session" where
  "cancel_ctx s = (if ssStarted s then s\<lparr>ssCancelled := True\<rparr> else s)"

definition close_conn :: "session \<Rightarrow> session" where
  "close_conn s = (if ssConn s = ResourceOpen then s\<lparr>ssConn := ResourceClosed\<rparr> else s)"

text \<open>The bodies of the four \<open>closeOnce\<close> functions, without the close hook.\<close>

definition TCP_close :: "session \<Rightarrow> session \<times> PubMessage list" where
  "TCP_close s = ((close_conn (close_reorder (cancel_ctx s)))\<lparr>ssDone := True\<rparr>, [sendCloseMsg s])"

definition Exec_close :: "session \<Rightarrow> session \<times> PubMessage list" where
  "Exec_close s =
     (close_reorder (if ssPgid s > 0 then s\<lparr>ssSignals := ssSignals s @ [SIGINT, SIGKILL]\<rparr>
                     else cancel_ctx s), [])"

definition Shell_close :: "session \<Rightarrow> session \<times> PubMessage list" where
  "Shell_close s = (close_conn (close_reorder (cancel_ctx s)), [])"

definition ExecClient_close :: "session \<Rightarrow> session \<times> PubMessage list" where
  "ExecClient_close s = ((close_reorder (cancel_ctx s))\<lparr>ssDone := True\<rparr>, [])"

fun close_body :: "session_kind \<Rightarrow> session \<Rightarrow> session \<times> PubMessage list" where
  "close_body KTCP s = TCP_close s"
| "close_body KExec s = Exec_close s"
| "close_body KShell s = Shell_close s"
| "close_body KExecClient s = ExecClient_close s"

text \<open>\<open>Close\<close>: the session, what it publishes, and whether the close hook runs.\<close>

definition session_Close :: "session \<Rightarrow> session \<times> PubMessage list \<times> bool" where
  "session_Close s =
     (if ssClosed s then (s, [], False)
      else case close_body (ssKind s) (s\<lparr>ssClosed := True\<rparr>) of (s', out) \<Rightarrow> (s', out, ssHook s))"

lemmas close_defs = close_reorder_def cancel_ctx_def close_conn_def TCP_close_def Exec_close_def
  Shell_close_def ExecClient_close_def

lemma close_body_fields [simp]:
  "ssId (fst (close_body k s)) = ssId s" "ssKind (fst (close_body k s)) = ssKind s"
  "ssClosed (fst (close_body k s)) = ssClosed s" "ssStarted (fst (close_body k s)) = ssStarted s"
  "ssHook (fst (close_body k s)) = ssHook s"
  by (cases k; simp add: close_defs)+

lemma session_Close_fields [simp]:
  "ssId (fst (session_Close s)) = ssId s" "ssKind (fst (session_Close s)) = ssKind s"
  "ssClosed (fst (session_Close s))" "ssStarted (fst (session_Close s)) = ssStarted s"
  "ssHook (fst (session_Close s)) = ssHook s"
  using close_body_fields [of "ssKind s" "s\<lparr>ssClosed := True\<rparr>"]
  by (auto simp: session_Close_def split: prod.splits simp del: close_body_fields)

text \<open>The second call does nothing.\<close>

lemma session_Close_twice: "session_Close (fst (session_Close s)) = (fst (session_Close s), [], False)"
  by (subst session_Close_def) simp

lemma session_Close_out:
  "fst (snd (session_Close s)) = (if \<not> ssClosed s \<and> ssKind s = KTCP then [sendCloseMsg s] else [])"
  by (cases "ssKind s") (simp_all add: session_Close_def close_defs sendCloseMsg_def)

lemma session_Close_hook: "snd (snd (session_Close s)) = (\<not> ssClosed s \<and> ssHook s)"
  by (simp add: session_Close_def split: prod.splits)

text \<open>After \<open>Close\<close> the buffer is closed and the connection or terminal is not left open.\<close>

lemma session_Close_releases:
  assumes "\<not> ssClosed s"
  shows "rbClosed (fst (ssReorder (fst (session_Close s))))"
    and "ssKind s = KTCP \<or> ssKind s = KShell \<Longrightarrow> ssConn (fst (session_Close s)) \<noteq> ResourceOpen"
    and "ssKind s = KTCP \<or> ssKind s = KExecClient \<Longrightarrow> ssDone (fst (session_Close s))"
    and "ssKind s \<noteq> KExec \<Longrightarrow> ssStarted s \<Longrightarrow> ssCancelled (fst (session_Close s))"
  using assms
  by (cases "ssKind s"; simp add: session_Close_def close_defs ReorderBuffer_Close_def)+

subsection \<open>The life of a session\<close>

datatype lifecycle = Created | Running | Ended

fun life_rank :: "lifecycle \<Rightarrow> nat" where
  "life_rank Created = 0"
| "life_rank Running = 1"
| "life_rank Ended = 2"

instantiation lifecycle :: linorder
begin

definition less_eq_lifecycle :: "lifecycle \<Rightarrow> lifecycle \<Rightarrow> bool" where
  "less_eq_lifecycle a b \<longleftrightarrow> life_rank a \<le> life_rank b"

definition less_lifecycle :: "lifecycle \<Rightarrow> lifecycle \<Rightarrow> bool" where
  "less_lifecycle a b \<longleftrightarrow> life_rank a < life_rank b"

instance
proof
  fix x y z :: lifecycle
  show "x < y \<longleftrightarrow> x \<le> y \<and> \<not> y \<le> x"
    by (auto simp: less_eq_lifecycle_def less_lifecycle_def)
  show "x \<le> x" by (simp add: less_eq_lifecycle_def)
  show "x \<le> z" if "x \<le> y" "y \<le> z" using that by (simp add: less_eq_lifecycle_def)
  show "x = y" if "x \<le> y" "y \<le> x"
    using that by (cases x; cases y) (simp_all add: less_eq_lifecycle_def)
  show "x \<le> y \<or> y \<le> x" by (auto simp: less_eq_lifecycle_def)
qed

end

definition life :: "session \<Rightarrow> lifecycle" where
  "life s = (if ssClosed s then Ended else if ssStarted s then Running else Created)"

lemma life_frame [simp]:
  "life (HandleData seq p s) = life s" "life (session_ack a s) = life s" "life (Resize c r s) = life s"
  "life (SetOnClose s) = life s"
  by (auto simp: life_def HandleData_def session_ack_def UpdateFlowControl_def Resize_def SetOnClose_def
      split: prod.split insert_thread.split)

lemma life_start: "life s \<le> life (fst (session_start sh s))"
  by (auto simp: life_def session_start_def Let_def less_eq_lifecycle_def
      split: session_kind.split shell_start.split)

lemma life_Close: "life (fst (session_Close s)) = Ended"
  by (simp add: life_def)

lemma life_top: "l \<le> Ended"
  by (cases l) (simp_all add: less_eq_lifecycle_def)

section \<open>Main properties\<close>

text \<open>C25. Closing a session takes effect once. It closes the reorder buffer and the connection or terminal; its context is cancelled unless it is a running command; only a TCP session announces its close; the hook runs if there is one.\<close>

theorem close_once:
  assumes "session_Close s = (s', out, hook)"
  shows "session_Close s' = (s', [], False)
     \<and> (if ssClosed s then s' = s \<and> out = [] \<and> \<not> hook
        else ssClosed s' \<and> hook = ssHook s \<and> out = (if ssKind s = KTCP then [sendCloseMsg s] else [])
          \<and> rbClosed (fst (ssReorder s'))
          \<and> (ssKind s = KTCP \<or> ssKind s = KShell \<longrightarrow> ssConn s' \<noteq> ResourceOpen)
          \<and> (ssKind s \<noteq> KExec \<or> ssPgid s \<le> 0 \<longrightarrow> ssStarted s \<longrightarrow> ssCancelled s')
          \<and> (ssKind s = KExec \<and> ssPgid s > 0 \<longrightarrow> ssSignals s' = ssSignals s @ [SIGINT, SIGKILL] \<and> ssCancelled s' = ssCancelled s))"
proof (cases "ssClosed s")
  case True
  then show ?thesis using assms by (auto simp: session_Close_def)
next
  case False
  have s': "s' = fst (session_Close s)" "out = fst (snd (session_Close s))" "hook = snd (snd (session_Close s))"
    using assms by simp_all
  have "ssKind s \<noteq> KExec \<or> ssPgid s \<le> 0 \<longrightarrow> ssStarted s \<longrightarrow> ssCancelled s'"
    "ssKind s = KExec \<and> ssPgid s > 0 \<longrightarrow> ssSignals s' = ssSignals s @ [SIGINT, SIGKILL] \<and> ssCancelled s' = ssCancelled s"
    using False by (cases "ssKind s"; simp add: s'(1) session_Close_def close_defs)+
  then show ?thesis
    using False session_Close_twice [of s] session_Close_out [of s] session_Close_hook [of s]
      session_Close_releases [OF False] by (simp add: s')
qed

theorem close_once_witness:
  "session_Close (fst (session_Close (NewShellSession ''a'' [] []))) = (fst (session_Close (NewShellSession ''a'' [] [])), [], False)"
proof -
  obtain s' out hook where "session_Close (NewShellSession ''a'' [] []) = (s', out, hook)"
    by (cases "session_Close (NewShellSession ''a'' [] [])")
  with close_once [OF this] show ?thesis by simp
qed

end
