(* ===== verification/Pty.thy ===== *)
theory Pty
  imports Sessions
begin

text \<open>
  \<open>internal/tunnel/pty_linux.go\<close> and \<open>pty_darwin.go\<close>, and what \<open>ShellSession.Start\<close> does with them: the
  files it opens, the ioctls on the master end, the shell it starts on the slave end. The answers of the
  operating system are an argument; the open files of the process are the state, so that a leak
  would show.
\<close>

section \<open>The operating system\<close>

datatype platform = Linux | Darwin

datatype ioctl_request = TIOCGPTN | TIOCSPTLCK | TIOCSWINSZ | TIOCPTYGNAME | TIOCPTYGRANT | TIOCPTYUNLK

record pty_os =
  osOpenErr :: "string \<Rightarrow> string option"
  osIoctlErr :: "ioctl_request \<Rightarrow> string option"
  osPtsNumber :: u32
  osNameBuf :: string
  osShellEnv :: string
  osHasBash :: bool
  osStartErr :: "string \<Rightarrow> string option"

record winSize =
  wsRows :: u16
  wsCols :: u16
  wsX :: u16
  wsY :: u16

record pty_world =
  pwNext :: nat
  pwFiles :: "nat \<Rightarrow> string option"
  pwShells :: "(string \<times> string) list"
  pwWinSize :: "winSize option"

definition open_file :: "pty_os \<Rightarrow> string \<Rightarrow> pty_world \<Rightarrow> pty_world \<times> (string + nat)" where
  "open_file os path w = (case osOpenErr os path of
     Some e \<Rightarrow> (w, Inl e)
   | None \<Rightarrow> (w\<lparr>pwNext := pwNext w + 1, pwFiles := (pwFiles w)(pwNext w \<mapsto> path)\<rparr>, Inr (pwNext w)))"

definition close_file :: "nat \<Rightarrow> pty_world \<Rightarrow> pty_world" where
  "close_file fd w = w\<lparr>pwFiles := (pwFiles w)(fd := None)\<rparr>"

definition ioctl :: "pty_os \<Rightarrow> nat \<Rightarrow> ioctl_request \<Rightarrow> pty_world \<Rightarrow> string option" where
  "ioctl os fd req w = (if pwFiles w fd = None then Some ''bad file descriptor'' else osIoctlErr os req)"

section \<open>The pseudo-terminal\<close>

definition unlockPT_linux :: "pty_os \<Rightarrow> nat \<Rightarrow> pty_world \<Rightarrow> string option" where
  "unlockPT_linux os fd w = map_option (\<lambda>e. ''TIOCSPTLCK: '' @ e) (ioctl os fd TIOCSPTLCK w)"

definition unlockPT_darwin :: "pty_os \<Rightarrow> nat \<Rightarrow> pty_world \<Rightarrow> string option" where
  "unlockPT_darwin os fd w = map_option (\<lambda>e. ''TIOCPTYUNLK: '' @ e) (ioctl os fd TIOCPTYUNLK w)"

definition grantPT :: "pty_os \<Rightarrow> nat \<Rightarrow> pty_world \<Rightarrow> string option" where
  "grantPT os fd w = map_option (\<lambda>e. ''TIOCPTYGRANT: '' @ e) (ioctl os fd TIOCPTYGRANT w)"

definition openPTY_linux :: "pty_os \<Rightarrow> pty_world \<Rightarrow> pty_world \<times> (string + nat)" where
  "openPTY_linux os w = (case open_file os ''/dev/ptmx'' w of
     (w1, Inl e) \<Rightarrow> (w1, Inl e)
   | (w1, Inr ptmx) \<Rightarrow> (case unlockPT_linux os ptmx w1 of
       Some e \<Rightarrow> (close_file ptmx w1, Inl e)
     | None \<Rightarrow> (w1, Inr ptmx)))"

definition openPTY_darwin :: "pty_os \<Rightarrow> pty_world \<Rightarrow> pty_world \<times> (string + nat)" where
  "openPTY_darwin os w = (case open_file os ''/dev/ptmx'' w of
     (w1, Inl e) \<Rightarrow> (w1, Inl e)
   | (w1, Inr ptmx) \<Rightarrow> (case grantPT os ptmx w1 of
       Some e \<Rightarrow> (close_file ptmx w1, Inl e)
     | None \<Rightarrow> (case unlockPT_darwin os ptmx w1 of
         Some e \<Rightarrow> (close_file ptmx w1, Inl e)
       | None \<Rightarrow> (w1, Inr ptmx))))"

definition ptsName_linux :: "pty_os \<Rightarrow> nat \<Rightarrow> pty_world \<Rightarrow> string + string" where
  "ptsName_linux os fd w = (case ioctl os fd TIOCGPTN w of
     Some e \<Rightarrow> Inl (''TIOCGPTN: '' @ e)
   | None \<Rightarrow> Inr (''/dev/pts/'' @ show_nat (unat (osPtsNumber os))))"

text \<open>The kernel fills a buffer of 128 bytes; the name ends before the first zero byte.\<close>

definition ptsName_darwin :: "pty_os \<Rightarrow> nat \<Rightarrow> pty_world \<Rightarrow> string + string" where
  "ptsName_darwin os fd w = (case ioctl os fd TIOCPTYGNAME w of
     Some e \<Rightarrow> Inl (''TIOCPTYGNAME: '' @ e)
   | None \<Rightarrow> Inr (takeWhile (\<lambda>c. c \<noteq> CHR 0x00) (take 128 (osNameBuf os))))"

definition setWinSize :: "pty_os \<Rightarrow> nat \<Rightarrow> u16 \<Rightarrow> u16 \<Rightarrow> pty_world \<Rightarrow> pty_world \<times> string option" where
  "setWinSize os fd cols rows w =
     (let ws = \<lparr>wsRows = rows, wsCols = cols, wsX = 0, wsY = 0\<rparr> in
      case ioctl os fd TIOCSWINSZ w of
        Some e \<Rightarrow> (w, Some (''TIOCSWINSZ: '' @ e))
      | None \<Rightarrow> (w\<lparr>pwWinSize := Some ws\<rparr>, None))"

definition openPTY :: "platform \<Rightarrow> pty_os \<Rightarrow> pty_world \<Rightarrow> pty_world \<times> (string + nat)" where
  "openPTY pf os w = (case pf of Linux \<Rightarrow> openPTY_linux os w | Darwin \<Rightarrow> openPTY_darwin os w)"

definition ptsName :: "platform \<Rightarrow> pty_os \<Rightarrow> nat \<Rightarrow> pty_world \<Rightarrow> string + string" where
  "ptsName pf os fd w = (case pf of Linux \<Rightarrow> ptsName_linux os fd w | Darwin \<Rightarrow> ptsName_darwin os fd w)"

section \<open>The start of a shell\<close>

definition defaultShell :: "pty_os \<Rightarrow> string" where
  "defaultShell os = (if osHasBash os then ''bash'' else ''sh'')"

definition shell_command :: "pty_os \<Rightarrow> string" where
  "shell_command os = (if osShellEnv os = [] then defaultShell os else osShellEnv os)"

text \<open>The result: what \<open>session_start\<close> needs to know, and the master end when it stays open.\<close>

definition ShellSession_Start :: "platform \<Rightarrow> pty_os \<Rightarrow> pty_world \<Rightarrow> pty_world \<times> shell_start \<times> nat option" where
  "ShellSession_Start pf os w = (case openPTY pf os w of
     (w1, Inl e) \<Rightarrow> (w1, NoPTY e, None)
   | (w1, Inr ptmx) \<Rightarrow> (case ptsName pf os ptmx w1 of
       Inl e \<Rightarrow> (close_file ptmx w1, ShellFailed e, None)
     | Inr slaveName \<Rightarrow> (case open_file os slaveName w1 of
         (w2, Inl e) \<Rightarrow> (close_file ptmx w2, ShellFailed e, None)
       | (w2, Inr slave) \<Rightarrow> (case osStartErr os (shell_command os) of
           Some e \<Rightarrow> (close_file ptmx (close_file slave w2), ShellFailed e, None)
         | None \<Rightarrow> (close_file slave (w2\<lparr>pwShells := pwShells w2 @ [(shell_command os, slaveName)]\<rparr>),
             ShellStarted, Some ptmx)))))"

section \<open>What stays open\<close>

definition fresh_files :: "pty_world \<Rightarrow> bool" where
  "fresh_files w \<longleftrightarrow> (\<forall>fd \<ge> pwNext w. pwFiles w fd = None)"

lemmas pty_defs = open_file_def close_file_def ioctl_def unlockPT_linux_def unlockPT_darwin_def grantPT_def
  openPTY_linux_def openPTY_darwin_def ptsName_linux_def ptsName_darwin_def openPTY_def ptsName_def

text \<open>Opening the terminal leaves the master end open, or nothing.\<close>

lemma openPTY_cases:
  assumes "fresh_files w"
  obtains (failed) w1 e where "openPTY pf os w = (w1, Inl e)" "pwFiles w1 = pwFiles w" "pwShells w1 = pwShells w"
      "pwWinSize w1 = pwWinSize w" "fresh_files w1"
  | (opened) "openPTY pf os w
        = (w\<lparr>pwNext := Suc (pwNext w), pwFiles := (pwFiles w)(pwNext w \<mapsto> ''/dev/ptmx'')\<rparr>, Inr (pwNext w))"
  using assms
  by (cases pf; cases "osOpenErr os ''/dev/ptmx''"; cases "osIoctlErr os TIOCSPTLCK"; cases "osIoctlErr os TIOCPTYGRANT";
      cases "osIoctlErr os TIOCPTYUNLK") (auto simp: pty_defs fresh_files_def fun_upd_idem)

lemma ShellSession_Start_files:
  assumes "fresh_files w" and "ShellSession_Start pf os w = (w', outcome, master)"
  shows "(\<exists>slaveName. outcome = ShellStarted \<and> master = Some (pwNext w)
          \<and> pwFiles w' = (pwFiles w)(pwNext w \<mapsto> ''/dev/ptmx'')
          \<and> ptsName pf os (pwNext w) w' = Inr slaveName
          \<and> pwShells w' = pwShells w @ [(shell_command os, slaveName)])
       \<or> (outcome \<noteq> ShellStarted \<and> master = None \<and> pwFiles w' = pwFiles w \<and> pwShells w' = pwShells w)"
using assms(1)
proof (cases rule: openPTY_cases [where pf = pf and os = os])
  case (failed w1 e)
  with assms(2) show ?thesis by (auto simp: ShellSession_Start_def)
next
  case opened
  have n: "pwFiles w (pwNext w) = None" "pwFiles w (Suc (pwNext w)) = None"
    using assms(1) by (simp_all add: fresh_files_def)
  let ?w1 = "w\<lparr>pwNext := Suc (pwNext w), pwFiles := (pwFiles w)(pwNext w \<mapsto> ''/dev/ptmx'')\<rparr>"
  show ?thesis
  proof (cases "ptsName pf os (pwNext w) ?w1")
    case (Inl e)
    with assms(2) n(1) show ?thesis by (auto simp: ShellSession_Start_def opened close_file_def fun_upd_idem)
  next
    case (Inr name)
    have same: "ptsName pf os (pwNext w) w1 = Inr name" if "pwFiles w1 (pwNext w) = Some ''/dev/ptmx''" for w1
      using that Inr by (auto simp: ptsName_def ptsName_linux_def ptsName_darwin_def ioctl_def split: platform.splits)
    have files: "(pwFiles w)(pwNext w \<mapsto> p, Suc (pwNext w) := None) = (pwFiles w)(pwNext w \<mapsto> p)"
        "(pwFiles w)(pwNext w := None, Suc (pwNext w) := None) = pwFiles w"
        "(pwFiles w)(Suc (pwNext w) := None, pwNext w := None) = pwFiles w" for p
      using n by auto
    show ?thesis
      using assms(2) n
      by (cases "osOpenErr os name"; cases "osStartErr os (shell_command os)")
         (auto simp: ShellSession_Start_def opened Inr open_file_def close_file_def files intro!: same)
  qed
qed

text \<open>When it succeeds: every request is answered, the slave can be opened and the shell started.\<close>

definition needed_ioctls :: "platform \<Rightarrow> ioctl_request set" where
  "needed_ioctls pf = (case pf of
     Linux \<Rightarrow> {TIOCSPTLCK, TIOCGPTN} | Darwin \<Rightarrow> {TIOCPTYGRANT, TIOCPTYUNLK, TIOCPTYGNAME})"

definition slave_path :: "platform \<Rightarrow> pty_os \<Rightarrow> string" where
  "slave_path pf os = (case pf of
     Linux \<Rightarrow> ''/dev/pts/'' @ show_nat (unat (osPtsNumber os))
   | Darwin \<Rightarrow> takeWhile (\<lambda>c. c \<noteq> CHR 0x00) (take 128 (osNameBuf os)))"

definition os_willing :: "platform \<Rightarrow> pty_os \<Rightarrow> bool" where
  "os_willing pf os \<longleftrightarrow> osOpenErr os ''/dev/ptmx'' = None \<and> (\<forall>req \<in> needed_ioctls pf. osIoctlErr os req = None)
     \<and> osOpenErr os (slave_path pf os) = None \<and> osStartErr os (shell_command os) = None"

lemma ShellSession_Start_succeeds:
  "fst (snd (ShellSession_Start pf os w)) = ShellStarted \<longleftrightarrow> os_willing pf os"
  by (cases pf) (auto simp: ShellSession_Start_def os_willing_def needed_ioctls_def slave_path_def pty_defs
      split: option.splits)

section \<open>Main properties\<close>

text \<open>C26. Starting a shell leaves nothing behind when it fails, at whatever call, and exactly the open master end and one shell on the matching slave end when it succeeds, which it does exactly when every system call it makes succeeds. This holds on both platforms.\<close>

theorem shell_files:
  assumes "fresh_files w" and "ShellSession_Start pf os w = (w', outcome, master)"
    and "ssKind s = KShell" and "ssConn s = NoResource" and "session_start outcome s = (s', err)"
  shows "(err = None \<longleftrightarrow> os_willing pf os)
    \<and> (if err = None then ssConn s' = ResourceOpen \<and> master = Some (pwNext w)
          \<and> pwFiles w' = (pwFiles w)(pwNext w \<mapsto> ''/dev/ptmx'')
          \<and> pwShells w' = pwShells w @ [(shell_command os, slave_path pf os)]
        else ssConn s' \<noteq> ResourceOpen \<and> master = None \<and> pwFiles w' = pwFiles w \<and> pwShells w' = pwShells w)"
proof -
  have start: "outcome = ShellStarted \<longleftrightarrow> os_willing pf os"
    using ShellSession_Start_succeeds [of pf os w] assms(2) by simp
  have err: "err = None \<longleftrightarrow> outcome = ShellStarted" "ssConn s' = ResourceOpen \<longleftrightarrow> outcome = ShellStarted"
    using assms(3-5) by (auto simp: session_start_def Let_def split: shell_start.splits)
  have "n = slave_path pf os" if "ptsName pf os fd w1 = Inr n" for fd n w1
    using that by (auto simp: ptsName_def ptsName_linux_def ptsName_darwin_def slave_path_def
        split: platform.splits option.splits)
  with ShellSession_Start_files [OF assms(1,2)] start err show ?thesis by auto
qed

theorem shell_files_witness:
  "\<exists>w' s'. ShellSession_Start Linux
      \<lparr>osOpenErr = \<lambda>_. None, osIoctlErr = \<lambda>_. None, osPtsNumber = 7, osNameBuf = [], osShellEnv = [],
       osHasBash = True, osStartErr = \<lambda>_. None\<rparr>
      \<lparr>pwNext = 3, pwFiles = Map.empty, pwShells = [], pwWinSize = None\<rparr> = (w', ShellStarted, Some 3)
    \<and> session_start ShellStarted (NewShellSession ''s'' [] []) = (s', None) \<and> ssConn s' = ResourceOpen
    \<and> pwFiles w' = [3 \<mapsto> ''/dev/ptmx''] \<and> pwShells w' = [(''bash'', ''/dev/pts/'' @ show_nat 7)]"
proof -
  let ?os = "\<lparr>osOpenErr = \<lambda>_. None, osIoctlErr = \<lambda>_. None, osPtsNumber = 7, osNameBuf = [], osShellEnv = [],
       osHasBash = True, osStartErr = \<lambda>_. None\<rparr> :: pty_os"
  let ?w = "\<lparr>pwNext = 3, pwFiles = Map.empty, pwShells = [], pwWinSize = None\<rparr> :: pty_world"
  let ?s = "NewShellSession ''s'' [] []"
  have fresh: "fresh_files ?w" by (simp add: fresh_files_def)
  have kind: "ssKind ?s = KShell" "ssConn ?s = NoResource" by (simp_all add: new_session_defs)
  obtain w' outcome master where r: "ShellSession_Start Linux ?os ?w = (w', outcome, master)"
    by (cases "ShellSession_Start Linux ?os ?w")
  obtain s' err where t: "session_start outcome ?s = (s', err)" by (cases "session_start outcome ?s")
  have will: "os_willing Linux ?os" by (simp add: os_willing_def)
  have "outcome = ShellStarted" using ShellSession_Start_succeeds [of Linux ?os ?w] will r by simp
  with shell_files [OF fresh r kind t] will r t show ?thesis
    by (auto simp: shell_command_def defaultShell_def slave_path_def)
qed

end
