(* ===== verification/Delivery.thy ===== *)
theory Delivery
  imports Sessions
begin

text \<open>
  The receiving side of one session over time: frames that arrive through \<open>HandleData\<close>, and the
  goroutine that takes payloads from the reorder buffer's channel. Taking one makes room, so a call of
  \<open>Insert\<close> that is blocked at its send goes on, and when it returns the calls that wait for the mutex
  follow. The section ends with what a session's consumer gets, on the sessions as the peers have them.
\<close>

section \<open>Taking a payload\<close>

text \<open>The calls that waited for the mutex, until one blocks again.\<close>

fun resume_queue :: "(u32 \<times> byte list) list \<Rightarrow> ReorderBuffer \<Rightarrow> rb_conf \<times> (u32 \<times> byte list) list" where
  "resume_queue [] rb = ((rb, Idle), [])"
| "resume_queue ((seq, p) # q) rb = (case Insert seq p rb of
     (rb', Return e) \<Rightarrow> resume_queue q rb'
   | (rb', Blocked d) \<Rightarrow> ((rb', AtSend d), q))"

definition resume_insert :: "rb_conf \<Rightarrow> (u32 \<times> byte list) list \<Rightarrow> rb_conf \<times> (u32 \<times> byte list) list" where
  "resume_insert c q = (case c of
     (rb, AtSend p) \<Rightarrow>
       if DataCh_ready rb then (case insert_loop (Insert_send p rb) of
           (rb', Return e) \<Rightarrow> resume_queue q rb'
         | (rb', Blocked d) \<Rightarrow> ((rb', AtSend d), q))
       else (c, q)
   | _ \<Rightarrow> (c, q))"

definition session_take :: "session \<Rightarrow> session \<times> byte list option" where
  "session_take s = (case ssReorder s of (rb, th) \<Rightarrow> (case rbDataCh rb of
     [] \<Rightarrow> (s, None)
   | p # rest \<Rightarrow> (case resume_insert (rb\<lparr>rbDataCh := rest\<rparr>, th) (ssQueue s) of
       (c, q) \<Rightarrow> (s\<lparr>ssReorder := c, ssQueue := q\<rparr>, Some p))))"

text \<open>What happens to an open session from outside, and the payloads its consumer took.\<close>

datatype session_op = Arrive u32 "byte list" | Take | Credit u64 | NewSize u16 u16

fun session_do :: "session_op \<Rightarrow> session \<Rightarrow> session \<times> byte list list" where
  "session_do (Arrive seq p) s = (HandleData seq p s, [])"
| "session_do Take s = (case session_take s of (s', None) \<Rightarrow> (s', []) | (s', Some p) \<Rightarrow> (s', [p]))"
| "session_do (Credit a) s = (session_ack a s, [])"
| "session_do (NewSize c r) s = (Resize c r s, [])"

fun session_run :: "session_op list \<Rightarrow> session \<Rightarrow> session \<times> byte list list" where
  "session_run [] s = (s, [])"
| "session_run (op # ops) s =
     (case session_do op s of (s1, out) \<Rightarrow> (case session_run ops s1 of (s2, outs) \<Rightarrow> (s2, out @ outs)))"

section \<open>The session as a run of its buffer\<close>

text \<open>
  Frames that come from one stream; and an order of arrival in which every frame comes after all
  those it is a buffer's size or more ahead of.
\<close>

definition genuine :: "(nat \<Rightarrow> byte list) \<Rightarrow> nat \<Rightarrow> u32 \<times> byte list \<Rightarrow> bool" where
  "genuine pl N f \<longleftrightarrow> unat (fst f) < N \<and> snd f = pl (unat (fst f))"

fun in_reach :: "nat \<Rightarrow> nat set \<Rightarrow> nat list \<Rightarrow> bool" where
  "in_reach sz I [] \<longleftrightarrow> True"
| "in_reach sz I (k # ks) \<longleftrightarrow> {0..<Suc k - sz} \<subseteq> I \<and> in_reach sz (insert k I) ks"

lemma in_reach_snoc: "in_reach sz I (ks @ [k]) \<longleftrightarrow> in_reach sz I ks \<and> {0..<Suc k - sz} \<subseteq> I \<union> set ks"
  by (induction sz I ks rule: in_reach.induct) auto

lemma in_reach_append: "in_reach sz I (ks @ ls) \<longleftrightarrow> in_reach sz I ks \<and> in_reach sz (I \<union> set ks) ls"
  by (induction sz I ks rule: in_reach.induct) (auto simp: insert_commute Un_commute)

text \<open>
  The buffer has been reached by its own steps on frames of the stream. When \<open>b\<close> holds, the frames
  in \<open>I\<close> have been stored.
\<close>

definition reached :: "(nat \<Rightarrow> byte list) \<Rightarrow> nat \<Rightarrow> nat \<Rightarrow> bool \<Rightarrow> nat set \<Rightarrow> rb_conf \<Rightarrow> byte list list \<Rightarrow> bool" where
  "reached pl N sz b I c taken \<longleftrightarrow>
     (\<exists>es. run rb_step (NewReorderBuffer sz, Idle) es c \<and> received es = taken
        \<and> (\<forall>e \<in> set es. frame_ok pl N e) \<and> (b \<longrightarrow> I \<subseteq> stored es))"

lemma stored_append: "stored (es @ fs) = stored es \<union> stored fs"
  by (auto simp: stored_def)

lemma reached_step:
  assumes "reached pl N sz b I c taken" and "run rb_step c fs c'" and "\<forall>e \<in> set fs. frame_ok pl N e"
  shows "reached pl N sz b I c' (taken @ received fs)"
proof -
  obtain es where "run rb_step (NewReorderBuffer sz, Idle) es c" "received es = taken"
      "\<forall>e \<in> set es. frame_ok pl N e" "b \<longrightarrow> I \<subseteq> stored es"
    using assms(1) unfolding reached_def by blast
  with assms(2,3) show ?thesis
    unfolding reached_def by (intro exI [of _ "es @ fs"]) (auto simp: stored_append intro: run_append)
qed

lemma reached_drain:
  assumes "reached pl N sz b I c taken" and "run rb_step c fs c'" and "list_all drain_step fs"
  shows "reached pl N sz b I c' taken"
  using reached_step [OF assms(1,2)] assms(3) by (auto simp: received_drain list_all_iff intro: frame_ok_drain)

text \<open>A buffer between two calls, or in one that is blocked at a full channel.\<close>

definition calm :: "rb_conf \<Rightarrow> bool" where
  "calm c \<longleftrightarrow> (case c of (rb, th) \<Rightarrow> \<not> rbClosed rb \<and> th \<noteq> AtLoop \<and> (\<forall>p. th = AtSend p \<longrightarrow> \<not> DataCh_ready rb))"

lemma insert_loop_calm: "insert_loop rb = (rb', out) \<Longrightarrow> \<not> rbClosed rb \<Longrightarrow> calm (rb', thread_of out)"
proof (induction rb arbitrary: rb' out rule: insert_loop.induct)
  case (1 rb)
  show ?case
  proof (cases "Insert_pop rb")
    case None
    with "1.prems" show ?thesis by (auto simp: insert_loop.simps [of rb] calm_def)
  next
    case (Some q)
    obtain p rb1 where q: "q = (p, rb1)" by (cases q)
    have cl: "\<not> rbClosed rb1" "\<not> rbClosed (Insert_send p rb1)"
      using Some q "1.prems"(2) by (auto simp: Insert_pop_def Insert_send_def split: option.splits)
    show ?thesis
    proof (cases "DataCh_ready rb1")
      case True
      with "1.prems"(1) Some q have "insert_loop (Insert_send p rb1) = (rb', out)"
        by (simp add: insert_loop.simps [of rb])
      from "1.IH" [OF Some q [symmetric] True this cl(2)] show ?thesis .
    next
      case False
      with "1.prems"(1) Some q cl show ?thesis by (auto simp: insert_loop.simps [of rb] calm_def)
    qed
  qed
qed

lemma reached_loop:
  assumes "reached pl N sz b I (rb, AtLoop) taken" and "insert_loop rb = (rb', out)"
  shows "reached pl N sz b I (rb', thread_of out) taken"
  using insert_loop_run [OF assms(2)] reached_drain [OF assms(1)] by blast

text \<open>A call of \<open>Insert\<close> on a buffer that is free: in reach, its frame is stored.\<close>

lemma reached_Insert:
  assumes r: "reached pl N sz b I (rb, Idle) taken" and ins: "Insert seq p rb = (rb', out)"
    and g: "genuine pl N (seq, p)" and N: "N < 2 ^ 32" and cl: "\<not> rbClosed rb"
    and near: "b \<Longrightarrow> {0..<Suc (unat seq) - sz} \<subseteq> I"
  shows "reached pl N sz b (insert (unat seq) I) (rb', thread_of out) taken \<and> calm (rb', thread_of out)"
proof -
  obtain es where es: "run rb_step (NewReorderBuffer sz, Idle) es (rb, Idle)" "received es = taken"
      "\<forall>e \<in> set es. frame_ok pl N e" "b \<longrightarrow> I \<subseteq> stored es"
    using r unfolding reached_def by blast
  have inv: "rb_inv sz pl N es (rb, Idle)" by (rule rb_run_inv [OF es(1,3) N])
  obtain rb1 st where enter: "Insert_enter seq p rb = (rb1, st)" by (cases "Insert_enter seq p rb")
  show ?thesis
  proof (cases st)
    case (Returned e)
    with ins enter Insert_enter_return(1) [of seq p rb rb1 e] have eq: "rb' = rb" "rb1 = rb" "out = Return e"
      by (auto simp: Insert_def)
    have "unat seq \<in> stored es" if b
    proof -
      have "\<not> unat (rbNextSeq rb) + sz \<le> unat seq"
      proof
        assume "unat (rbNextSeq rb) + sz \<le> unat seq"
        with near [OF that] es(4) that have "unat (rbNextSeq rb) \<in> stored es" by fastforce
        with inv cl show False by (force simp: rb_inv_def unat_eq_iff)
      qed
      with enter Returned inv Insert_enter_refuses [of seq p rb] have "e \<noteq> Some ErrBufferFull"
        by (auto simp: rb_inv_def)
      then have "e = None" using enter Returned by (auto simp: Insert_enter_def split: if_splits)
      with Insert_enter_return(2) [of seq p rb rb1 e] enter Returned inv show ?thesis by (auto simp: rb_inv_def)
    qed
    moreover have "rb_step (rb, Idle) (InsertReturns seq p e) (rb, Idle)"
      using rb_step.enter_return [of seq p rb rb1 e] enter Returned eq by simp
    ultimately show ?thesis
      using es g cl unfolding reached_def
      by (intro conjI exI [of _ "es @ [InsertReturns seq p e]"])
         (auto simp: eq genuine_def calm_def intro: run_snoc)
  next
    case Looping
    then have loop: "insert_loop rb1 = (rb', out)" using ins enter by (simp add: Insert_def)
    have "rb_step (rb, Idle) (InsertStores seq p) (rb1, AtLoop)"
      using enter Looping by (auto intro: rb_step.enter_store)
    then have "reached pl N sz b (insert (unat seq) I) (rb1, AtLoop) taken"
      using es g unfolding reached_def
      by (intro exI [of _ "es @ [InsertStores seq p]"]) (auto simp: genuine_def intro: run_snoc)
    moreover have "\<not> rbClosed rb1" using Insert_enter_store(1) [of seq p rb rb1] enter Looping cl by simp
    ultimately show ?thesis using reached_loop loop insert_loop_calm [OF loop] by blast
  qed
qed

abbreviation keys :: "(u32 \<times> byte list) list \<Rightarrow> nat list" where
  "keys q \<equiv> map (\<lambda>f. unat (fst f)) q"

lemma keys_step: "I \<union> set (keys ((seq, p) # q)) = insert (unat seq) I \<union> set (keys q)"
  by auto

text \<open>The calls that wait are made one after the other.\<close>

lemma reached_queue:
  assumes "reached pl N sz b I (rb, Idle) taken" and "resume_queue q rb = (c, q')"
    and "list_all (genuine pl N) q" and "N < 2 ^ 32" and "\<not> rbClosed rb" and "b \<Longrightarrow> in_reach sz I (keys q)"
  shows "\<exists>J. reached pl N sz b J c taken \<and> calm c \<and> (q' \<noteq> [] \<longrightarrow> snd c \<noteq> Idle) \<and> list_all (genuine pl N) q'
     \<and> (b \<longrightarrow> in_reach sz J (keys q')) \<and> J \<union> set (keys q') = I \<union> set (keys q)"
  using assms
proof (induction q rb arbitrary: I rule: resume_queue.induct)
  case (1 rb)
  then show ?case by (intro exI [of _ I]) (auto simp: calm_def)
next
  case (2 seq p q rb)
  obtain rb' out where ins: "Insert seq p rb = (rb', out)" by (cases "Insert seq p rb")
  have g: "genuine pl N (seq, p)" "list_all (genuine pl N) q" using "2.prems"(3) by simp_all
  have near: "b \<Longrightarrow> {0..<Suc (unat seq) - sz} \<subseteq> I" "b \<Longrightarrow> in_reach sz (insert (unat seq) I) (keys q)"
    using "2.prems"(6) by simp_all
  note here = reached_Insert [OF "2.prems"(1) ins g(1) "2.prems"(4,5) near(1)]
  show ?case
  proof (cases out)
    case (Return e)
    have "\<not> rbClosed rb'" using here by (simp add: calm_def)
    moreover have "resume_queue q rb' = (c, q')" using "2.prems"(2) ins Return by simp
    ultimately show ?thesis
      using "2.IH" [OF ins [symmetric] Return _ _ g(2) "2.prems"(4) _ near(2)] here Return
      unfolding keys_step by simp
  next
    case (Blocked d)
    then have "c = (rb', AtSend d)" "q' = q" using "2.prems"(2) ins by simp_all
    with here Blocked g near show ?thesis unfolding keys_step by (intro exI [of _ "insert (unat seq) I"]) simp
  qed
qed

text \<open>The state of a session: \<open>J\<close> is what its buffer has seen, \<open>A\<close> all that has arrived.\<close>

definition session_inv :: "(nat \<Rightarrow> byte list) \<Rightarrow> nat \<Rightarrow> nat \<Rightarrow> bool \<Rightarrow> nat set \<Rightarrow> session \<Rightarrow> byte list list \<Rightarrow> bool" where
  "session_inv pl N sz b A s taken \<longleftrightarrow>
     (\<exists>J. reached pl N sz b J (ssReorder s) taken \<and> calm (ssReorder s)
        \<and> (ssQueue s \<noteq> [] \<longrightarrow> snd (ssReorder s) \<noteq> Idle) \<and> list_all (genuine pl N) (ssQueue s)
        \<and> (b \<longrightarrow> in_reach sz J (keys (ssQueue s))) \<and> J \<union> set (keys (ssQueue s)) = A)"

lemma session_inv_cong:
  "session_inv pl N sz b A s taken \<Longrightarrow> ssReorder s' = ssReorder s \<Longrightarrow> ssQueue s' = ssQueue s \<Longrightarrow>
     session_inv pl N sz b A s' taken"
  by (simp add: session_inv_def)

lemma session_inv_arrive:
  assumes inv: "session_inv pl N sz b A s taken" and g: "genuine pl N (seq, p)" and N: "N < 2 ^ 32"
    and near: "b \<Longrightarrow> {0..<Suc (unat seq) - sz} \<subseteq> A"
  shows "session_inv pl N sz b (insert (unat seq) A) (HandleData seq p s) taken"
proof -
  obtain rb th where c: "ssReorder s = (rb, th)" by (cases "ssReorder s")
  obtain J where J: "reached pl N sz b J (rb, th) taken" "calm (rb, th)" "ssQueue s \<noteq> [] \<longrightarrow> th \<noteq> Idle"
      "list_all (genuine pl N) (ssQueue s)" "b \<longrightarrow> in_reach sz J (keys (ssQueue s))" "J \<union> set (keys (ssQueue s)) = A"
    using inv unfolding session_inv_def c by auto
  show ?thesis
  proof (cases "th = Idle")
    case True
    obtain rb' out where ins: "Insert seq p rb = (rb', out)" by (cases "Insert seq p rb")
    have J': "J = A" "ssQueue s = []" using J(3,6) True by auto
    have r: "reached pl N sz b J (rb, Idle) taken" using J(1) True by simp
    have "\<not> rbClosed rb" using J(2) by (simp add: calm_def)
    from reached_Insert [OF r ins g N this] near J'
    have "reached pl N sz b (insert (unat seq) A) (rb', thread_of out) taken \<and> calm (rb', thread_of out)" by simp
    with J' ins True c show ?thesis by (auto simp: session_inv_def HandleData_def)
  next
    case False
    then have "HandleData seq p s = s\<lparr>ssQueue := ssQueue s @ [(seq, p)]\<rparr>"
      by (cases th) (simp_all add: HandleData_def c)
    then show ?thesis
      using J g near False unfolding session_inv_def by (intro exI [of _ J]) (auto simp: c in_reach_snoc)
  qed
qed

lemma session_inv_take:
  assumes inv: "session_inv pl N sz b A s taken" and N: "N < 2 ^ 32" and t: "session_take s = (s', Some p)"
  shows "session_inv pl N sz b A s' (taken @ [p])"
proof -
  obtain rb th where c: "ssReorder s = (rb, th)" by (cases "ssReorder s")
  obtain J where J: "reached pl N sz b J (rb, th) taken" "calm (rb, th)" "ssQueue s \<noteq> [] \<longrightarrow> th \<noteq> Idle"
      "list_all (genuine pl N) (ssQueue s)" "b \<longrightarrow> in_reach sz J (keys (ssQueue s))" "J \<union> set (keys (ssQueue s)) = A"
    using inv unfolding session_inv_def c by auto
  obtain rest where ch: "rbDataCh rb = p # rest" using t by (auto simp: session_take_def c split: list.splits prod.splits)
  define rb0 where "rb0 = rb\<lparr>rbDataCh := rest\<rparr>"
  obtain c' q' where res: "resume_insert (rb0, th) (ssQueue s) = (c', q')" by (cases "resume_insert (rb0, th) (ssQueue s)")
  have s': "s' = s\<lparr>ssReorder := c', ssQueue := q'\<rparr>"
    using t res ch by (simp add: session_take_def c rb0_def)
  have open0: "\<not> rbClosed rb0" using J(2) by (simp add: calm_def rb0_def)
  have "run rb_step (rb, th) [Receives p] (rb0, th)"
    unfolding rb0_def using ch by (intro run_single rb_step.receive)
  from reached_step [OF J(1) this] have r0: "reached pl N sz b J (rb0, th) (taken @ [p])" by simp
  show ?thesis
  proof (cases "\<exists>d. th = AtSend d")
    case False
    then have "th = Idle" using J(2) by (cases th) (auto simp: calm_def)
    with res J r0 open0 show ?thesis
      unfolding session_inv_def s' by (auto simp: resume_insert_def calm_def)
  next
    case True
    then obtain d where th: "th = AtSend d" by blast
    have "length (rbDataCh rb) \<le> rbSize rb"
      using J(1) rb_run_inv [OF _ _ N] unfolding reached_def rb_inv_def by fastforce
    then have ready: "DataCh_ready rb0" using ch by (simp add: DataCh_ready_def rb0_def)
    obtain rb' out where l: "insert_loop (Insert_send d rb0) = (rb', out)" by (cases "insert_loop (Insert_send d rb0)")
    have "run rb_step (rb0, AtSend d) [Sends d] (Insert_send d rb0, AtLoop)"
      using ready by (intro run_single rb_step.send)
    from reached_loop [OF reached_drain [OF r0 [unfolded th] this] l]
    have r1: "reached pl N sz b J (rb', thread_of out) (taken @ [p])" by simp
    have calm1: "calm (rb', thread_of out)"
      by (rule insert_loop_calm [OF l]) (use open0 in \<open>simp add: Insert_send_def\<close>)
    show ?thesis
    proof (cases out)
      case (Return e)
      then have "resume_queue (ssQueue s) rb' = (c', q')" using res th ready l by (simp add: resume_insert_def)
      moreover have "reached pl N sz b J (rb', Idle) (taken @ [p])" "\<not> rbClosed rb'"
        using r1 calm1 Return by (simp_all add: calm_def)
      ultimately show ?thesis
        using reached_queue [of pl N sz b J rb' "taken @ [p]" "ssQueue s" c' q'] J(4,5,6) N
        unfolding session_inv_def s' by simp
    next
      case (Blocked x)
      then have "c' = (rb', AtSend x)" "q' = ssQueue s" using res th ready l by (simp_all add: resume_insert_def)
      with r1 calm1 Blocked J show ?thesis unfolding session_inv_def s' by auto
    qed
  qed
qed

section \<open>What the consumer gets\<close>

fun arrivals :: "session_op list \<Rightarrow> (u32 \<times> byte list) list" where
  "arrivals [] = []"
| "arrivals (Arrive seq p # ops) = (seq, p) # arrivals ops"
| "arrivals (_ # ops) = arrivals ops"

lemma session_inv_run:
  assumes "session_inv pl N sz b A s taken" and "session_run ops s = (s', out)" and "N < 2 ^ 32"
    and "list_all (genuine pl N) (arrivals ops)" and "b \<Longrightarrow> in_reach sz A (keys (arrivals ops))"
  shows "session_inv pl N sz b (A \<union> set (keys (arrivals ops))) s' (taken @ out)"
  using assms
proof (induction ops arbitrary: A s s' taken out)
  case (Cons op ops)
  obtain s1 o1 where do: "session_do op s = (s1, o1)" by (cases "session_do op s")
  obtain s2 o2 where run: "session_run ops s1 = (s2, o2)" by (cases "session_run ops s1")
  have eq: "s' = s2" "out = o1 @ o2" using Cons.prems(2) do run by simp_all
  have next_step: "session_inv pl N sz b (A' \<union> set (keys (arrivals ops))) s' (taken @ out)"
    if "session_inv pl N sz b A' s1 (taken @ o1)" "list_all (genuine pl N) (arrivals ops)"
      "b \<Longrightarrow> in_reach sz A' (keys (arrivals ops))" for A'
    using Cons.IH [OF that(1) run Cons.prems(3) that(2,3)] eq by simp
  show ?case
  proof (cases op)
    case (Arrive seq p)
    have "session_inv pl N sz b (insert (unat seq) A) s1 (taken @ o1)"
      using session_inv_arrive [OF Cons.prems(1) _ Cons.prems(3), of seq p] Cons.prems(4,5) do Arrive by auto
    with Cons.prems(4,5) Arrive show ?thesis
      using next_step [of "insert (unat seq) A"] by simp
  next
    case Take
    have "session_inv pl N sz b A s1 (taken @ o1)"
    proof (cases "session_take s")
      case (Pair t x)
      show ?thesis
      proof (cases x)
        case None
        then have "t = s" using Pair by (auto simp: session_take_def split: prod.splits list.splits)
        with None Pair do Take Cons.prems(1) show ?thesis by simp
      next
        case (Some p)
        with session_inv_take [OF Cons.prems(1,3)] Pair do Take show ?thesis by auto
      qed
    qed
    with Cons.prems(4,5) Take show ?thesis using next_step [of A] by simp
  next
    case (Credit a)
    with do have "session_inv pl N sz b A s1 (taken @ o1)"
      using Cons.prems(1) by (auto simp: session_ack_def UpdateFlowControl_def intro: session_inv_cong)
    with Cons.prems(4,5) Credit show ?thesis using next_step [of A] by simp
  next
    case (NewSize w h)
    with do have "session_inv pl N sz b A s1 (taken @ o1)"
      using Cons.prems(1) by (auto simp: Resize_def intro: session_inv_cong)
    with Cons.prems(4,5) NewSize show ?thesis using next_step [of A] by simp
  qed
qed simp

lemma session_inv_new:
  "ssReorder s = (NewReorderBuffer sz, Idle) \<Longrightarrow> ssQueue s = [] \<Longrightarrow> session_inv pl N sz b {} s []"
  unfolding session_inv_def reached_def
  by (intro exI [of _ "{}"] conjI exI [of _ "[]"]) (simp_all add: run_nil calm_def NewReorderBuffer_def)

lemma new_sessions_empty:
  "s \<in> {NewTCPSession i ct dt, NewExecSession i cmd ct dt, NewShellSession i ct dt, NewExecClientSession i} \<Longrightarrow>
     ssReorder s = (NewReorderBuffer ReorderBufSize, Idle) \<and> ssQueue s = []"
  by (auto simp: new_session_defs)

lemma delivered_prefix:
  assumes "session_inv pl N sz b A s taken" and "N < 2 ^ 32"
  shows "taken = map pl [0..<length taken]"
proof -
  obtain rb th where c: "ssReorder s = (rb, th)" by (cases "ssReorder s")
  from assms(1) have "reached pl N sz b' {} (rb, th) taken" "\<not> rbClosed rb" for b'
    unfolding session_inv_def reached_def c by (auto simp: calm_def)
  then show ?thesis using rb_in_order(1) [OF _ _ assms(2)] unfolding reached_def by blast
qed

lemma delivered_count:
  assumes "session_inv pl N sz b A s taken" and N: "N < 2 ^ 32"
  shows "length taken \<le> N"
proof -
  obtain rb th where c: "ssReorder s = (rb, th)" by (cases "ssReorder s")
  obtain es where es: "run rb_step (NewReorderBuffer sz, Idle) es (rb, th)" "received es = taken"
      "\<forall>e \<in> set es. frame_ok pl N e" and cl: "\<not> rbClosed rb"
    using assms(1) unfolding session_inv_def reached_def c by (auto simp: calm_def)
  have "unat (rbNextSeq rb) \<le> N" using rb_run_inv [OF es(1,3) N] by (simp add: rb_inv_def rb_window_def)
  with rb_in_order(2) [OF es(1,3) N cl] es(2) show ?thesis by simp
qed

lemma delivered_all:
  assumes inv: "session_inv pl N sz True A s taken" and N: "N < 2 ^ 32" and "0 < sz"
    and empty: "rbDataCh (fst (ssReorder s)) = []" and m: "{0..<m} \<subseteq> A"
  shows "take m taken = map pl [0..<m]"
proof -
  obtain rb th where c: "ssReorder s = (rb, th)" by (cases "ssReorder s")
  obtain J where J: "reached pl N sz True J (rb, th) taken" "calm (rb, th)" "ssQueue s \<noteq> [] \<longrightarrow> th \<noteq> Idle"
      "J \<union> set (keys (ssQueue s)) = A"
    using inv unfolding session_inv_def c by auto
  obtain es where es: "run rb_step (NewReorderBuffer sz, Idle) es (rb, th)" "received es = taken"
      "\<forall>e \<in> set es. frame_ok pl N e" "J \<subseteq> stored es"
    using J(1) unfolding reached_def by blast
  have "rbSize rb = sz" using rb_run_inv [OF es(1,3) N] by (simp add: rb_inv_def)
  with \<open>0 < sz\<close> empty c have "DataCh_ready rb" by (simp add: DataCh_ready_def)
  with J(2) have th: "th = Idle" by (cases th) (auto simp: calm_def)
  with J(3,4) es(4) m have "{0..<m} \<subseteq> accepted es" by (auto simp: accepted_def)
  with rb_complete [OF es(1) [unfolded th] es(3) N _ _ this] J(2) empty c es(2) show ?thesis
    by (simp add: calm_def)
qed

text \<open>An example: three frames arrive out of order and one of them twice.\<close>

definition example_ops :: "session_op list" where
  "example_ops = [Arrive 1 [20], Arrive 2 [30], Take, Arrive 1 [20], Arrive 0 [10], Take, Credit 3, Take, Take]"

lemma example_run_result:
  "snd (session_run example_ops (NewShellSession ''s'' ''c'' ''d'')) = [[10], [20], [30]]
   \<and> rbDataCh (fst (ssReorder (fst (session_run example_ops (NewShellSession ''s'' ''c'' ''d''))))) = []"
  by code_simp

end
