(* ===== verification/Node.thy ===== *)
theory Node
  imports Sessions
begin

text \<open>
  The state both peers share: the heap of session objects, the session manager that points into
  it, and the messages published so far. The peers extend the record.

  \<open>close_ref\<close> is \<open>Session.Close\<close> through a pointer, with the close hook run on the manager.
  \<open>CloseAll\<close> and \<open>cleanupStale\<close> of \<open>internal/tunnel/session.go\<close> close sessions in the iteration
  order of a Go map, which is not determined: the order is an argument, a list of the entries.
\<close>

record node =
  ndHeap :: "nat \<Rightarrow> session option"
  ndNext :: nat
  ndManager :: "nat SessionManager"
  ndOut :: "PubMessage list"

definition alloc :: "session \<Rightarrow> 'a node_scheme \<Rightarrow> nat \<times> 'a node_scheme" where
  "alloc s nd = (ndNext nd, nd\<lparr>ndHeap := (ndHeap nd)(ndNext nd \<mapsto> s), ndNext := ndNext nd + 1\<rparr>)"

definition update_ref :: "nat \<Rightarrow> (session \<Rightarrow> session) \<Rightarrow> 'a node_scheme \<Rightarrow> 'a node_scheme" where
  "update_ref r f nd = (case ndHeap nd r of
     None \<Rightarrow> nd
   | Some s \<Rightarrow> nd\<lparr>ndHeap := (ndHeap nd)(r \<mapsto> f s)\<rparr>)"

definition emit :: "PubMessage list \<Rightarrow> 'a node_scheme \<Rightarrow> 'a node_scheme" where
  "emit ms nd = nd\<lparr>ndOut := ndOut nd @ ms\<rparr>"

definition close_ref :: "nat \<Rightarrow> 'a node_scheme \<Rightarrow> 'a node_scheme" where
  "close_ref r nd = (case ndHeap nd r of
     None \<Rightarrow> nd
   | Some s \<Rightarrow> (case session_Close s of (s', out, hook) \<Rightarrow>
       nd\<lparr>ndHeap := (ndHeap nd)(r \<mapsto> s'), ndOut := ndOut nd @ out,
          ndManager := (if hook then Remove (ssId s) (ndManager nd) else ndManager nd)\<rparr>))"

definition mgr_get :: "string \<Rightarrow> 'a node_scheme \<Rightarrow> nat option" where
  "mgr_get i nd = some_right (Get i (ndManager nd))"

definition mgr_remove :: "string \<Rightarrow> 'a node_scheme \<Rightarrow> 'a node_scheme" where
  "mgr_remove i nd = nd\<lparr>ndManager := Remove i (ndManager nd)\<rparr>"

definition mgr_touch :: "time \<Rightarrow> string \<Rightarrow> 'a node_scheme \<Rightarrow> 'a node_scheme" where
  "mgr_touch now i nd = nd\<lparr>ndManager := Touch now i (ndManager nd)\<rparr>"

definition close_each :: "(string \<times> nat) list \<Rightarrow> 'a node_scheme \<Rightarrow> 'a node_scheme" where
  "close_each order nd = foldl (\<lambda>n (i, r). close_ref r n) nd order"

text \<open>
  \<open>CloseAll\<close> without interference: the snapshot (which \<open>order\<close> lists), the closes, the fresh
  tables.
\<close>

definition CloseAll :: "(string \<times> nat) list \<Rightarrow> 'a node_scheme \<Rightarrow> 'a node_scheme" where
  "CloseAll order nd =
     (let nd1 = close_each order nd in nd1\<lparr>ndManager := CloseAll_clear (ndManager nd1)\<rparr>)"

definition node_cleanup :: "time \<Rightarrow> (string \<times> nat) list \<Rightarrow> 'a node_scheme \<Rightarrow> 'a node_scheme" where
  "node_cleanup now order nd =
     close_each order (nd\<lparr>ndManager := fst (cleanupStale now (StaleTimeout * Second) (ndManager nd))\<rparr>)"

text \<open>
  \<open>RunStaleCleanup\<close>: at every tick, the time and the order in which the map is walked, one cleanup.
  It ends with the context.
\<close>

definition RunStaleCleanup :: "(time \<times> (string \<times> nat) list) list \<Rightarrow> 'a node_scheme \<Rightarrow> 'a node_scheme" where
  "RunStaleCleanup ticks nd = foldl (\<lambda>nd (now, order). node_cleanup now order nd) nd ticks"

definition stale_interval :: time where
  "stale_interval = 30 * Second"

text \<open>The orders Go may take: every entry of the map once.\<close>

definition enumerates :: "(string \<times> nat) list \<Rightarrow> (string \<Rightarrow> nat option) \<Rightarrow> bool" where
  "enumerates order m \<longleftrightarrow> distinct (map fst order) \<and> (\<forall>i. map_of order i = m i)"

definition stale_refs :: "time \<Rightarrow> 'a node_scheme \<Rightarrow> string \<Rightarrow> nat option" where
  "stale_refs now nd i =
     (case snd (cleanupStale now (StaleTimeout * Second) (ndManager nd)) i of
        None \<Rightarrow> None | Some r \<Rightarrow> r)"

section \<open>Well-formed nodes\<close>

text \<open>
  The manager's tables agree, and every entry points to an allocated session of that id.
\<close>

definition node_inv :: "'a node_scheme \<Rightarrow> bool" where
  "node_inv nd \<longleftrightarrow> sm_inv (ndManager nd) \<and> (\<forall>r. ndNext nd \<le> r \<longrightarrow> ndHeap nd r = None) \<and>
     (\<forall>i r. smSessions (ndManager nd) i = Some r \<longrightarrow> (\<exists>s. ndHeap nd r = Some s \<and> ssId s = i))"

named_theorems node_simps \<open>field access through the node operations\<close>

lemma mgr_get_eq [node_simps]: "mgr_get i nd = smSessions (ndManager nd) i"
  by (simp add: mgr_get_def)

lemma node_fields [node_simps]:
  "ndHeap (emit ms nd) = ndHeap nd" "ndManager (emit ms nd) = ndManager nd" "ndNext (emit ms nd) = ndNext nd"
  "ndOut (emit ms nd) = ndOut nd @ ms"
  "ndHeap (mgr_remove i nd) = ndHeap nd" "ndManager (mgr_remove i nd) = Remove i (ndManager nd)"
  "ndNext (mgr_remove i nd) = ndNext nd" "ndOut (mgr_remove i nd) = ndOut nd"
  "ndHeap (mgr_touch t i nd) = ndHeap nd" "ndManager (mgr_touch t i nd) = Touch t i (ndManager nd)"
  "ndNext (mgr_touch t i nd) = ndNext nd" "ndOut (mgr_touch t i nd) = ndOut nd"
  "ndManager (update_ref r f nd) = ndManager nd" "ndNext (update_ref r f nd) = ndNext nd"
  "ndOut (update_ref r f nd) = ndOut nd"
  by (simp_all add: emit_def mgr_remove_def mgr_touch_def update_ref_def split: option.split)

lemma ndHeap_update_ref [node_simps]:
  "ndHeap (update_ref r f nd) = (ndHeap nd)(r := map_option f (ndHeap nd r))"
  by (auto simp: update_ref_def split: option.split)

lemma ndNext_close_ref [node_simps]: "ndNext (close_ref r nd) = ndNext nd"
  by (simp add: close_ref_def split: option.split prod.split)

lemma ndHeap_close_ref [node_simps]:
  "ndHeap (close_ref r nd) = (ndHeap nd)(r := map_option (\<lambda>s. fst (session_Close s)) (ndHeap nd r))"
  by (auto simp: close_ref_def split: option.split prod.split)

lemma ndOut_close_ref [node_simps]:
  "ndOut (close_ref r nd) = ndOut nd @ (case ndHeap nd r of
     None \<Rightarrow> [] | Some s \<Rightarrow> if \<not> ssClosed s \<and> ssKind s = KTCP then [sendCloseMsg s] else [])"
proof (cases "ndHeap nd r")
  case (Some s)
  obtain s' out hook where c: "session_Close s = (s', out, hook)" by (cases "session_Close s") auto
  show ?thesis using session_Close_out [of s] Some c by (simp add: close_ref_def)
qed (simp add: close_ref_def)

lemma ndManager_close_ref [node_simps]:
  "ndManager (close_ref r nd) = (case ndHeap nd r of
     None \<Rightarrow> ndManager nd
   | Some s \<Rightarrow> if \<not> ssClosed s \<and> ssHook s then Remove (ssId s) (ndManager nd) else ndManager nd)"
proof (cases "ndHeap nd r")
  case (Some s)
  obtain s' out hook where c: "session_Close s = (s', out, hook)" by (cases "session_Close s") auto
  show ?thesis using session_Close_hook [of s] Some c by (simp add: close_ref_def)
qed (simp add: close_ref_def)

lemma node_inv_entry:
  "node_inv nd \<Longrightarrow> smSessions (ndManager nd) i = Some r \<Longrightarrow> \<exists>s. ndHeap nd r = Some s \<and> ssId s = i"
  by (simp add: node_inv_def)

text \<open>The node with other fields (a peer) closes sessions the same way.\<close>

lemma node_inv_cong:
  "ndHeap nd' = ndHeap nd \<Longrightarrow> ndManager nd' = ndManager nd \<Longrightarrow> ndNext nd' = ndNext nd \<Longrightarrow>
     node_inv nd' \<longleftrightarrow> node_inv nd"
  by (simp add: node_inv_def)

lemma node_inv_emit [simp]: "node_inv (emit ms nd) \<longleftrightarrow> node_inv nd"
  by (simp add: node_inv_def node_simps)

lemma node_inv_touch: "node_inv nd \<Longrightarrow> node_inv (mgr_touch t i nd)"
  by (simp add: node_inv_def node_simps)

lemma node_inv_remove: "node_inv nd \<Longrightarrow> node_inv (mgr_remove i nd)"
  by (auto simp: node_inv_def node_simps split: if_splits)

lemma node_inv_update_ref:
  assumes "node_inv nd" and "\<And>s. ssId (f s) = ssId s"
  shows "node_inv (update_ref r f nd)"
  using assms by (fastforce simp: node_inv_def node_simps)

lemma node_inv_close_ref:
  assumes "node_inv nd"
  shows "node_inv (close_ref r nd)"
proof -
  have sm: "sm_inv (ndManager (close_ref r nd))"
    using assms by (auto simp: node_inv_def node_simps split: option.split)
  have sub: "smSessions (ndManager (close_ref r nd)) i = Some q \<Longrightarrow> smSessions (ndManager nd) i = Some q" for i q
    by (auto simp: node_simps split: option.splits if_splits)
  have heap: "ndHeap nd q = Some s \<Longrightarrow> \<exists>s'. ndHeap (close_ref r nd) q = Some s' \<and> ssId s' = ssId s" for q s
    by (auto simp: node_simps)
  have next_free: "\<forall>q \<ge> ndNext nd. ndHeap (close_ref r nd) q = None"
    using assms by (auto simp: node_inv_def node_simps)
  from sm next_free sub heap assms show ?thesis
    unfolding node_inv_def by (metis ndNext_close_ref)
qed

lemma node_inv_close_each: "node_inv nd \<Longrightarrow> node_inv (close_each order nd)"
  unfolding close_each_def
  by (induction order arbitrary: nd) (auto intro: node_inv_close_ref)

lemma node_inv_CloseAll: "node_inv nd \<Longrightarrow> node_inv (CloseAll order nd)"
  using node_inv_close_each [of nd order]
  by (auto simp: node_inv_def CloseAll_def Let_def CloseAll_clear_def sm_inv_def)

lemma node_inv_cleanup: "node_inv nd \<Longrightarrow> node_inv (node_cleanup now order nd)"
  unfolding node_cleanup_def
  by (rule node_inv_close_each)
     (auto simp: node_inv_def sm_inv_cleanup cleanupStale_def Let_def sm_inv_def split: if_splits)

lemma node_inv_alloc_add:
  assumes "node_inv nd" and "alloc s nd = (r, nd1)" and "Add now (ssId s) r (ndManager nd1) = Inr m"
  shows "node_inv (nd1\<lparr>ndManager := m\<rparr>)"
proof -
  have r: "r = ndNext nd" and nd1: "nd1 = nd\<lparr>ndHeap := (ndHeap nd)(r \<mapsto> s), ndNext := r + 1\<rparr>"
    using assms(2) by (auto simp: alloc_def)
  have m: "smSessions m = (smSessions (ndManager nd))(ssId s \<mapsto> r)"
    using smSessions_Add [OF assms(3)] nd1 by simp
  have "sm_inv m" using sm_inv_Add [OF _ assms(3)] assms(1) nd1 by (simp add: node_inv_def)
  moreover have "ndHeap nd q = Some s' \<Longrightarrow> q \<noteq> r" for q s'
    using assms(1) r by (auto simp: node_inv_def)
  ultimately show ?thesis
    using assms(1) m nd1 r by (fastforce simp: node_inv_def)
qed

lemma node_inv_alloc:
  assumes "node_inv nd" and "alloc s nd = (r, nd1)"
  shows "node_inv nd1" and "ndManager nd1 = ndManager nd" and "ndOut nd1 = ndOut nd"
    and "ndHeap nd1 = (ndHeap nd)(r \<mapsto> s)" and "r = ndNext nd" and "ndHeap nd r = None"
proof -
  have nd1: "r = ndNext nd" "nd1 = nd\<lparr>ndHeap := (ndHeap nd)(r \<mapsto> s), ndNext := r + 1\<rparr>"
    using assms(2) by (auto simp: alloc_def)
  show "ndHeap nd r = None" using assms(1) nd1(1) by (simp add: node_inv_def)
  then show "node_inv nd1" using assms(1) nd1 by (fastforce simp: node_inv_def)
  show "ndManager nd1 = ndManager nd" "ndOut nd1 = ndOut nd" "ndHeap nd1 = (ndHeap nd)(r \<mapsto> s)"
    "r = ndNext nd" using nd1 by simp_all
qed

section \<open>Closing many sessions\<close>

text \<open>The close messages of the TCP sessions among \<open>rs\<close> that were not closed yet.\<close>

definition close_outs :: "'a node_scheme \<Rightarrow> nat list \<Rightarrow> PubMessage list" where
  "close_outs nd rs = concat (map (\<lambda>r. case ndHeap nd r of
     None \<Rightarrow> [] | Some s \<Rightarrow> if \<not> ssClosed s \<and> ssKind s = KTCP then [sendCloseMsg s] else []) rs)"

definition closed_heap :: "nat list \<Rightarrow> (nat \<Rightarrow> session option) \<Rightarrow> nat \<Rightarrow> session option" where
  "closed_heap rs h r = (if r \<in> set rs then map_option (\<lambda>s. fst (session_Close s)) (h r) else h r)"

lemma session_Close_idem: "fst (session_Close (fst (session_Close s))) = fst (session_Close s)"
  by (simp add: session_Close_twice)

lemma close_each_Nil [simp]: "close_each [] nd = nd"
  by (simp add: close_each_def)

lemma close_each_Cons [simp]: "close_each ((i, r) # order) nd = close_each order (close_ref r nd)"
  by (simp add: close_each_def)

lemma ndHeap_close_each: "ndHeap (close_each order nd) = closed_heap (map snd order) (ndHeap nd)"
proof (induction order arbitrary: nd)
  case (Cons x order)
  obtain i r where x: "x = (i, r)" by (cases x)
  show ?case
    unfolding x close_each_Cons Cons.IH
    by (auto simp: closed_heap_def node_simps fun_eq_iff session_Close_idem option.map_comp comp_def)
qed (simp add: closed_heap_def fun_eq_iff)

lemma ndOut_close_each:
  "distinct (map snd order) \<Longrightarrow> ndOut (close_each order nd) = ndOut nd @ close_outs nd (map snd order)"
proof (induction order arbitrary: nd)
  case (Cons x order)
  obtain i r where x: "x = (i, r)" by (cases x)
  have "close_outs (close_ref r nd) (map snd order) = close_outs nd (map snd order)"
    unfolding close_outs_def
    using Cons.prems x by (intro arg_cong [where f = concat] map_cong) (auto simp: node_simps)
  then show ?case
    using Cons x by (simp add: node_simps close_outs_def)
qed (simp add: close_outs_def)

text \<open>Ids in the manager that a run of closes leaves: a subset of what was there.\<close>

lemma mgr_close_each_sub:
  "smSessions (ndManager (close_each order nd)) i = Some r \<Longrightarrow> smSessions (ndManager nd) i = Some r"
proof (induction order arbitrary: nd)
  case (Cons x order)
  obtain j q where x: "x = (j, q)" by (cases x)
  have "smSessions (ndManager (close_ref q nd)) i = Some r" using Cons x by simp
  then show ?case by (auto simp: node_simps split: option.splits if_splits)
qed simp

text \<open>A session that is not closed by the run, under an id no closed session has, keeps its entry.\<close>

lemma mgr_close_each_keep:
  assumes "\<forall>r s. r \<in> set (map snd order) \<longrightarrow> ndHeap nd r = Some s \<longrightarrow> ssId s \<noteq> i"
  shows "smSessions (ndManager (close_each order nd)) i = smSessions (ndManager nd) i"
  using assms
proof (induction order arbitrary: nd)
  case (Cons x order)
  obtain j q where x: "x = (j, q)" by (cases x)
  have "smSessions (ndManager (close_ref q nd)) i = smSessions (ndManager nd) i"
    using Cons.prems x by (auto simp: node_simps split: option.split)
  moreover have "\<forall>r s. r \<in> set (map snd order) \<longrightarrow> ndHeap (close_ref q nd) r = Some s \<longrightarrow> ssId s \<noteq> i"
  proof (intro allI impI)
    fix p s assume p: "p \<in> set (map snd order)" "ndHeap (close_ref q nd) p = Some s"
    then obtain s0 where "ndHeap nd p = Some s0" "ssId s0 = ssId s"
      by (auto simp: node_simps split: if_splits)
    then show "ssId s \<noteq> i" using Cons.prems p(1) x by (metis list.set_intros(2) list.simps(9))
  qed
  ultimately show ?case using Cons.IH x by simp
qed simp

text \<open>Under the invariant different ids have different pointers.\<close>

lemma node_inv_inj:
  "node_inv nd \<Longrightarrow> smSessions (ndManager nd) i = Some r \<Longrightarrow> smSessions (ndManager nd) j = Some r \<Longrightarrow> i = j"
  unfolding node_inv_def by (metis option.inject)

lemma enumerates_distinct_refs:
  assumes "enumerates order m" and "\<And>i j r. m i = Some r \<Longrightarrow> m j = Some r \<Longrightarrow> i = j"
  shows "distinct (map snd order)"
proof -
  have d: "distinct (map fst order)" and m: "\<And>i. map_of order i = m i"
    using assms(1) by (auto simp: enumerates_def)
  have "inj_on snd (set order)"
  proof (rule inj_onI)
    fix x y assume xy: "x \<in> set order" "y \<in> set order" "snd x = snd y"
    have "m (fst x) = Some (snd x)" "m (fst y) = Some (snd x)"
      using xy m [symmetric] map_of_eq_Some_iff [OF d] by (simp_all, metis prod.collapse)
    then show "x = y" using assms(2) xy(3) by (metis prod_eqI)
  qed
  moreover have "distinct order" using d by (simp add: distinct_map)
  ultimately show ?thesis by (simp add: distinct_map)
qed

lemma enumerates_set: "enumerates order m \<Longrightarrow> (i, r) \<in> set order \<longleftrightarrow> m i = Some r"
  by (auto simp: enumerates_def map_of_eq_Some_iff [symmetric])

lemma enumerates_refs: "enumerates order m \<Longrightarrow> r \<in> set (map snd order) \<longleftrightarrow> (\<exists>i. m i = Some r)"
  by (force simp: enumerates_set [symmetric])

text \<open>
  \<open>CloseAll\<close> without interference: every registered session is closed, no other one is touched,
  the table is empty, and one close message goes out for each TCP session that was open.
\<close>

lemma CloseAll_spec:
  assumes "node_inv nd" and "enumerates order (CloseAll_snapshot (ndManager nd))"
  shows "smSessions (ndManager (CloseAll order nd)) = Map.empty"
    and "ndHeap (CloseAll order nd) r = (if \<exists>i. smSessions (ndManager nd) i = Some r
           then map_option (\<lambda>s. fst (session_Close s)) (ndHeap nd r) else ndHeap nd r)"
    and "ndOut (CloseAll order nd) = ndOut nd @ close_outs nd (map snd order)"
proof -
  have e: "enumerates order (smSessions (ndManager nd))"
    using assms(2) by (simp add: CloseAll_snapshot_def)
  have d: "distinct (map snd order)"
    by (rule enumerates_distinct_refs [OF e]) (rule node_inv_inj [OF assms(1)])
  show "smSessions (ndManager (CloseAll order nd)) = Map.empty"
    by (simp add: CloseAll_def Let_def CloseAll_clear_def)
  show "ndOut (CloseAll order nd) = ndOut nd @ close_outs nd (map snd order)"
    using ndOut_close_each [OF d] by (simp add: CloseAll_def Let_def)
  show "ndHeap (CloseAll order nd) r = (if \<exists>i. smSessions (ndManager nd) i = Some r
           then map_option (\<lambda>s. fst (session_Close s)) (ndHeap nd r) else ndHeap nd r)"
    using enumerates_refs [OF e, of r] by (simp add: CloseAll_def Let_def ndHeap_close_each closed_heap_def)
qed

text \<open>The cleanup: exactly the sessions not heard of for longer than the timeout.\<close>

lemma node_cleanup_spec:
  assumes inv: "node_inv nd" and e: "enumerates order (stale_refs now nd)"
  defines "stale \<equiv> is_stale now (StaleTimeout * Second) (ndManager nd)"
  shows "smSessions (ndManager (node_cleanup now order nd)) i
           = (if stale i then None else smSessions (ndManager nd) i)"
    and "ndHeap (node_cleanup now order nd) r = (if \<exists>i. stale i \<and> smSessions (ndManager nd) i = Some r
           then map_option (\<lambda>s. fst (session_Close s)) (ndHeap nd r) else ndHeap nd r)"
proof -
  let ?nd = "nd\<lparr>ndManager := fst (cleanupStale now (StaleTimeout * Second) (ndManager nd))\<rparr>"
  have st: "stale_refs now nd j = Some q \<longleftrightarrow> stale j \<and> smSessions (ndManager nd) j = Some q" for j q
    by (auto simp: stale_refs_def cleanupStale_def Let_def stale_def)
  have ids: "\<forall>q s. q \<in> set (map snd order) \<longrightarrow> ndHeap ?nd q = Some s \<longrightarrow> stale (ssId s)"
    using inv enumerates_refs [OF e] st unfolding node_inv_def
    by (metis option.inject select_convs(1) surjective update_convs(3))
  have mgr: "smSessions (ndManager ?nd) j = (if stale j then None else smSessions (ndManager nd) j)" for j
    by (simp add: cleanupStale_def Let_def stale_def)
  show "smSessions (ndManager (node_cleanup now order nd)) i
           = (if stale i then None else smSessions (ndManager nd) i)"
  proof (cases "stale i")
    case True
    then show ?thesis
      using mgr_close_each_sub [of order ?nd i] mgr [of i]
      by (cases "smSessions (ndManager (close_each order ?nd)) i") (auto simp: node_cleanup_def)
  next
    case False
    then have "smSessions (ndManager (close_each order ?nd)) i = smSessions (ndManager ?nd) i"
      using ids by (intro mgr_close_each_keep) blast
    then show ?thesis using mgr [of i] False by (simp add: node_cleanup_def)
  qed
  show "ndHeap (node_cleanup now order nd) r = (if \<exists>i. stale i \<and> smSessions (ndManager nd) i = Some r
           then map_option (\<lambda>s. fst (session_Close s)) (ndHeap nd r) else ndHeap nd r)"
    using enumerates_refs [OF e, of r] st
    by (simp add: node_cleanup_def ndHeap_close_each closed_heap_def)
qed

text \<open>One registered session, last heard of at the time 0.\<close>

definition example_node :: node where
  "example_node = \<lparr>ndHeap = Map.empty(0 \<mapsto> NewShellSession ''a'' [] []), ndNext = 1,
     ndManager = \<lparr>smSessions = Map.empty(''a'' \<mapsto> 0), smLastSeen = Map.empty(''a'' \<mapsto> 0)\<rparr>, ndOut = []\<rparr>"

lemma example_node_inv: "node_inv example_node"
  by (auto simp: node_inv_def example_node_def sm_inv_def new_session_defs)

lemma example_node_session: "mgr_get ''a'' example_node = Some 0"
  by (simp add: mgr_get_eq example_node_def)

section \<open>Main properties\<close>

text \<open>C24. The cleanup removes and closes the sessions not heard of for more than \<open>StaleTimeout\<close> and no others. The constant is sixty seconds; docs/protocol.md lists five minutes, so a session that is idle for two minutes, say, lives by the document and is closed by the code.\<close>

theorem cleanup_closes_stale:
  assumes "node_inv nd" and "enumerates order (stale_refs now nd)"
  shows "(\<forall>i. mgr_get i (node_cleanup now order nd) =
        (case smLastSeen (ndManager nd) i of
           None \<Rightarrow> None
         | Some t \<Rightarrow> if now - t > 60000000000 then None else mgr_get i nd))
     \<and> (\<forall>r. ndHeap (node_cleanup now order nd) r =
        (if \<exists>i t. mgr_get i nd = Some r \<and> smLastSeen (ndManager nd) i = Some t \<and> now - t > 60000000000
         then map_option (\<lambda>s. fst (session_Close s)) (ndHeap nd r) else ndHeap nd r))"
proof -
  have st: "is_stale now (StaleTimeout * Second) (ndManager nd) i \<longleftrightarrow>
      (\<exists>t. smLastSeen (ndManager nd) i = Some t \<and> now - t > 60000000000)" for i
    by (simp add: is_stale_def StaleTimeout_def Second_def split: option.split)
  have none: "smLastSeen (ndManager nd) i = None \<longleftrightarrow> smSessions (ndManager nd) i = None" for i
    using assms(1) sm_inv_seen [of "ndManager nd" i] by (simp add: node_inv_def)
  show ?thesis
    using node_cleanup_spec [OF assms] none by (auto simp: mgr_get_eq st split: option.split)
qed

theorem cleanup_closes_stale_witness:
  "mgr_get ''a'' (node_cleanup 60000000001 [(''a'', 0)] example_node) = None"
proof -
  have "enumerates [(''a'', 0)] (stale_refs 60000000001 example_node)"
    by (auto simp: enumerates_def stale_refs_def cleanupStale_def is_stale_def Let_def example_node_def
        StaleTimeout_def Second_def)
  from cleanup_closes_stale [OF example_node_inv this] show ?thesis by (simp add: example_node_def)
qed

end
