(* ===== verification/Evolution.thy ===== *)
theory Evolution
  imports Delivery Node
begin

text \<open>
  What becomes of a session object while its peer handles events: a relation that every operation on a
  session respects holds between the session before and after, whatever happened to the peer. Two such
  relations are used: a closed session stays closed, and the credit of a writer does not shrink.
\<close>

definition evolves :: "(session \<Rightarrow> session \<Rightarrow> bool) \<Rightarrow> nat \<Rightarrow> 'a node_scheme \<Rightarrow> 'a node_scheme \<Rightarrow> bool" where
  "evolves R r d d' \<longleftrightarrow> (\<forall>s. ndHeap d r = Some s \<longrightarrow> (\<exists>s'. ndHeap d' r = Some s' \<and> R s s'))"

lemma evolves_fields [simp]:
  "evolves R r d (emit ms d') = evolves R r d d'" "evolves R r d (mgr_touch now i d') = evolves R r d d'"
  "evolves R r d (mgr_remove i d') = evolves R r d d'" "evolves R r d (d'\<lparr>ndManager := m\<rparr>) = evolves R r d d'"
  by (simp_all add: evolves_def node_simps)

lemma evolves_cong: "ndHeap d' = ndHeap d'' \<Longrightarrow> evolves R r d d' = evolves R r d d''"
  by (simp add: evolves_def)

lemma evolvesD: "evolves R r d d' \<Longrightarrow> ndHeap d r = Some s \<Longrightarrow> \<exists>s'. ndHeap d' r = Some s' \<and> R s s'"
  by (simp add: evolves_def)

locale session_order =
  fixes R :: "session \<Rightarrow> session \<Rightarrow> bool"
  assumes same: "R s s"
    and step: "R s t \<Longrightarrow> R t u \<Longrightarrow> R s u"
    and data: "R s (HandleData seq p s)"
    and ack: "R s (session_ack a s)"
    and resize: "R s (Resize cols rows s)"
    and start: "R s (fst (session_start sh s))"
    and conn: "R s (s\<lparr>ssConn := c\<rparr>)"
    and take: "R s (fst (session_take s))"
    and close: "R s (fst (session_Close s))"
begin

lemma evolves_refl [simp]: "evolves R r d d"
  by (simp add: evolves_def same)

lemma evolves_trans: "evolves R r d d' \<Longrightarrow> evolves R r d' d'' \<Longrightarrow> evolves R r d d''"
  unfolding evolves_def by (meson step)

lemma evolves_update:
  assumes "evolves R r d d'" and "\<And>s. q = r \<Longrightarrow> R s (f s)"
  shows "evolves R r d (update_ref q f d')"
  unfolding evolves_def
proof (intro allI impI)
  fix s assume "ndHeap d r = Some s"
  with assms(1) obtain s' where s': "ndHeap d' r = Some s'" "R s s'" by (auto simp: evolves_def)
  show "\<exists>t. ndHeap (update_ref q f d') r = Some t \<and> R s t"
  proof (cases "q = r")
    case True
    with s' assms(2) [OF True, of s'] show ?thesis by (auto simp: node_simps intro: step)
  next
    case False
    with s' show ?thesis by (auto simp: node_simps)
  qed
qed

lemma evolves_close:
  assumes "evolves R r d d'"
  shows "evolves R r d (close_ref q d')"
  unfolding evolves_def
proof (intro allI impI)
  fix s assume "ndHeap d r = Some s"
  with assms obtain s' where s': "ndHeap d' r = Some s'" "R s s'" by (auto simp: evolves_def)
  with step [OF s'(2) close] show "\<exists>t. ndHeap (close_ref q d') r = Some t \<and> R s t"
    by (auto simp: node_simps)
qed

lemma evolves_each: "evolves R r d d' \<Longrightarrow> evolves R r d (close_each order d')"
  by (induction order arbitrary: d') (auto simp: evolves_close)

lemma evolves_cleanup: "evolves R r d d' \<Longrightarrow> evolves R r d (node_cleanup now order d')"
  by (simp add: node_cleanup_def evolves_each)

lemma evolves_CloseAll: "evolves R r d d' \<Longrightarrow> evolves R r d (CloseAll order d')"
  by (simp add: CloseAll_def Let_def evolves_each)

lemma evolves_alloc:
  assumes "node_inv d" and "alloc x d = (q, d1)"
  shows "evolves R r d d1"
  using node_inv_alloc [OF assms] by (auto simp: evolves_def same)

lemma evolves_work:
  assumes "\<And>s. q = r \<Longrightarrow> R s (f s)"
  shows "evolves R r d (let d1 = emit ms (update_ref q f d) in if ends then close_ref q d1 else d1)"
  using assms by (auto simp: Let_def intro!: evolves_close evolves_update)

end

end
