(* ===== verification/Loops.thy ===== *)
theory Loops
  imports Node
begin

text \<open>
  The goroutines of a session (\<open>internal/tunnel/session_tcp.go\<close>, \<open>session_exec.go\<close> and
  \<open>session_shell.go\<close>): the reader that pumps a connection, a terminal or a command's output into
  the sequence writer, the writer that hands the reassembled data to the connection and
  acknowledges it, and the life of a command from its start to the close message with its exit
  status.

  What the operating system answers is an argument: the results of the reads, which writes
  succeed, the errors of opening pipes and starting a process, its wait status.
\<close>

section \<open>The reader\<close>

text \<open>
  One result of \<open>Read\<close>: the bytes and the error. The list ends where the reader waits for the
  next one. A read into the buffer of 64 KB never gives more than that.
\<close>

type_synonym read_result = "byte list \<times> string option"

datatype pump_outcome = PumpReading | PumpBlocked "byte list" | PumpWriteError | PumpReadError string

fun pump :: "(PubMessage \<Rightarrow> bool) \<Rightarrow> read_result list \<Rightarrow> SequenceWriter
    \<Rightarrow> SequenceWriter \<times> PubMessage list \<times> pump_outcome" where
  "pump ok [] sw = (sw, [], PumpReading)"
| "pump ok ((d, err) # reads) sw =
     (case (if length d > 0 then write_loop ok sw d else (sw, [], WroteAll)) of
        (sw1, ms, WroteAll) \<Rightarrow>
          (case err of
             Some e \<Rightarrow> (sw1, ms, PumpReadError e)
           | None \<Rightarrow> (case pump ok reads sw1 of (sw2, ms2, out) \<Rightarrow> (sw2, ms @ ms2, out)))
      | (sw1, ms, WriteBlocked rest) \<Rightarrow> (sw1, ms, PumpBlocked rest)
      | (sw1, ms, WriteFailed rest) \<Rightarrow> (sw1, ms, PumpWriteError))"

fun pump_over :: "pump_outcome \<Rightarrow> bool" where
  "pump_over PumpReading = False"
| "pump_over (PumpBlocked rest) = False"
| "pump_over PumpWriteError = True"
| "pump_over (PumpReadError e) = True"

text \<open>
  A write that waits for credit ends with the context's error once the session's context is
  done (its \<open>select\<close> may first spend the token of an old acknowledgement, and then waits again).
\<close>

definition wait_ctx :: "session \<Rightarrow> pump_outcome \<Rightarrow> pump_outcome" where
  "wait_ctx s out = (case out of
     PumpBlocked rest \<Rightarrow> if ssCancelled s then PumpWriteError else PumpBlocked rest
   | _ \<Rightarrow> out)"

text \<open>
  \<open>readFromConn\<close> closes the session when it ends (\<open>defer s.Close()\<close>); \<open>readFromPTY\<close> only tells
  \<open>waitForExit\<close>. The last component: the close hook ran, and the reader is done.
\<close>

definition readFromConn :: "(PubMessage \<Rightarrow> bool) \<Rightarrow> read_result list \<Rightarrow> session
    \<Rightarrow> session \<times> PubMessage list \<times> bool" where
  "readFromConn ok reads s =
     (case pump ok reads (ssWriter s) of (sw, ms, out) \<Rightarrow>
        let s1 = s\<lparr>ssWriter := sw\<rparr> in
        if pump_over (wait_ctx s out) then (case session_Close s1 of (s2, cs, hook) \<Rightarrow> (s2, ms @ cs, hook))
        else (s1, ms, False))"

definition readFromPTY :: "(PubMessage \<Rightarrow> bool) \<Rightarrow> read_result list \<Rightarrow> session
    \<Rightarrow> session \<times> PubMessage list \<times> bool" where
  "readFromPTY ok reads s =
     (case pump ok reads (ssWriter s) of (sw, ms, out) \<Rightarrow> (s\<lparr>ssWriter := sw\<rparr>, ms, pump_over (wait_ctx s out)))"

text \<open>A pump is a run of the writer's step relation.\<close>

fun pump_thread :: "pump_outcome \<Rightarrow> write_thread" where
  "pump_thread PumpReading = WIdle"
| "pump_thread (PumpBlocked rest) = WSelect rest"
| "pump_thread PumpWriteError = WFailed"
| "pump_thread (PumpReadError e) = WIdle"

text \<open>What the reader took from its source: a prefix of the reads' bytes.\<close>

lemma pump_run:
  "pump ok reads sw = (sw', ms, out) \<Longrightarrow>
     \<exists>es. run wr_step (sw, WIdle) es (sw', pump_thread out) \<and> published es = ms \<and> no_acks es
       \<and> (\<exists>rest. concat (map fst reads) = written es @ rest \<and> (out = PumpReading \<longrightarrow> rest = []))"
proof (induction ok reads sw arbitrary: sw' ms out rule: pump.induct)
  case (1 ok sw)
  then show ?case by (intro exI [of _ "[]"]) (auto simp: published_def intro: run_nil)
next
  case (2 ok d err reads sw)
  obtain sw1 m1 o1 where w: "write_loop ok sw d = (sw1, m1, o1)" by (cases "write_loop ok sw d")
  then have w': "(if length d > 0 then write_loop ok sw d else (sw, [], WroteAll)) = (sw1, m1, o1)"
    by (auto simp: write_loop.simps)
  obtain es where es: "run wr_step (sw, WCheck d) es (sw1, write_thread_of o1)"
      "published es = m1" "written es = []" "no_acks es"
    using write_loop_run [OF w] by blast
  have one: "run wr_step (sw, WIdle) (WriteCall d # es) (sw1, write_thread_of o1)"
    using wr_call es(1) by (rule run_cons)
  show ?case
  proof (cases "o1 = WroteAll \<and> err = None")
    case True
    obtain sw2 m2 o2 where rec: "pump ok reads sw1 = (sw2, m2, o2)" by (cases "pump ok reads sw1")
    with "2.prems" w' True have eq: "sw' = sw2" "ms = m1 @ m2" "out = o2" by simp_all
    have ex: "\<exists>fs. run wr_step (sw1, WIdle) fs (sw2, pump_thread o2) \<and> published fs = m2 \<and> no_acks fs
       \<and> (\<exists>rest. concat (map fst reads) = written fs @ rest \<and> (o2 = PumpReading \<longrightarrow> rest = []))"
      by (rule "2.IH" [OF w' [symmetric] refl _ _ rec]) (use True in auto)
    then obtain fs where fs: "run wr_step (sw1, WIdle) fs (sw2, pump_thread o2)" "published fs = m2"
        "no_acks fs" "\<exists>rest. concat (map fst reads) = written fs @ rest \<and> (o2 = PumpReading \<longrightarrow> rest = [])"
      by blast
    have "run wr_step (sw, WIdle) ((WriteCall d # es) @ fs) (sw2, pump_thread o2)"
      by (rule run_append [OF fs(1)]) (use one True in simp)
    then show ?thesis
      using es fs eq by (intro exI [of _ "(WriteCall d # es) @ fs"]) (auto simp: published_def)
  next
    case False
    then have "ms = m1" "sw' = sw1" "pump_thread out = write_thread_of o1" "out \<noteq> PumpReading"
      using "2.prems" w' by (auto split: write_outcome.splits option.splits)
    then show ?thesis
      using one es by (intro exI [of _ "WriteCall d # es"]) (auto simp: published_def)
  qed
qed

section \<open>The writer\<close>

text \<open>
  The loop of \<open>writeToConn\<close> and \<open>writeToPTY\<close>: what its \<open>select\<close> receives, one after the other.
  A delivered payload is written (\<open>True\<close>) or the write fails. The loop ends when the context is
  done, the channel is closed or a write fails; the three local variables are those of
  \<open>sessionAckState\<close>. The result: the bytes written, the totals acknowledged, whether it ended.
\<close>

datatype select_case = CtxDone | DataClosed | DataArrives "byte list" bool

fun writeTo_loop :: "sessionAckState \<Rightarrow> select_case list \<Rightarrow> byte list \<times> u64 list \<times> bool" where
  "writeTo_loop st [] = ([], [], False)"
| "writeTo_loop st (CtxDone # cs) = ([], [], True)"
| "writeTo_loop st (DataClosed # cs) = ([], [], True)"
| "writeTo_loop st (DataArrives d False # cs) = ([], [], True)"
| "writeTo_loop st (DataArrives d True # cs) =
     (case ackState_record (length d) st of (st1, r) \<Rightarrow>
      case writeTo_loop st1 cs of (bytes, acks, over) \<Rightarrow>
        (d @ bytes, (case r of None \<Rightarrow> acks | Some a \<Rightarrow> a # acks), over))"

definition writeToConn :: "select_case list \<Rightarrow> session \<Rightarrow> session \<times> byte list \<times> PubMessage list \<times> bool" where
  "writeToConn cs s =
     (case writeTo_loop newSessionAckState cs of (bytes, acks, over) \<Rightarrow>
        if over then (case session_Close s of (s2, ms, hook) \<Rightarrow>
          (s2, bytes, map (session_sendAck s) acks @ ms, hook))
        else (s, bytes, map (session_sendAck s) acks, False))"

definition writeToPTY :: "select_case list \<Rightarrow> session \<Rightarrow> session \<times> byte list \<times> PubMessage list" where
  "writeToPTY cs s =
     (case writeTo_loop newSessionAckState cs of (bytes, acks, over) \<Rightarrow>
        (s, bytes, map (session_sendAck s) acks))"

text \<open>The payloads the loop wrote: those up to the first other case.\<close>

fun delivered :: "select_case list \<Rightarrow> byte list list" where
  "delivered (DataArrives d True # cs) = d # delivered cs"
| "delivered _ = []"

lemma writeTo_loop_bytes: "fst (writeTo_loop st cs) = concat (delivered cs)"
  by (induction st cs rule: writeTo_loop.induct) (auto split: prod.splits)

text \<open>
  The acknowledged totals increase, each is a total that was really written, and less than a
  quarter of the window is left unacknowledged.
\<close>

definition last_total :: "u64 list \<Rightarrow> nat \<Rightarrow> nat" where
  "last_total acks t0 = (if acks = [] then t0 else unat (last acks))"

lemma writeTo_loop_acks:
  assumes "ack_inv c st" and "c + chunk_bytes (delivered cs) < 2 ^ 64"
  defines "acks \<equiv> fst (snd (writeTo_loop st cs))"
  shows "sorted (map unat acks)"
    and "\<forall>a \<in> set acks. unat (asLast st) \<le> unat a \<and> unat a \<le> c + chunk_bytes (delivered cs)"
    and "c + chunk_bytes (delivered cs) < last_total acks (unat (asLast st)) + 65536"
proof -
  have "sorted (map unat acks) \<and>
      (\<forall>a \<in> set acks. unat (asLast st) \<le> unat a \<and> unat a \<le> c + chunk_bytes (delivered cs)) \<and>
      c + chunk_bytes (delivered cs) < last_total acks (unat (asLast st)) + 65536"
    unfolding acks_def using assms(1,2)
  proof (induction st cs arbitrary: c rule: writeTo_loop.induct)
    case (5 st d cs)
    obtain st1 r where rec: "ackState_record (length d) st = (st1, r)"
      by (cases "ackState_record (length d) st")
    let ?rest = "writeTo_loop st1 cs"
    note inv = ack_inv_record [OF "5.prems"(1) rec]
    have small: "c + length d < 2 ^ 64" "c + length d + chunk_bytes (delivered cs) < 2 ^ 64"
      using "5.prems"(2) by simp_all
    have ih: "sorted (map unat (fst (snd ?rest))) \<and>
      (\<forall>a \<in> set (fst (snd ?rest)). unat (asLast st1) \<le> unat a
         \<and> unat a \<le> c + length d + chunk_bytes (delivered cs)) \<and>
      c + length d + chunk_bytes (delivered cs)
        < last_total (fst (snd ?rest)) (unat (asLast st1)) + 65536"
      using "5.IH" [OF rec [symmetric] inv(1) [OF small(1)] small(2)] .
    have acks: "fst (snd (writeTo_loop st (DataArrives d True # cs)))
        = (case r of None \<Rightarrow> fst (snd ?rest) | Some a \<Rightarrow> a # fst (snd ?rest))"
      using rec by (cases "writeTo_loop st1 cs") (simp split: option.split)
    show ?case
    proof (cases r)
      case None
      then show ?thesis using ih acks inv(3) [OF small(1)] by (auto simp: last_total_def add.assoc)
    next
      case (Some a)
      then have a: "unat a = c + length d" "asLast st1 = a" using inv(2) [OF small(1)] by auto
      have "unat (asLast st) \<le> unat a" using "5.prems"(1) a(1) by (simp add: ack_inv_def)
      then show ?thesis
        using ih acks Some a by (auto simp: last_total_def add.assoc split: if_splits intro: order_trans)
    qed
  qed (auto simp: last_total_def ack_inv_def)
  then show "sorted (map unat acks)"
    and "\<forall>a \<in> set acks. unat (asLast st) \<le> unat a \<and> unat a \<le> c + chunk_bytes (delivered cs)"
    and "c + chunk_bytes (delivered cs) < last_total acks (unat (asLast st)) + 65536" by blast+
qed

section \<open>Exit statuses\<close>

text \<open>
  \<open>syscall.WaitStatus\<close> is the 32-bit word of \<open>wait4\<close>; \<open>ProcessState.ExitCode\<close> is its
  \<open>ExitStatus\<close>. An \<open>ExitError\<close> whose \<open>Sys\<close> is something else (\<open>eeStatus\<close> is \<open>None\<close>) has some exit
  code of its own.
\<close>

definition Exited :: "u32 \<Rightarrow> bool" where
  "Exited w \<longleftrightarrow> and w 0x7F = 0"

definition Signaled :: "u32 \<Rightarrow> bool" where
  "Signaled w \<longleftrightarrow> and w 0x7F \<noteq> 0x7F \<and> and w 0x7F \<noteq> 0"

definition Signal :: "u32 \<Rightarrow> int" where
  "Signal w = (if Signaled w then uint (and w 0x7F) else - 1)"

definition ExitStatus :: "u32 \<Rightarrow> int" where
  "ExitStatus w = (if Exited w then uint (and (drop_bit 8 w) 0xFF) else - 1)"

record exit_error =
  eeExitCode :: int
  eeStatus :: "u32 option"

definition exit_error_of :: "u32 \<Rightarrow> exit_error" where
  "exit_error_of w = \<lparr>eeExitCode = ExitStatus w, eeStatus = Some w\<rparr>"

definition signalExitCode :: "exit_error \<Rightarrow> int" where
  "signalExitCode e =
     (if eeExitCode e \<ge> 0 then eeExitCode e
      else case eeStatus e of
        None \<Rightarrow> 1
      | Some w \<Rightarrow>
          if Signaled w then
            (if Signal w = int SIGINT \<or> Signal w = int SIGTERM then 0 else 128 + Signal w)
          else 1)"

lemma signalExitCode_exited: "Exited w \<Longrightarrow> signalExitCode (exit_error_of w) = uint (and (drop_bit 8 w) 0xFF)"
  by (simp add: signalExitCode_def exit_error_of_def ExitStatus_def)

lemma signalExitCode_signaled:
  "Signaled w \<Longrightarrow> signalExitCode (exit_error_of w) =
     (if Signal w = 2 \<or> Signal w = 15 then 0 else 128 + Signal w)"
  by (auto simp: signalExitCode_def exit_error_of_def ExitStatus_def Signaled_def Exited_def
      SIGINT_def SIGTERM_def)

lemma uint_and_le: "uint (and w v) \<le> uint v" for w v :: u32
  by (simp add: unsigned_and_eq AND_upper2)

lemma signalExitCode_range: "0 \<le> signalExitCode (exit_error_of w) \<and> signalExitCode (exit_error_of w) \<le> 255"
proof (cases "Exited w")
  case True
  then show ?thesis using uint_and_le [where w = "drop_bit 8 w" and v = "0xFF"] by (simp add: signalExitCode_exited)
next
  case ne: False
  show ?thesis
  proof (cases "Signaled w")
    case True
    then have "0 \<le> Signal w" "Signal w \<le> 127"
      using uint_and_le [where w = w and v = "0x7F"] by (simp_all add: Signal_def)
    with True show ?thesis by (simp add: signalExitCode_signaled)
  next
    case False
    with ne show ?thesis by (simp add: signalExitCode_def exit_error_of_def ExitStatus_def)
  qed
qed

section \<open>A command\<close>

datatype proc_result = WaitOk | WaitExit exit_error | WaitError string

fun isExitError :: "proc_result \<Rightarrow> exit_error option" where
  "isExitError (WaitExit e) = Some e"
| "isExitError _ = None"

text \<open>
  What the system answers a command: the errors of the two pipes and of the start, its process
  id, the results of the reads of the merged output, its wait result once it has one.
\<close>

record exec_env =
  exStdoutErr :: "string option"
  exStderrErr :: "string option"
  exStartErr :: "string option"
  exPid :: int
  exReads :: "read_result list"
  exWait :: "proc_result option"

definition finish :: "session \<Rightarrow> PubMessage list \<Rightarrow> session \<times> PubMessage list \<times> bool" where
  "finish s ms = (case session_Close s of (s2, cs, hook) \<Rightarrow> (s2, ms @ cs, hook))"

text \<open>\<open>run\<close> of \<open>ExecSession\<close>. \<open>None\<close>: it waits, for window credit, output or the process.\<close>

definition exec_run :: "(PubMessage \<Rightarrow> bool) \<Rightarrow> exec_env \<Rightarrow> session
    \<Rightarrow> session \<times> PubMessage list \<times> bool option" where
  "exec_run ok env s =
     (let finished = (\<lambda>s ms. case finish s ms of (s2, out, hook) \<Rightarrow> (s2, out, Some hook)) in
      case exStdoutErr env of
        Some e \<Rightarrow> finished s [exec_sendClose s None e]
      | None \<Rightarrow> (case exStderrErr env of
        Some e \<Rightarrow> finished s [exec_sendClose s None e]
      | None \<Rightarrow> (case exStartErr env of
        Some e \<Rightarrow> finished s [exec_sendClose s None e]
      | None \<Rightarrow>
          (let s1 = s\<lparr>ssPgid := exPid env\<rparr> in
           case pump ok (exReads env) (ssWriter s1) of (sw, ms, out) \<Rightarrow>
             (let s2 = s1\<lparr>ssWriter := sw\<rparr>;
                  res = wait_ctx s out;
                  s3 = (if res = PumpWriteError then s2\<lparr>ssCancelled := True\<rparr> else s2) in
              if \<not> pump_over res then (s3, ms, None)
              else case exWait env of
                None \<Rightarrow> (s3, ms, None)
              | Some WaitOk \<Rightarrow> finished s3 (ms @ [exec_sendClose s3 (Some 0) []])
              | Some r \<Rightarrow> (case isExitError r of
                    Some ee \<Rightarrow> finished s3 (ms @ [exec_sendClose s3 (Some (signalExitCode ee)) []])
                  | None \<Rightarrow> finished s3 (ms @ [exec_sendClose s3 None (case r of WaitError e \<Rightarrow> e | _ \<Rightarrow> [])])))))))"

text \<open>\<open>waitForExit\<close> of the shell: it waits for the process and then for the reader.\<close>

definition shell_waitForExit :: "proc_result option \<Rightarrow> bool \<Rightarrow> session
    \<Rightarrow> session \<times> PubMessage list \<times> bool option" where
  "shell_waitForExit w readDone s =
     (case w of
        None \<Rightarrow> (s, [], None)
      | Some r \<Rightarrow>
          if \<not> readDone then (s, [], None)
          else (let code = (case r of WaitOk \<Rightarrow> 0 | WaitExit ee \<Rightarrow> eeExitCode ee | WaitError e \<Rightarrow> 0) in
            case finish s [shell_sendClose s (Some code)] of (s2, out, hook) \<Rightarrow> (s2, out, Some hook)))"

section \<open>Properties of a command\<close>

lemma run_topic: "run wr_step c es c' \<Longrightarrow> swTopic (fst c') = swTopic (fst c)"
proof (induction rule: run.induct)
  case (run_snoc es t e u)
  from run_snoc.hyps(2) have "swTopic (fst u) = swTopic (fst t)"
    by (cases rule: wr_step.cases) (auto simp: Write_frame_def)
  then show ?case using run_snoc.IH by simp
qed simp

lemma run_acked: "run wr_step c es c' \<Longrightarrow> no_acks es \<Longrightarrow>
   fcAcked (swFc (fst c')) = fcAcked (swFc (fst c))"
proof (induction rule: run.induct)
  case (run_snoc es t e u)
  from run_snoc.hyps(2) run_snoc.prems have "fcAcked (swFc (fst u)) = fcAcked (swFc (fst t))"
    by (cases rule: wr_step.cases) (auto simp: Write_frame_def AddSent_def)
  then show ?case using run_snoc by simp
qed simp

text \<open>
  Pumping into a writer that hears no acknowledgement. The counter of sent bytes cannot pass the
  window, so the pump stops in \<open>WaitForWindow\<close> when more than that is to be written.
\<close>

lemma fresh_pump_bytes:
  assumes "pump ok reads (NewSequenceWriter topic (NewFlowControl FlowControlWindow)) = (sw', ms, out)"
    and "length (concat (map fst reads)) < 2 ^ 64"
  obtains es where "run wr_step (fresh_writer topic) es (sw', pump_thread out)" and "published es = ms"
    and "chunk_bytes (numbered es) \<le> 262144"
    and "\<exists>rest. concat (map fst reads) = written es @ rest \<and> (out = PumpReading \<longrightarrow> rest = [])"
proof -
  obtain es where es: "run wr_step (fresh_writer topic) es (sw', pump_thread out)" "published es = ms"
      "no_acks es"
      "\<exists>rest. concat (map fst reads) = written es @ rest \<and> (out = PumpReading \<longrightarrow> rest = [])"
    using pump_run [OF assms(1)] by blast
  note inv = wr_run_inv [OF es(1)]
  have "chunk_bytes (numbered es) \<le> length (written es)"
    using inv by (auto simp: wr_inv_def wr_stream_inv_def chunk_bytes_def length_concat [symmetric]
        split: option.splits)
  moreover have "length (written es) \<le> length (concat (map fst reads))"
    using es(4) by auto
  ultimately have "chunk_bytes (numbered es) < 2 ^ 64" using assms(2) by linarith
  then have fc: "fc_ok (swFc sw')" "unat (fcSent (swFc sw')) = chunk_bytes (numbered es)"
    using inv by (simp_all add: wr_inv_def wr_credit_inv_def)
  have "fcAcked (swFc sw') = 0"
    using run_acked [OF es(1,3)] by (simp add: NewSequenceWriter_def NewFlowControl_def)
  with fc have "chunk_bytes (numbered es) \<le> 262144" by (auto simp: fc_ok_def fc_inv_unat)
  with es that show thesis by blast
qed

text \<open>With a transport that accepts everything, no write fails.\<close>

lemma write_loop_no_fail: "write_loop (\<lambda>_. True) w x = (w', ms', WriteFailed z) \<Longrightarrow> False"
proof (induction "\<lambda>_::PubMessage. True" w x arbitrary: w' ms' rule: write_loop.induct)
  case (1 sw data)
  then show ?case
    by (subst (asm) (2) write_loop.simps) (auto simp: Let_def split: if_splits prod.splits)
qed

lemma pump_no_fail: "pump (\<lambda>_. True) reads sw = (sw', ms, out) \<Longrightarrow> out \<noteq> PumpWriteError"
  by (induction reads arbitrary: sw sw' ms out)
     (auto split: prod.splits write_outcome.splits option.splits if_splits dest: write_loop_no_fail)

lemma fresh_pump_stalls:
  assumes "pump (\<lambda>_. True) reads (NewSequenceWriter topic (NewFlowControl FlowControlWindow)) = (sw', ms, out)"
    and "\<forall>r \<in> set reads. snd r = None"
    and "262144 < length (concat (map fst reads))" and "length (concat (map fst reads)) < 2 ^ 64"
  shows "\<exists>rest. out = PumpBlocked rest"
proof -
  obtain es where es: "run wr_step (fresh_writer topic) es (sw', pump_thread out)"
      "chunk_bytes (numbered es) \<le> 262144"
      "\<exists>rest. concat (map fst reads) = written es @ rest \<and> (out = PumpReading \<longrightarrow> rest = [])"
    using fresh_pump_bytes [OF assms(1,4)] by metis
  have no_fail: "pump (\<lambda>_. True) rs sw = (sw2, m2, o2) \<Longrightarrow> \<forall>r \<in> set rs. snd r = None \<Longrightarrow>
      o2 = PumpReading \<or> (\<exists>rest. o2 = PumpBlocked rest)" for rs sw sw2 m2 o2
  proof (induction rs arbitrary: sw sw2 m2)
    case (Cons r rs)
    obtain d where r: "r = (d, None)" using Cons.prems(2) by (cases r) auto
    from Cons r show ?case
      by (auto split: prod.splits write_outcome.splits if_splits dest: write_loop_no_fail)
  qed simp
  have "out \<noteq> PumpReading"
  proof
    assume "out = PumpReading"
    with es(3) have w: "concat (map fst reads) = written es" by simp
    have "wr_stream_inv topic es (sw', WIdle)"
      using wr_run_inv [OF es(1)] \<open>out = PumpReading\<close> by (simp add: wr_inv_def)
    then have "length (written es) = chunk_bytes (numbered es)"
      by (simp add: wr_stream_inv_def chunk_bytes_def length_concat)
    with w es(2) assms(3) show False by simp
  qed
  with no_fail [OF assms(1,2)] show ?thesis by blast
qed

text \<open>A command that ends sends exactly one close message, after its output, and the session is closed.\<close>

lemma pump_data: "pump ok reads sw = (sw', ms, out) \<Longrightarrow> m \<in> set ms \<Longrightarrow> \<exists>b. pmPayload m = PData b"
proof -
  have wl: "write_loop f w d = (w', ms', out') \<Longrightarrow> m \<in> set ms' \<Longrightarrow> \<exists>b. pmPayload m = PData b"
    for f w d w' ms' out' m
  proof (induction f w d arbitrary: w' ms' out' rule: write_loop.induct)
    case (1 ok sw data)
    show ?case
    proof (cases "data = [] \<or> \<not> CanSend (of_nat (length (next_chunk data))) (swFc sw)")
      case True
      then show ?thesis
        using "1.prems" by (subst (asm) write_loop.simps) (auto simp: Let_def split: if_splits)
    next
      case False
      obtain sw1 msg where fr: "Write_frame (next_chunk data) sw = (sw1, msg)" by fastforce
      obtain sw2 m2 o2 where rec: "write_loop ok sw1 (drop (length (next_chunk data)) data) = (sw2, m2, o2)"
        by (cases "write_loop ok sw1 (drop (length (next_chunk data)) data)")
      have "ok msg \<Longrightarrow> m \<in> set m2 \<Longrightarrow> \<exists>b. pmPayload m = PData b"
        using "1.IH" [OF _ refl _ fr [symmetric] refl _ rec] False by auto
      then show ?thesis
        using "1.prems" False fr rec
        by (subst (asm) write_loop.simps) (auto simp: Let_def Write_frame_def data_pub_def split: if_splits)
    qed
  qed
  show "pump ok reads sw = (sw', ms, out) \<Longrightarrow> m \<in> set ms \<Longrightarrow> \<exists>b. pmPayload m = PData b"
  proof (induction ok reads sw arbitrary: sw' ms out rule: pump.induct)
    case (2 ok d err reads sw)
    obtain sw1 m1 o1 where w: "write_loop ok sw d = (sw1, m1, o1)" by (cases "write_loop ok sw d")
    then have w': "(if length d > 0 then write_loop ok sw d else (sw, [], WroteAll)) = (sw1, m1, o1)"
      by (auto simp: write_loop.simps)
    obtain sw2 m2 o2 where rec: "pump ok reads sw1 = (sw2, m2, o2)" by (cases "pump ok reads sw1")
    show ?case
    proof (cases "o1 = WroteAll \<and> err = None")
      case True
      then have "ms = m1 @ m2" using "2.prems"(1) w' rec by simp
      then show ?thesis
        using "2.IH" [OF w' [symmetric] refl _ _ rec] True wl [OF w] "2.prems"(2) by auto
    next
      case False
      then have "ms = m1" using "2.prems"(1) w' by (auto split: write_outcome.splits option.splits)
      then show ?thesis using wl [OF w] "2.prems"(2) by simp
    qed
  qed simp
qed

lemma session_Close_eq:
  "session_Close s = (fst (session_Close s), fst (snd (session_Close s)), snd (snd (session_Close s)))"
  by simp

lemma exec_run_ends:
  assumes "exec_run ok env s = (s', out, Some hook)" and "ssKind s = KExec"
  shows "\<exists>ms code err. out = ms @ [exec_sendClose s code err]
      \<and> (\<forall>m \<in> set ms. \<exists>b. pmPayload m = PData b)" and "ssClosed s'"
    and "hook \<longleftrightarrow> \<not> ssClosed s \<and> ssHook s"
proof -
  have fin: "finish t ms = (t', o', h) \<Longrightarrow> ssKind t = KExec \<Longrightarrow>
      o' = ms \<and> ssClosed t' \<and> (h \<longleftrightarrow> \<not> ssClosed t \<and> ssHook t)" for t ms t' o' h
    using session_Close_out [of t] session_Close_hook [of t] session_Close_fields(3) [of t]
    by (cases "session_Close t") (simp add: finish_def)
  have sc: "exec_sendClose (s\<lparr>ssPgid := p, ssWriter := w\<rparr>) c e = exec_sendClose s c e"
      "exec_sendClose (s\<lparr>ssPgid := p, ssWriter := w, ssCancelled := x\<rparr>) c e = exec_sendClose s c e"
    for p w x c e by (simp_all add: exec_sendClose_def)
  have "(\<exists>ms code err. out = ms @ [exec_sendClose s code err]
      \<and> (\<forall>m \<in> set ms. \<exists>b. pmPayload m = PData b)) \<and> ssClosed s' \<and> (hook \<longleftrightarrow> \<not> ssClosed s \<and> ssHook s)"
  proof (cases "exStdoutErr env = None \<and> exStderrErr env = None \<and> exStartErr env = None")
    case False
    then obtain e where "finish s [exec_sendClose s None e] = (s', out, hook)"
      using assms(1) by (auto simp: exec_run_def Let_def split: option.splits prod.splits)
    then show ?thesis using fin [of s] assms(2) by fastforce
  next
    case True
    obtain sw ms po where p: "pump ok (exReads env) (ssWriter s) = (sw, ms, po)"
      by (cases "pump ok (exReads env) (ssWriter s)")
    obtain t c e where t: "finish t (ms @ [exec_sendClose s c e]) = (s', out, hook)"
        "ssKind t = KExec" "ssClosed t = ssClosed s" "ssHook t = ssHook s"
      using assms True p
      by (auto simp: exec_run_def Let_def sc split: option.splits prod.splits if_splits proc_result.splits)
    then show ?thesis using fin [OF t(1,2)] pump_data [OF p] by blast
  qed
  then show "\<exists>ms code err. out = ms @ [exec_sendClose s code err]
      \<and> (\<forall>m \<in> set ms. \<exists>b. pmPayload m = PData b)" and "ssClosed s'"
    and "hook \<longleftrightarrow> \<not> ssClosed s \<and> ssHook s" by blast+
qed

text \<open>A pump that waits does not see what its source gives next.\<close>

lemma pump_blocked_append:
  "pump ok reads sw = (sw', ms, PumpBlocked rest) \<Longrightarrow> pump ok (reads @ later) sw = (sw', ms, PumpBlocked rest)"
proof (induction ok reads sw arbitrary: sw' ms rule: pump.induct)
  case (2 ok d err reads sw)
  obtain sw1 m1 o1 where w: "(if length d > 0 then write_loop ok sw d else (sw, [], WroteAll)) = (sw1, m1, o1)"
    by (cases "if length d > 0 then write_loop ok sw d else (sw, [], WroteAll)")
  note IH = "2.IH" [OF w [symmetric] refl]
  show ?case
    using "2.prems" IH unfolding append_Cons pump.simps w
    by (auto split: prod.splits write_outcome.splits option.splits)
qed simp

text \<open>With a window that fits all of it, the pump writes what it reads and ends with its source.\<close>

lemma pump_fits:
  assumes "fc_ok (swFc sw)" and "fc_used (swFc sw) + length (concat ds) \<le> 262144"
    and "unat (fcSent (swFc sw)) + length (concat ds) < 2 ^ 64"
  shows "\<exists>sw'. pump (\<lambda>_. True) (map (\<lambda>d. (d, None)) ds @ [([], Some e)]) sw
    = (sw', number_from (swTopic sw) (swSeq sw) (concat (map chunks ds)), PumpReadError e)"
  using assms
proof (induction ds arbitrary: sw)
  case (Cons d ds)
  obtain sw1 where sw1: "write_loop (\<lambda>_. True) sw d = (sw1, number_from (swTopic sw) (swSeq sw) (chunks d), WroteAll)"
      "swSeq sw1 = swSeq sw + of_nat (length (chunks d))" "unat (fcSent (swFc sw1)) = unat (fcSent (swFc sw)) + length d"
      "fc_ok (swFc sw1)" "fc_used (swFc sw1) = fc_used (swFc sw) + length d" "swTopic sw1 = swTopic sw"
    using write_loop_chunks [of sw d] Cons.prems by auto
  then have w: "(if length d > 0 then write_loop (\<lambda>_. True) sw d else (sw, [], WroteAll))
      = (sw1, number_from (swTopic sw) (swSeq sw) (chunks d), WroteAll)"
    by (auto simp: write_loop.simps)
  obtain sw' where "pump (\<lambda>_. True) (map (\<lambda>d. (d, None)) ds @ [([], Some e)]) sw1
      = (sw', number_from (swTopic sw1) (swSeq sw1) (concat (map chunks ds)), PumpReadError e)"
    using Cons.IH [of sw1] Cons.prems sw1 by auto
  with w sw1 show ?case by (simp add: number_from_append)
qed simp

text \<open>
  A command that starts, prints \<open>ds\<close>, closes its output and exits. Its session gets to the close message
  exactly if the output fits the window it starts with.
\<close>

definition command_prints :: "exec_env \<Rightarrow> byte list list \<Rightarrow> bool" where
  "command_prints env ds \<longleftrightarrow> exStdoutErr env = None \<and> exStderrErr env = None \<and> exStartErr env = None
     \<and> (\<exists>e. exReads env = map (\<lambda>d. (d, None)) ds @ [([], Some e)]) \<and> exWait env \<noteq> None"

lemma exec_run_fits:
  assumes "command_prints env ds" and "length (concat ds) \<le> 262144" and "\<not> ssCancelled s"
    and "ssWriter s = NewSequenceWriter topic (NewFlowControl FlowControlWindow)"
    and "exec_run (\<lambda>_. True) env s = (s', out, ended)" and "ssKind s = KExec"
  shows "ended \<noteq> None \<and> (\<exists>code err. out = number_from topic 0 (concat (map chunks ds)) @ [exec_sendClose s code err])"
proof -
  have fc: "fc_ok (swFc (ssWriter s))" "fc_used (swFc (ssWriter s)) = 0" "fcSent (swFc (ssWriter s)) = 0"
    using assms(4) by (simp_all add: NewSequenceWriter_def NewFlowControl_def fc_ok_def fc_used_def fc_inv_def)
  obtain e where e: "exReads env = map (\<lambda>d. (d, None)) ds @ [([], Some e)]" using assms(1) by (auto simp: command_prints_def)
  obtain sw where p: "pump (\<lambda>_. True) (exReads env) (ssWriter s)
      = (sw, number_from topic 0 (concat (map chunks ds)), PumpReadError e)"
    using pump_fits [of "ssWriter s" ds e] fc assms(2) unfolding e by (simp add: assms(4) NewSequenceWriter_def) blast
  have sc: "exec_sendClose (s\<lparr>ssPgid := p, ssWriter := w\<rparr>) c x = exec_sendClose s c x" for p w c x
    by (simp add: exec_sendClose_def)
  have fin: "finish t ms = (t', o', h) \<Longrightarrow> ssKind t = KExec \<Longrightarrow> o' = ms" for t ms t' o' h
    using session_Close_out [of t] by (cases "session_Close t") (simp add: finish_def)
  obtain w where w: "exWait env = Some w" using assms(1) by (auto simp: command_prints_def)
  show ?thesis
    using assms(1,5,6) p w
    by (cases w) (auto simp: command_prints_def exec_run_def Let_def wait_ctx_def sc dest!: fin split: prod.splits option.splits)
qed

lemma exec_run_stalls:
  assumes "command_prints env ds" and "262144 < length (concat ds)" and "length (concat ds) < 2 ^ 64"
    and "\<not> ssCancelled s" and "ssWriter s = NewSequenceWriter topic (NewFlowControl FlowControlWindow)"
    and "exec_run (\<lambda>_. True) env s = (s', out, ended)"
  shows "ended = None \<and> (\<forall>m \<in> set out. \<exists>b. pmPayload m = PData b)"
proof -
  obtain e where e: "exReads env = map (\<lambda>d. (d, None)) ds @ [([], Some e)]" using assms(1) by (auto simp: command_prints_def)
  obtain sw ms po where p: "pump (\<lambda>_. True) (map (\<lambda>d. (d, None)) ds) (ssWriter s) = (sw, ms, po)"
    by (cases "pump (\<lambda>_. True) (map (\<lambda>d. (d, None)) ds) (ssWriter s)")
  have bytes: "concat (map fst (map (\<lambda>d. (d, None :: string option)) ds)) = concat ds" by (simp add: comp_def)
  obtain rest where b: "po = PumpBlocked rest"
    using fresh_pump_stalls [OF p [unfolded assms(5)], unfolded bytes, OF _ assms(2,3)] by auto
  from pump_blocked_append [OF p [unfolded b]] have "pump (\<lambda>_. True) (exReads env) (ssWriter s) = (sw, ms, PumpBlocked rest)"
    unfolding e .
  with assms(1,4,6) pump_data [OF p] show ?thesis by (auto simp: command_prints_def exec_run_def Let_def wait_ctx_def)
qed

text \<open>The consumer loop of a session, from its first payload on.\<close>

lemma consumer_acks:
  assumes "writeTo_loop newSessionAckState cs = (bytes, acks, over)" and "length bytes < 2 ^ 64"
  shows "bytes = concat (delivered cs) \<and> sorted (map unat acks)
     \<and> (\<forall>a \<in> set acks. unat a \<le> length bytes)
     \<and> length bytes < (if acks = [] then 0 else unat (last acks)) + 65536"
proof -
  have b: "bytes = concat (delivered cs)" using writeTo_loop_bytes [of newSessionAckState cs] assms(1) by simp
  have inv: "ack_inv 0 newSessionAckState"
    by (simp add: ack_inv_def newSessionAckState_def FlowControlWindow_def)
  have n: "length bytes = chunk_bytes (delivered cs)" by (simp add: b chunk_bytes_def length_concat)
  note acks = writeTo_loop_acks [OF inv, of cs, unfolded assms(1) fst_conv snd_conv]
  show ?thesis
    using acks assms(2) n b by (simp add: last_total_def newSessionAckState_def)
qed

section \<open>Main properties\<close>

text \<open>C14. A command that ends has published its output as data frames and then one close message, last; the session is closed, and its hook ran unless it was closed before.\<close>

theorem exec_one_close:
  assumes "exec_run ok env s = (s', out, Some hook)" and "ssKind s = KExec"
  shows "(\<exists>ms code err. out = ms @ [exec_sendClose s code err] \<and> (\<forall>m \<in> set ms. \<exists>b. pmPayload m = PData b))
     \<and> ssClosed s' \<and> (hook \<longleftrightarrow> \<not> ssClosed s \<and> ssHook s)"
  using exec_run_ends [OF assms] by blast

theorem exec_one_close_witness:
  "\<exists>ms code err. fst (snd (exec_run (\<lambda>_. True)
      \<lparr>exStdoutErr = None, exStderrErr = None, exStartErr = Some ''no such file'', exPid = 0, exReads = [], exWait = None\<rparr>
      (NewExecSession ''e'' ''x'' [] []))) = ms @ [exec_sendClose (NewExecSession ''e'' ''x'' [] []) code err]"
proof -
  let ?s = "NewExecSession ''e'' ''x'' [] []"
  let ?env = "\<lparr>exStdoutErr = None, exStderrErr = None, exStartErr = Some ''no such file'', exPid = 0,
      exReads = [], exWait = None\<rparr>"
  obtain s' out hook where f: "finish ?s [exec_sendClose ?s None ''no such file''] = (s', out, hook)"
    by (cases "finish ?s [exec_sendClose ?s None ''no such file'']")
  then have r: "exec_run (\<lambda>_. True) ?env ?s = (s', out, Some hook)" by (simp add: exec_run_def)
  have "ssKind ?s = KExec" by (simp add: new_session_defs)
  from exec_one_close [OF r this] r show ?thesis by auto
qed

end
