(* ===== verification/NetIP.thy ===== *)
theory NetIP
  imports GoStd
begin

text \<open>
  IP addresses as the program uses them from \<open>net\<close>: printing (\<open>IP.String\<close>), parsing (\<open>ParseIP\<close>, over
  \<open>netip.ParseAddr\<close>) and the test for a loopback address. An address is its 4 or 16 bytes;
  \<open>ParseIP\<close> always gives 16.
\<close>

section \<open>Printing\<close>

definition dotted :: "byte list \<Rightarrow> string" where
  "dotted bs = join_with ''.'' (map (\<lambda>b. show_nat (unat b)) bs)"

fun show_hex :: "nat \<Rightarrow> string" where
  "show_hex n = (if n < 16 then [hex_char n] else show_hex (n div 16) @ [hex_char (n mod 16)])"

declare show_hex.simps [simp del]

fun groups :: "byte list \<Rightarrow> nat list" where
  "groups (a # b # bs) = (unat a * 256 + unat b) # groups bs"
| "groups _ = []"

text \<open>
  \<open>net.IP.String\<close> on 16 bytes prints the longest run of at least two zero groups, the first of
  that length, as two colons.
\<close>

fun zero_run :: "nat list \<Rightarrow> nat" where
  "zero_run (g # gs) = (if g = 0 then 1 + zero_run gs else 0)"
| "zero_run [] = 0"

fun longest_run :: "nat \<Rightarrow> nat list \<Rightarrow> nat \<times> nat \<Rightarrow> nat \<times> nat" where
  "longest_run i [] best = best"
| "longest_run i (g # gs) best =
     (let l = zero_run (g # gs) in
      longest_run (i + 1) gs (if l \<ge> 2 \<and> l > snd best then (i, l) else best))"

definition show_groups :: "nat list \<Rightarrow> string" where
  "show_groups gs =
     (case longest_run 0 gs (0, 0) of (start, len) \<Rightarrow>
        if len = 0 then join_with '':'' (map show_hex gs)
        else join_with '':'' (map show_hex (take start gs)) @ ''::''
             @ join_with '':'' (map show_hex (drop (start + len) gs)))"

definition is_v4_in_6 :: "byte list \<Rightarrow> bool" where
  "is_v4_in_6 bs \<longleftrightarrow> length bs = 16 \<and> take 10 bs = replicate 10 0 \<and> take 2 (drop 10 bs) = [0xFF, 0xFF]"

definition IP_String :: "byte list \<Rightarrow> string" where
  "IP_String bs =
     (if length bs = 4 then dotted bs
      else if is_v4_in_6 bs then dotted (drop 12 bs)
      else show_groups (groups bs))"

definition To4 :: "byte list \<Rightarrow> byte list option" where
  "To4 ip = (if length ip = 4 then Some ip else if is_v4_in_6 ip then Some (drop 12 ip) else None)"

definition v4_in_6 :: "byte list \<Rightarrow> byte list" where
  "v4_in_6 v = replicate 10 0 @ [0xFF, 0xFF] @ v"

definition IsLoopback :: "byte list \<Rightarrow> bool" where
  "IsLoopback ip \<longleftrightarrow> (case To4 ip of Some v \<Rightarrow> v ! 0 = 127 | None \<Rightarrow> ip = replicate 15 0 @ [1])"

section \<open>Parsing\<close>

text \<open>An octet has no leading zero and is at most 255; an IPv4 address has four of them.\<close>

definition parse_octet :: "string \<Rightarrow> byte option" where
  "parse_octet p =
     (if p \<noteq> [] \<and> list_all is_digit p \<and> (hd p = CHR ''0'' \<longrightarrow> length p = 1) \<and> digits_val p \<le> 255
      then Some (of_nat (digits_val p)) else None)"

definition parse_ipv4 :: "string \<Rightarrow> byte list option" where
  "parse_ipv4 s = (case map parse_octet (split_on CHR ''.'' s) of
     [Some a, Some b, Some c, Some d] \<Rightarrow> Some [a, b, c, d]
   | _ \<Rightarrow> None)"

definition is_hex :: "char \<Rightarrow> bool" where
  "is_hex c \<longleftrightarrow> is_digit c \<or> (65 \<le> (of_char c :: nat) \<and> (of_char c :: nat) \<le> 70)
     \<or> (97 \<le> (of_char c :: nat) \<and> (of_char c :: nat) \<le> 102)"

definition hex_digit_val :: "char \<Rightarrow> nat" where
  "hex_digit_val c =
     (if is_digit c then digit_val c else if (of_char c :: nat) \<le> 70 then of_char c - 55 else of_char c - 87)"

definition hex_digits_val :: "string \<Rightarrow> nat" where
  "hex_digits_val s = foldl (\<lambda>a c. a * 16 + hex_digit_val c) 0 s"

text \<open>
  The loop of \<open>parseIPv6\<close> over the fields. The first argument is the number of fields left: the
  loop ends at 16 bytes. The result: the bytes, where the two colons were, and what is left over.
\<close>

fun parse_fields6 :: "nat \<Rightarrow> string \<Rightarrow> byte list \<Rightarrow> nat option \<Rightarrow> (byte list \<times> nat option \<times> string) option" where
  "parse_fields6 0 s ip ellipsis = Some (ip, ellipsis, s)"
| "parse_fields6 (Suc k) s ip ellipsis =
     (let ds = takeWhile is_hex s; rest = dropWhile is_hex s; acc = hex_digits_val ds;
          ip' = ip @ [of_nat (acc div 256), of_nat (acc mod 256)] in
      if length ds > 4 \<or> ds = [] then None
      else if has_prefix rest ''.'' then
        (if ellipsis = None \<and> length ip \<noteq> 12 then None
         else if length ip + 4 > 16 then None
         else case parse_ipv4 s of None \<Rightarrow> None | Some v \<Rightarrow> Some (ip @ v, ellipsis, []))
      else if rest = [] then Some (ip', ellipsis, [])
      else if \<not> has_prefix rest '':'' then None
      else if length rest = 1 then None
      else if has_prefix (tl rest) '':'' then
        (if ellipsis \<noteq> None then None
         else if length rest = 2 then Some (ip', Some (length ip'), [])
         else parse_fields6 k (drop 2 rest) ip' (Some (length ip')))
      else parse_fields6 k (tl rest) ip' ellipsis)"

text \<open>A zone makes \<open>ParseIP\<close> fail, so an address with a percent sign is none.\<close>

definition parse_ipv6 :: "string \<Rightarrow> byte list option" where
  "parse_ipv6 s =
     (if CHR ''%'' \<in> set s then None
      else if s = ''::'' then Some (replicate 16 0)
      else case (if has_prefix s ''::'' then parse_fields6 8 (drop 2 s) [] (Some 0) else parse_fields6 8 s [] None) of
        None \<Rightarrow> None
      | Some (ip, ellipsis, rest) \<Rightarrow>
          if rest \<noteq> [] then None
          else if length ip < 16 then
            (case ellipsis of
               None \<Rightarrow> None
             | Some e \<Rightarrow> Some (take e ip @ replicate (16 - length ip) 0 @ drop e ip))
          else if ellipsis \<noteq> None then None
          else Some ip)"

definition ParseIP :: "string \<Rightarrow> byte list option" where
  "ParseIP s = (case dropWhile (\<lambda>c. c \<notin> set ''.:%'') s of
     [] \<Rightarrow> None
   | c # _ \<Rightarrow>
       if c = CHR ''.'' then map_option v4_in_6 (parse_ipv4 s)
       else if c = CHR '':'' then parse_ipv6 s
       else None)"

section \<open>Reading back\<close>

lemma parse_octet_show: "parse_octet (show_nat (unat b)) = Some b" for b :: byte
proof -
  have "unat b < 2 ^ LENGTH(8)" by (rule unsigned_less)
  then have le: "unat b \<le> 255" by simp
  have "hd (show_nat (unat b)) = CHR ''0'' \<longrightarrow> length (show_nat (unat b)) = 1"
    using show_nat_leading [of "unat b"] by (cases "unat b = 0") (simp_all add: show_nat.simps)
  with le show ?thesis by (simp add: parse_octet_def show_nat_digits digits_val_show_nat)
qed

lemma parse_ipv4_dotted: "parse_ipv4 (dotted [a, b, c, d]) = Some [a, b, c, d]"
proof -
  have "split_on CHR ''.'' (dotted [a, b, c, d]) = map (\<lambda>b. show_nat (unat b)) [a, b, c, d]"
    unfolding dotted_def by (rule split_on_join) (auto dest: show_nat_chars simp: is_digit_def)
  then show ?thesis by (simp add: parse_ipv4_def parse_octet_show)
qed

lemma dotted_chars: "x \<in> set (dotted [a, b, c, d]) \<Longrightarrow> is_digit x \<or> x = CHR ''.''"
  by (auto simp: dotted_def dest: show_nat_chars)

lemma dotted_four: "dotted [a, b, c, d] = show_nat (unat a) @ CHR ''.'' # dotted [b, c, d]"
  by (simp add: dotted_def)

lemma ParseIP_dotted: "ParseIP (dotted [a, b, c, d]) = Some (v4_in_6 [a, b, c, d])"
proof -
  have "x \<notin> set ''.:%''" if "is_digit x" for x using that by (auto simp: is_digit_def)
  then have "dropWhile (\<lambda>x. x \<notin> set ''.:%'') (show_nat (unat a) @ y) = dropWhile (\<lambda>x. x \<notin> set ''.:%'') y" for y
    by (rule_tac dropWhile_append2) (auto dest: show_nat_chars)
  then have "dropWhile (\<lambda>x. x \<notin> set ''.:%'') (dotted [a, b, c, d]) = CHR ''.'' # dotted [b, c, d]"
    unfolding dotted_four by simp
  then show ?thesis by (simp add: ParseIP_def parse_ipv4_dotted)
qed

lemma To4_v4_in_6: "length v = 4 \<Longrightarrow> To4 (v4_in_6 v) = Some v"
  by (simp add: To4_def v4_in_6_def is_v4_in_6_def)

lemma IsLoopback_v4: "IsLoopback (v4_in_6 [a, b, c, d]) \<longleftrightarrow> a = 127"
  by (simp add: IsLoopback_def To4_v4_in_6)

lemma ParseIP_loopback6: "ParseIP ''::1'' = Some (replicate 15 0 @ [1])"
  by code_simp

lemma IsLoopback_six: "IsLoopback (replicate 15 0 @ [1])"
  by code_simp

section \<open>Reading back a 16-byte address\<close>

lemma hex_char_code: "n < 16 \<Longrightarrow> (of_char (hex_char n) :: nat) = (if n < 10 then 48 + n else 87 + n)"
  by (simp add: hex_char_def digit_char_def)

lemma hex_char_facts:
  assumes "n < 16"
  shows "is_hex (hex_char n)" and "hex_digit_val (hex_char n) = n" and "hex_char n \<notin> set ''.:%[]''"
proof -
  note code = hex_char_code [OF assms]
  show "is_hex (hex_char n)" using code assms by (simp add: is_hex_def is_digit_def)
  show "hex_digit_val (hex_char n) = n" using code assms by (simp add: hex_digit_val_def is_digit_def digit_val_def)
  show "hex_char n \<notin> set ''.:%[]''"
  proof
    assume "hex_char n \<in> set ''.:%[]''"
    then have "(of_char (hex_char n) :: nat) \<in> {46, 58, 37, 91, 93}" by auto
    with code assms show False by (simp split: if_splits)
  qed
qed

lemma show_hex_step: "show_hex n = (if n < 16 then [] else show_hex (n div 16)) @ [hex_char (n mod 16)]"
  by (subst show_hex.simps) simp

lemma show_hex_props:
  "list_all is_hex (show_hex n) \<and> hex_digits_val (show_hex n) = n \<and> show_hex n \<noteq> [] \<and> set (show_hex n) \<inter> set ''.:%[]'' = {}"
proof (induction n rule: less_induct)
  case (less n)
  have "n mod 16 < 16" by simp
  note c = hex_char_facts [OF this]
  show ?case
  proof (cases "n < 16")
    case True
    with c show ?thesis by (subst (1 2 3 4) show_hex_step) (simp add: hex_digits_val_def)
  next
    case False
    then have "n div 16 < n" by simp
    from less.IH [OF this] c False show ?thesis
      by (subst (1 2 3 4) show_hex_step) (auto simp: hex_digits_val_def)
  qed
qed

lemma show_hex_length: "n < 16 ^ Suc k \<Longrightarrow> length (show_hex n) \<le> Suc k"
proof (induction k arbitrary: n)
  case (Suc k)
  have "n div 16 < 16 ^ Suc k" using Suc.prems by (simp add: less_mult_imp_div_less mult.commute)
  from Suc.IH [OF this] show ?case by (subst show_hex_step) simp
qed (subst show_hex_step, simp)

definition group_bytes :: "nat list \<Rightarrow> byte list" where
  "group_bytes gs = concat (map (\<lambda>g. [of_nat (g div 256), of_nat (g mod 256)]) gs)"

lemma group_bytes_simps [simp]:
  "group_bytes [] = []" "group_bytes (g # gs) = of_nat (g div 256) # of_nat (g mod 256) # group_bytes gs"
  "group_bytes (gs @ hs) = group_bytes gs @ group_bytes hs" "length (group_bytes gs) = 2 * length gs"
  "group_bytes (replicate n 0) = replicate (2 * n) 0"
  by (simp_all add: group_bytes_def length_concat comp_def sum_list_triv) (induction n, simp_all)

lemma groups_inverse: "even (length bs) \<Longrightarrow> group_bytes (groups bs) = bs"
proof (induction bs rule: groups.induct)
  case (1 a b bs)
  have "unat b < 256" using unsigned_less [of b] by simp
  with 1 show ?case by simp
qed auto

lemma groups_props: "even (length bs) \<Longrightarrow> length (groups bs) = length bs div 2 \<and> (\<forall>g \<in> set (groups bs). g < 65536)"
proof (induction bs rule: groups.induct)
  case (1 a b bs)
  have "unat a < 256" "unat b < 256" using unsigned_less [of a] unsigned_less [of b] by simp_all
  with 1 show ?case by auto
qed auto

text \<open>The longest run that was found is a run of zeros.\<close>

lemma zero_run_replicate: "\<exists>rest. gs = replicate (zero_run gs) 0 @ rest"
  by (induction gs) auto

definition run_of :: "nat list \<Rightarrow> nat \<times> nat \<Rightarrow> bool" where
  "run_of gs best \<longleftrightarrow> snd best = 0 \<or> (snd best \<ge> 2 \<and>
     (\<exists>pre post. gs = pre @ replicate (snd best) 0 @ post \<and> length pre = fst best))"

lemma longest_run_of: "gs = pre @ hs \<Longrightarrow> length pre = i \<Longrightarrow> run_of gs best \<Longrightarrow> run_of gs (longest_run i hs best)"
proof (induction i hs best arbitrary: pre rule: longest_run.induct)
  case (2 i g hs best)
  obtain rest where r: "g # hs = replicate (zero_run (g # hs)) 0 @ rest" using zero_run_replicate by blast
  have "run_of gs (i, zero_run (g # hs))" if "zero_run (g # hs) \<ge> 2"
    using that "2.prems"(1,2) r unfolding run_of_def by (metis fst_conv snd_conv)
  then have "run_of gs (if zero_run (g # hs) \<ge> 2 \<and> zero_run (g # hs) > snd best then (i, zero_run (g # hs)) else best)"
    using "2.prems"(3) by simp
  from "2.IH" [OF refl _ _ this, of "pre @ [g]"] "2.prems"(1,2) show ?case
    unfolding longest_run.simps Let_def by (simp del: zero_run.simps)
qed simp

text \<open>Fields without and with the two colons.\<close>

lemma field_read:
  assumes "g < 65536" and "\<not> (\<exists>c r. rest = c # r \<and> is_hex c)"
  shows "takeWhile is_hex (show_hex g @ rest) = show_hex g" and "dropWhile is_hex (show_hex g @ rest) = rest"
    and "length (show_hex g) \<le> 4"
  using assms show_hex_props [of g] show_hex_length [of g 3]
  by (cases rest; auto simp: list_all_iff takeWhile_append dropWhile_append)+

lemma join_hex_head:
  assumes "gs \<noteq> []"
  shows "\<exists>c r. join_with '':'' (map show_hex gs) = c # r \<and> is_hex c \<and> c \<notin> set ''.:%[]''"
proof -
  obtain g hs where gs: "gs = g # hs" using assms by (cases gs) auto
  obtain c r where c: "show_hex g = c # r" "is_hex c" "c \<notin> set ''.:%[]''"
    using show_hex_props [of g] by (cases "show_hex g") auto
  then show ?thesis by (cases hs) (auto simp: gs)
qed

lemma not_hex: "\<not> is_hex CHR '':''" "\<not> is_hex CHR ''.''" "\<not> is_hex CHR ''%''" "\<not> is_hex CHR ''/''"
  by (simp_all add: is_hex_def is_digit_def)

lemma parse_fields6_join:
  "gs \<noteq> [] \<Longrightarrow> length gs \<le> k \<Longrightarrow> \<forall>g \<in> set gs. g < 65536 \<Longrightarrow>
     parse_fields6 k (join_with '':'' (map show_hex gs)) ip e = Some (ip @ group_bytes gs, e, [])"
proof (induction gs arbitrary: k ip)
  case (Cons g gs)
  obtain k' where k: "k = Suc k'" using Cons.prems(2) by (cases k) auto
  show ?case
  proof (cases "gs = []")
    case True
    have g: "g < 65536" using Cons.prems(3) by simp
    from field_read [of g "[]", OF g] True k show_hex_props [of g] show ?thesis
      by (simp add: Let_def has_prefix_def del: takeWhile_eq_all_conv dropWhile_eq_Nil_conv)
  next
    case False
    let ?t = "join_with '':'' (map show_hex gs)"
    have s: "join_with '':'' (map show_hex (g # gs)) = show_hex g @ CHR '':'' # ?t" using False by (cases gs) simp_all
    obtain c r where c: "?t = c # r" "is_hex c" "c \<notin> set ''.:%[]''" using join_hex_head [OF False] by blast
    have g: "g < 65536" using Cons.prems(3) by simp
    note f = field_read [of g "CHR '':'' # ?t", OF g]
    from Cons.IH [OF False, of k'] Cons.prems k f show_hex_props [of g] c not_hex show ?thesis
      unfolding s by (simp add: Let_def has_prefix_def)
  qed
qed simp

lemma parse_fields6_gap:
  "gs \<noteq> [] \<Longrightarrow> length gs + length hs < k \<Longrightarrow> \<forall>g \<in> set (gs @ hs). g < 65536 \<Longrightarrow>
     parse_fields6 k (join_with '':'' (map show_hex gs) @ ''::'' @ join_with '':'' (map show_hex hs)) ip None
       = Some (ip @ group_bytes gs @ group_bytes hs, Some (length ip + 2 * length gs), [])"
proof (induction gs arbitrary: k ip)
  case (Cons g gs)
  obtain k' where k: "k = Suc k'" using Cons.prems(2) by (cases k) auto
  let ?h = "join_with '':'' (map show_hex hs)"
  have g: "g < 65536" using Cons.prems(3) by simp
  show ?case
  proof (cases "gs = []")
    case True
    note f = field_read [of g "''::'' @ ?h", OF g]
    show ?thesis
    proof (cases "hs = []")
      case hs: True
      from f True k show_hex_props [of g] not_hex hs show ?thesis by (simp add: Let_def has_prefix_def)
    next
      case False
      from join_hex_head [OF False] have "?h \<noteq> []" by auto
      with f True k show_hex_props [of g] not_hex parse_fields6_join [OF False, of k'] Cons.prems show ?thesis
        by (simp add: Let_def has_prefix_def)
    qed
  next
    case False
    let ?t = "join_with '':'' (map show_hex gs) @ ''::'' @ ?h"
    have s: "join_with '':'' (map show_hex (g # gs)) @ ''::'' @ ?h = show_hex g @ CHR '':'' # ?t" using False by (cases gs) simp_all
    obtain c r where c: "?t = c # r" "is_hex c" "c \<notin> set ''.:%[]''" using join_hex_head [OF False] by auto
    note f = field_read [of g "CHR '':'' # ?t", OF g]
    from Cons.IH [OF False, of k'] Cons.prems k f show_hex_props [of g] c not_hex show ?thesis
      unfolding s by (simp add: Let_def has_prefix_def)
  qed
qed simp

text \<open>The characters of a printed address, and the first that \<open>ParseIP\<close> looks at.\<close>

lemma join_hex_chars: "c \<in> set (join_with '':'' (map show_hex gs)) \<Longrightarrow> c = CHR '':'' \<or> c \<notin> set ''.%[]''"
proof (induction gs)
  case (Cons g gs)
  with show_hex_props [of g] show ?case by (cases gs) auto
qed simp

lemma colon_first:
  assumes "CHR '':'' \<in> set s" and "CHR ''.'' \<notin> set s" and "CHR ''%'' \<notin> set s"
  shows "ParseIP s = parse_ipv6 s"
proof -
  define P where "P c \<longleftrightarrow> c \<notin> set ''.:%''" for c :: char
  have "\<not> P (CHR '':'')" by (simp add: P_def)
  with assms(1) have "dropWhile P s \<noteq> []" using dropWhile_eq_Nil_conv [of P s] by blast
  then obtain c t where d: "dropWhile P s = c # t" by (cases "dropWhile P s") auto
  have "\<not> P c" using hd_dropWhile [of P s] d by simp
  moreover have "c \<in> set s" using set_dropWhileD [of c P s] d by simp
  ultimately have "c = CHR '':''" using assms by (auto simp: P_def)
  moreover have "ParseIP s = (case dropWhile P s of [] \<Rightarrow> None
      | c # _ \<Rightarrow> if c = CHR ''.'' then map_option v4_in_6 (parse_ipv4 s) else if c = CHR '':'' then parse_ipv6 s else None)"
    by (simp only: ParseIP_def P_def [abs_def])
  ultimately show ?thesis by (simp add: d)
qed

lemma show_groups_chars: "c \<in> set (show_groups gs) \<Longrightarrow> c = CHR '':'' \<or> c \<notin> set ''.%[]''"
  by (auto simp: show_groups_def split: prod.splits if_splits dest: join_hex_chars)

lemma parse_ipv6_fields:
  assumes "CHR ''%'' \<notin> set s" and "s = c # t" and "c \<noteq> CHR '':''" and "parse_fields6 8 s [] None = Some (ip, e, [])"
  shows "parse_ipv6 s = (if length ip < 16 then (case e of None \<Rightarrow> None
      | Some n \<Rightarrow> Some (take n ip @ replicate (16 - length ip) 0 @ drop n ip)) else if e \<noteq> None then None else Some ip)"
proof -
  have "s \<noteq> ''::''" "\<not> has_prefix s ''::''" using assms(2,3) by (simp_all add: has_prefix_def)
  then show ?thesis unfolding parse_ipv6_def if_not_P [OF assms(1)] by (simp add: assms(4))
qed

lemma parse_ipv6_gap:
  assumes "CHR ''%'' \<notin> set s" and "s = ''::'' @ t" and "t \<noteq> []" and "parse_fields6 8 t [] (Some 0) = Some (ip, Some n, [])"
    and "length ip < 16"
  shows "parse_ipv6 s = Some (take n ip @ replicate (16 - length ip) 0 @ drop n ip)"
proof -
  have "s \<noteq> ''::''" "has_prefix s ''::''" "drop 2 s = t" using assms(2,3) by (simp_all add: has_prefix_def)
  then show ?thesis unfolding parse_ipv6_def if_not_P [OF assms(1)] by (simp add: assms(4,5))
qed

lemma show_groups_colon: "length gs \<ge> 2 \<Longrightarrow> CHR '':'' \<in> set (show_groups gs)"
proof -
  assume "length gs \<ge> 2"
  then obtain a b hs where "gs = a # b # hs" by (cases gs rule: remdups_adj.cases) auto
  then have j: "CHR '':'' \<in> set (join_with '':'' (map show_hex gs))" by simp
  obtain start len where "longest_run 0 gs (0, 0) = (start, len)" by (cases "longest_run 0 gs (0, 0)")
  with j show ?thesis by (simp add: show_groups_def)
qed

lemma parse_ipv6_groups:
  assumes "length gs = 8" and "\<forall>g \<in> set gs. g < 65536"
  shows "parse_ipv6 (show_groups gs) = Some (group_bytes gs)"
proof -
  obtain start len where r: "longest_run 0 gs (0, 0) = (start, len)" by (cases "longest_run 0 gs (0, 0)")
  have run: "run_of gs (start, len)"
    using longest_run_of [of gs "[]" gs 0 "(0, 0)"] r by (simp add: run_of_def)
  have pc: "CHR ''%'' \<notin> set (show_groups gs)" using show_groups_chars by fastforce
  show ?thesis
  proof (cases "len = 0")
    case True
    then have s: "show_groups gs = join_with '':'' (map show_hex gs)" using r by (simp add: show_groups_def)
    have ne: "gs \<noteq> []" using assms(1) by auto
    obtain c t where c: "show_groups gs = c # t" "c \<notin> set ''.:%[]''" using join_hex_head [OF ne] unfolding s by blast
    from parse_fields6_join [OF ne, of 8 "[]" None] assms have f: "parse_fields6 8 (show_groups gs) [] None = Some (group_bytes gs, None, [])"
      unfolding s by simp
    from c(2) have "c \<noteq> CHR '':''" by auto
    from parse_ipv6_fields [OF pc c(1) this f] assms(1) show ?thesis by simp
  next
    case False
    with run obtain pre post where sp: "gs = pre @ replicate len 0 @ post" "length pre = start" "len \<ge> 2"
      by (auto simp: run_of_def)
    let ?h = "join_with '':'' (map show_hex post)"
    have s: "show_groups gs = join_with '':'' (map show_hex pre) @ ''::'' @ ?h"
      using r False sp by (simp add: show_groups_def)
    have l: "length pre + length post < 8" "16 - 2 * (length pre + length post) = 2 * len" using sp(1,3) assms(1) by auto
    have small: "\<forall>g \<in> set (pre @ post). g < 65536" using assms(2) sp(1) by auto
    have fill: "take (2 * length pre) (group_bytes pre @ group_bytes post)
        @ replicate (16 - length (group_bytes pre @ group_bytes post)) 0 @ drop (2 * length pre) (group_bytes pre @ group_bytes post) = group_bytes gs"
      using l by (simp add: sp(1))
    have short: "length (group_bytes pre @ group_bytes post) < 16" using l(1) by simp
    consider (none) "pre = []" "post = []" | (front) "pre = []" "post \<noteq> []" | (inner) "pre \<noteq> []" by blast
    then show ?thesis
    proof cases
      case none
      with sp(1) assms(1) have "gs = replicate 8 0" by simp
      with none s show ?thesis by (simp add: parse_ipv6_def)
    next
      case front
      have "?h \<noteq> []" using join_hex_head [OF front(2)] by auto
      moreover have "parse_fields6 8 ?h [] (Some 0) = Some (group_bytes post, Some 0, [])"
        using parse_fields6_join [OF front(2), of 8 "[]" "Some 0"] small l(1) by simp
      ultimately show ?thesis
        using parse_ipv6_gap [OF pc _ _ _, of ?h "group_bytes post" 0] s front short fill by simp
    next
      case inner
      obtain c t where c: "show_groups gs = c # t" "c \<notin> set ''.:%[]''" using join_hex_head [OF inner] unfolding s by auto
      from c(2) have "c \<noteq> CHR '':''" by auto
      moreover have "parse_fields6 8 (show_groups gs) [] None
          = Some (group_bytes pre @ group_bytes post, Some (2 * length pre), [])"
        using parse_fields6_gap [OF inner l(1) small, of "[]"] unfolding s by simp
      ultimately show ?thesis using parse_ipv6_fields [OF pc c(1)] short fill by simp
    qed
  qed
qed

lemma v4_in_6_cases:
  assumes "is_v4_in_6 ip"
  obtains a b c d where "ip = v4_in_6 [a, b, c, d]"
proof -
  have four: "length v = 4 \<Longrightarrow> \<exists>a b c d. v = [a, b, c, d]" for v :: "byte list"
    by (auto simp: numeral_eq_Suc length_Suc_conv)
  obtain a b c d where v: "drop 12 ip = [a, b, c, d]" using four [of "drop 12 ip"] assms by (auto simp: is_v4_in_6_def)
  have "ip = take 10 ip @ take 2 (drop 10 ip) @ drop 12 ip"
    using append_take_drop_id [of 10 ip] append_take_drop_id [of 2 "drop 10 ip"] by simp
  then have "ip = v4_in_6 [a, b, c, d]" using assms v by (simp add: is_v4_in_6_def v4_in_6_def)
  then show thesis by (rule that)
qed

text \<open>\<open>ParseIP\<close> reads back every address that \<open>IP.String\<close> prints.\<close>

lemma ParseIP_String:
  assumes "length ip = 16"
  shows "ParseIP (IP_String ip) = Some ip"
proof (cases "is_v4_in_6 ip")
  case True
  then obtain a b c d where v: "ip = v4_in_6 [a, b, c, d]" by (rule v4_in_6_cases)
  then have "drop 12 ip = [a, b, c, d]" by (simp add: v4_in_6_def)
  with ParseIP_dotted v True assms show ?thesis by (simp add: IP_String_def)
next
  case False
  have s: "IP_String ip = show_groups (groups ip)" using assms False by (simp add: IP_String_def)
  have gs: "length (groups ip) = 8" "\<forall>g \<in> set (groups ip). g < 65536" using groups_props [of ip] assms by simp_all
  note p = parse_ipv6_groups [OF gs] show_groups_colon [of "groups ip"]
  have "CHR ''.'' \<notin> set (IP_String ip)" "CHR ''%'' \<notin> set (IP_String ip)"
    unfolding s using show_groups_chars by fastforce+
  then show ?thesis using colon_first [of "IP_String ip"] p gs(1) groups_inverse [of ip] assms by (simp add: s)
qed

text \<open>The loopback addresses: 127.0.0.0/8 and ::1.\<close>

lemma IsLoopback_16:
  assumes "length ip = 16"
  shows "IsLoopback ip \<longleftrightarrow> ip = replicate 15 0 @ [1] \<or> (\<exists>b c d. ip = v4_in_6 [127, b, c, d])"
proof (cases "is_v4_in_6 ip")
  case True
  then obtain a b c d where v: "ip = v4_in_6 [a, b, c, d]" by (rule v4_in_6_cases)
  have "\<not> is_v4_in_6 (replicate 15 0 @ [1])" by code_simp
  with True have "ip \<noteq> replicate 15 0 @ [1]" by blast
  with v show ?thesis by (auto simp: IsLoopback_v4) (auto simp: v4_in_6_def)
next
  case False
  then have "To4 ip = None" using assms by (simp add: To4_def)
  moreover have "is_v4_in_6 (v4_in_6 [127, b, c, d])" for b c d by (simp add: is_v4_in_6_def v4_in_6_def)
  ultimately show ?thesis using False by (auto simp: IsLoopback_def)
qed

lemma join_with_mem: "x \<in> set (join_with sep ps) \<Longrightarrow> x \<in> set sep \<or> (\<exists>p \<in> set ps. x \<in> set p)"
  by (induction sep ps rule: join_with.induct) auto

lemma IP_String_chars:
  assumes "c \<in> set (IP_String ip)"
  shows "c \<notin> set ''[]%''"
proof -
  have d: "c \<in> set (dotted bs) \<Longrightarrow> is_digit c \<or> c = CHR ''.''" for bs
    unfolding dotted_def by (drule join_with_mem) (auto dest: show_nat_chars)
  consider bs where "c \<in> set (dotted bs)" | gs where "c \<in> set (show_groups gs)"
    using assms by (auto simp: IP_String_def split: if_splits)
  then show ?thesis
  proof cases
    case 1
    with d [of bs] show ?thesis by (auto simp: is_digit_def)
  next
    case 2
    with show_groups_chars [of c gs] show ?thesis by auto
  qed
qed

text \<open>What is no address: a text with a zone, and a path.\<close>

lemma parse_ipv4_bad:
  assumes "c \<in> set s" and "\<not> is_digit c" and "c \<noteq> CHR ''.''"
  shows "parse_ipv4 s = None"
proof -
  have "c \<in> set (join_with [CHR ''.''] (split_on CHR ''.'' s))" using assms(1) by (simp add: join_split_on)
  from join_with_mem [OF this] assms(3) obtain p where p: "p \<in> set (split_on CHR ''.'' s)" "c \<in> set p" by auto
  then have "parse_octet p = None" using assms(2) by (auto simp: parse_octet_def list_all_iff)
  then have "None \<in> set (map parse_octet (split_on CHR ''.'' s))" using p(1) by (metis image_eqI set_map)
  then show ?thesis by (auto simp: parse_ipv4_def split: list.splits option.splits)
qed

lemma ParseIP_zone: "CHR ''%'' \<in> set s \<Longrightarrow> ParseIP s = None"
  using parse_ipv4_bad [of "CHR ''%''" s] by (auto simp: ParseIP_def parse_ipv6_def is_digit_def split: list.split)

lemma parse_ipv6_path: "parse_ipv6 (CHR ''/'' # t) = None"
proof -
  have "takeWhile is_hex (CHR ''/'' # t) = []" using not_hex(4) by simp
  then have "parse_fields6 (Suc 7) (CHR ''/'' # t) [] None = None"
    unfolding parse_fields6.simps Let_def by (simp only: list.size simp_thms if_True)
  moreover have "Suc 7 = 8" by simp
  ultimately have "parse_fields6 8 (CHR ''/'' # t) [] None = None" by (simp only:)
  moreover have "\<not> has_prefix (CHR ''/'' # t) ''::''" "CHR ''/'' # t \<noteq> ''::''" by (simp_all add: has_prefix_def)
  ultimately show ?thesis unfolding parse_ipv6_def by (simp only: if_False if_cancel option.case)
qed

lemma ParseIP_path: "ParseIP (CHR ''/'' # t) = None"
proof -
  have "parse_ipv4 (CHR ''/'' # t) = None"
    by (rule parse_ipv4_bad [of "CHR ''/''"]) (simp_all add: is_digit_def)
  with parse_ipv6_path show ?thesis unfolding ParseIP_def by (simp only: option.map if_cancel split: list.split) simp
qed

end
