(* ===== verification/Shadow.thy ===== *)
theory Shadow
  imports Transport NetIP "HOL-Library.List_Lexorder" "HOL-Library.Char_ord" "HOL-Library.Multiset"
begin

text \<open>
  The device shadow reporter: \<open>internal/shadow/shadow.go\<close> and \<open>network.go\<close>. The \<open>interfaces\<close> member
  of the reported state is a string that holds the text of another document. What the network
  answers (interfaces, HTTP and DNS queries) is an argument.
\<close>

section \<open>Reported state\<close>

record reportedState =
  rsVersion :: string
  rsPublicIP :: "string list"
  rsInterfaces :: string

definition zeroReported :: reportedState where
  "zeroReported = \<lparr>rsVersion = [], rsPublicIP = [], rsInterfaces = []\<rparr>"

text \<open>Decoding \<open>[]string\<close> and \<open>map[string][]string\<close>.\<close>

definition dec_string :: "json \<Rightarrow> string option" where
  "dec_string j = (case j of JStr s \<Rightarrow> Some s | JNull \<Rightarrow> Some [] | _ \<Rightarrow> None)"

fun all_some :: "'a option list \<Rightarrow> 'a list option" where
  "all_some [] = Some []"
| "all_some (None # xs) = None"
| "all_some (Some x # xs) = map_option (Cons x) (all_some xs)"

definition dec_strings :: "json \<Rightarrow> string list option" where
  "dec_strings j = (case j of JArr js \<Rightarrow> all_some (map dec_string js) | JNull \<Rightarrow> Some [] | _ \<Rightarrow> None)"

fun dec_pairs :: "(string \<times> json) list \<Rightarrow> (string \<Rightarrow> string list option) option" where
  "dec_pairs [] = Some Map.empty"
| "dec_pairs ((k, j) # ms) = (case dec_strings j of
     None \<Rightarrow> None
   | Some v \<Rightarrow> (case dec_pairs ms of
       None \<Rightarrow> None
     | Some m \<Rightarrow> Some (if m k = None then m(k \<mapsto> v) else m)))"

definition decodeInterfaces :: "string \<Rightarrow> (string \<Rightarrow> string list option) option" where
  "decodeInterfaces s =
     (if s = [] then Some Map.empty
      else case json_parse s of
        None \<Rightarrow> None
      | Some j \<Rightarrow> (case j of JObj ms \<Rightarrow> dec_pairs ms | JNull \<Rightarrow> Some Map.empty | _ \<Rightarrow> None))"

text \<open>The loop over the first map: its order does not matter, as it only looks for a difference.\<close>

definition equalInterfaces :: "string \<Rightarrow> string \<Rightarrow> bool" where
  "equalInterfaces a b =
     (case decodeInterfaces a of
        None \<Rightarrow> False
      | Some ma \<Rightarrow> (case decodeInterfaces b of
          None \<Rightarrow> False
        | Some mb \<Rightarrow>
            if card (dom ma) \<noteq> card (dom mb) then False
            else (\<forall>name \<in> dom ma. case mb name of
                None \<Rightarrow> False
              | Some other \<Rightarrow> length (the (ma name)) = length other
                  \<and> (\<forall>i < length other. the (ma name) ! i = other ! i))))"

fun count_up :: "string list \<Rightarrow> (string \<Rightarrow> int) \<Rightarrow> string \<Rightarrow> int" where
  "count_up [] counts = counts"
| "count_up (v # vs) counts = count_up vs (counts(v := counts v + 1))"

fun count_down :: "string list \<Rightarrow> (string \<Rightarrow> int) \<Rightarrow> bool" where
  "count_down [] counts = True"
| "count_down (v # vs) counts =
     (let counts1 = counts(v := counts v - 1) in
      if counts1 v < 0 then False else count_down vs counts1)"

definition equalStringSet :: "string list \<Rightarrow> string list \<Rightarrow> bool" where
  "equalStringSet a b =
     (if length a \<noteq> length b then False else count_down b (count_up a (\<lambda>_. 0)))"

definition reported_equal :: "reportedState \<Rightarrow> reportedState \<Rightarrow> bool" where
  "reported_equal s t =
     (if rsVersion s \<noteq> rsVersion t then False
      else if \<not> equalStringSet (rsPublicIP s) (rsPublicIP t) then False
      else equalInterfaces (rsInterfaces s) (rsInterfaces t))"

section \<open>Documents\<close>

definition enc_reported :: "reportedState \<Rightarrow> json" where
  "enc_reported s = JObj (
     omit_str ''version'' (rsVersion s)
     @ (if rsPublicIP s = [] then [] else [(''public_ip'', JArr (map JStr (rsPublicIP s)))])
     @ omit_str ''interfaces'' (rsInterfaces s))"

definition shadowUpdate :: "reportedState \<Rightarrow> json" where
  "shadowUpdate s = JObj [(''state'', JObj [(''reported'', enc_reported s)])]"

definition key_is :: "string \<Rightarrow> string \<Rightarrow> bool" where
  "key_is name key \<longleftrightarrow> fold_name key = name"

fun dec_reported_members :: "(string \<times> json) list \<Rightarrow> reportedState \<Rightarrow> reportedState option" where
  "dec_reported_members [] s = Some s"
| "dec_reported_members ((k, j) # ms) s =
     (case (if key_is ''version'' k then
              (case j of JStr v \<Rightarrow> Some (s\<lparr>rsVersion := v\<rparr>) | JNull \<Rightarrow> Some s | _ \<Rightarrow> None)
            else if key_is ''public_ip'' k then
              (case j of JNull \<Rightarrow> Some (s\<lparr>rsPublicIP := []\<rparr>)
               | _ \<Rightarrow> map_option (\<lambda>v. s\<lparr>rsPublicIP := v\<rparr>) (dec_strings j))
            else if key_is ''interfaces'' k then
              (case j of JStr v \<Rightarrow> Some (s\<lparr>rsInterfaces := v\<rparr>) | JNull \<Rightarrow> Some s | _ \<Rightarrow> None)
            else Some s) of
        None \<Rightarrow> None
      | Some s' \<Rightarrow> dec_reported_members ms s')"

definition dec_object :: "((string \<times> json) list \<Rightarrow> 'a \<Rightarrow> 'a option) \<Rightarrow> json \<Rightarrow> 'a \<Rightarrow> 'a option" where
  "dec_object f j s = (case j of JObj ms \<Rightarrow> f ms s | JNull \<Rightarrow> Some s | _ \<Rightarrow> None)"

fun dec_nested :: "string \<Rightarrow> (json \<Rightarrow> 'a \<Rightarrow> 'a option) \<Rightarrow> (string \<times> json) list \<Rightarrow> 'a \<Rightarrow> 'a option" where
  "dec_nested name f [] s = Some s"
| "dec_nested name f ((k, j) # ms) s =
     (case (if key_is name k then f j s else Some s) of
        None \<Rightarrow> None
      | Some s' \<Rightarrow> dec_nested name f ms s')"

definition shadowGetResponse :: "json \<Rightarrow> reportedState option" where
  "shadowGetResponse j =
     dec_object (dec_nested ''state'' (dec_object (dec_nested ''reported'' (dec_object dec_reported_members)))) j zeroReported"

section \<open>The reporter\<close>

record Reporter =
  rpDeviceID :: string
  rpVersion :: string
  rpTrigger :: bool
  rpOut :: "PubMessage list"

definition NewReporter :: "string \<Rightarrow> string \<Rightarrow> Reporter" where
  "NewReporter deviceID version = \<lparr>rpDeviceID = deviceID, rpVersion = version, rpTrigger = False, rpOut = []\<rparr>"

definition getAcceptedTopic :: "Reporter \<Rightarrow> string" where
  "getAcceptedTopic r = ''$aws/things/'' @ rpDeviceID r @ ''/shadow/get/accepted''"

definition json_pub :: "string \<Rightarrow> payload \<Rightarrow> PubMessage" where
  "json_pub topic p = \<lparr>pmTopic = topic, pmPayload = p, pmQoS = 1, pmContentType = ''application/json'',
     pmResponseTopic = []\<rparr>"

definition ReportNow :: "Reporter \<Rightarrow> Reporter" where
  "ReportNow r = r\<lparr>rpTrigger := True\<rparr>"

definition requestShadow :: "Reporter \<Rightarrow> Reporter" where
  "requestShadow r = r\<lparr>rpOut := rpOut r @ [json_pub (''$aws/things/'' @ rpDeviceID r @ ''/shadow/get'') (PText ''{}'')]\<rparr>"

definition publishUpdate :: "reportedState \<Rightarrow> Reporter \<Rightarrow> Reporter" where
  "publishUpdate s r = r\<lparr>rpOut := rpOut r
     @ [json_pub (''$aws/things/'' @ rpDeviceID r @ ''/shadow/update'') (PJson (shadowUpdate s))]\<rparr>"

text \<open>What the \<open>select\<close> of \<open>Run\<close> picks; the trigger can be picked only when it is there.\<close>

datatype run_choice = RunCtxDone | RunTick | RunTrigger

fun reporter_Run :: "run_choice list \<Rightarrow> Reporter \<Rightarrow> Reporter" where
  "reporter_Run [] r = r"
| "reporter_Run (RunCtxDone # cs) r = r"
| "reporter_Run (RunTick # cs) r = reporter_Run cs (requestShadow r)"
| "reporter_Run (RunTrigger # cs) r =
     (if rpTrigger r then reporter_Run cs (requestShadow (r\<lparr>rpTrigger := False\<rparr>)) else reporter_Run cs r)"

text \<open>
  \<open>localInterfaces\<close>: \<open>ifAddrs\<close> is \<open>None\<close> when the addresses cannot be read. The map is marshalled
  with its keys in order.
\<close>

record iface =
  ifName :: string
  ifLoopback :: bool
  ifUp :: bool
  ifAddrs :: "string list option"

definition add_iface :: "iface \<Rightarrow> (string \<Rightarrow> string list option) \<Rightarrow> string \<Rightarrow> string list option" where
  "add_iface i m =
     (if ifLoopback i then m
      else if \<not> ifUp i then m
      else case ifAddrs i of
        None \<Rightarrow> m
      | Some ips \<Rightarrow> if length ips > 0 then m(ifName i \<mapsto> ips) else m)"

definition localInterfaces :: "iface list option \<Rightarrow> string \<Rightarrow> string list option" where
  "localInterfaces answer = (case answer of
     None \<Rightarrow> Map.empty
   | Some ifs \<Rightarrow> foldl (\<lambda>m i. add_iface i m) Map.empty ifs)"

definition enc_interfaces :: "(string \<Rightarrow> string list option) \<Rightarrow> json" where
  "enc_interfaces m = JObj (map (\<lambda>k. (k, JArr (map JStr (the (m k))))) (sorted_list_of_set (dom m)))"

definition currentState :: "iface list option \<Rightarrow> string list \<Rightarrow> Reporter \<Rightarrow> reportedState" where
  "currentState answer ips r = \<lparr>rsVersion = rpVersion r, rsPublicIP = ips,
     rsInterfaces = json_text (enc_interfaces (localInterfaces answer))\<rparr>"

definition handleGetAccepted :: "iface list option
    \<Rightarrow> string list \<Rightarrow> payload \<Rightarrow> Reporter \<Rightarrow> Reporter" where
  "handleGetAccepted answer ips p r =
     (case payload_json p of
        None \<Rightarrow> r
      | Some j \<Rightarrow> (case shadowGetResponse j of
          None \<Rightarrow> r
        | Some reported \<Rightarrow>
            (let current = currentState answer ips r in
             if reported_equal current reported then r else publishUpdate current r)))"

section \<open>Public addresses\<close>

text \<open>The answers of the HTTP services in order (empty when a service failed) and of the resolvers.\<close>

fun first_http :: "string list \<Rightarrow> string option" where
  "first_http [] = None"
| "first_http (ip # ips) = (if ip \<noteq> [] then Some ip else first_http ips)"

definition add_new :: "string list \<Rightarrow> string \<Rightarrow> string list" where
  "add_new result ip = (if ip \<in> set result then result else result @ [ip])"

definition publicIPDNS :: "string \<Rightarrow> string list \<Rightarrow> string list" where
  "publicIPDNS opendns google = foldl add_new (if opendns \<noteq> [] then [opendns] else []) google"

definition publicIPDNSOpendns :: "string list option \<Rightarrow> string" where
  "publicIPDNSOpendns answer = (case answer of None \<Rightarrow> [] | Some [] \<Rightarrow> [] | Some (a # as) \<Rightarrow> a)"

definition publicIPDNSGoogle :: "string list option \<Rightarrow> string list" where
  "publicIPDNSGoogle records = (case records of
     None \<Rightarrow> []
   | Some rs \<Rightarrow> filter (\<lambda>ip. ParseIP ip \<noteq> None) (map TrimSpace rs))"

definition publicIPHTTP :: "bool \<Rightarrow> int \<Rightarrow> string option \<Rightarrow> string" where
  "publicIPHTTP requestOk status body =
     (if \<not> requestOk then []
      else if status \<noteq> 200 then []
      else case body of None \<Rightarrow> [] | Some b \<Rightarrow> TrimSpace (take 64 b))"

definition publicIPs :: "string list \<Rightarrow> string list \<Rightarrow> string list" where
  "publicIPs http dns =
     sort (foldl add_new (case first_http http of None \<Rightarrow> [] | Some ip \<Rightarrow> [ip]) dns)"

section \<open>What equality means\<close>

lemma count_up_eq: "count_up a c v = c v + int (count (mset a) v)"
  by (induction a arbitrary: c) auto

lemma count_down_iff: "(\<forall>v. 0 \<le> c v) \<Longrightarrow> count_down b c \<longleftrightarrow> (\<forall>v. int (count (mset b) v) \<le> c v)"
proof (induction b arbitrary: c)
  case (Cons v vs)
  define c1 where "c1 = c(v := c v - 1)"
  have step: "count_down (v # vs) c \<longleftrightarrow> \<not> c1 v < 0 \<and> count_down vs c1"
    by (simp add: Let_def c1_def)
  have cnt: "(\<forall>x. int (count (mset (v # vs)) x) \<le> c x) \<longleftrightarrow> (\<forall>x. int (count (mset vs) x) \<le> c1 x)"
    unfolding c1_def by auto
  show ?case
  proof (cases "c1 v < 0")
    case True
    then have "\<not> int (count (mset vs) v) \<le> c1 v" by linarith
    with True step cnt show ?thesis by blast
  next
    case False
    then have "\<forall>x. 0 \<le> c1 x" using Cons.prems by (auto simp: c1_def)
    from Cons.IH [OF this] step cnt False show ?thesis by blast
  qed
qed simp

text \<open>The comparison of addresses is equality of multisets.\<close>

lemma equalStringSet_iff: "equalStringSet a b \<longleftrightarrow> mset a = mset b"
proof
  assume h: "equalStringSet a b"
  then have len: "size (mset a) = size (mset b)" by (auto simp: equalStringSet_def split: if_splits)
  have "\<forall>v. int (count (mset b) v) \<le> int (count (mset a) v)"
    using h count_down_iff [of "count_up a (\<lambda>_. 0)" b]
    by (auto simp: equalStringSet_def count_up_eq split: if_splits)
  then have "mset b \<subseteq># mset a" by (simp add: subseteq_mset_def)
  with len show "mset a = mset b" by (metis mset_subset_size nless_le subset_mset.le_less)
next
  assume h: "mset a = mset b"
  then have "length a = length b" by (metis size_mset)
  with h show "equalStringSet a b"
    using count_down_iff [of "count_up a (\<lambda>_. 0)" b] by (simp add: equalStringSet_def count_up_eq)
qed

lemma dec_pairs_finite: "dec_pairs ms = Some m \<Longrightarrow> finite (dom m)"
proof (induction ms arbitrary: m)
  case (Cons x ms)
  obtain k j where x: "x = (k, j)" by (cases x)
  with Cons.prems obtain v m' where m': "dec_pairs ms = Some m'" "m = (if m' k = None then m'(k \<mapsto> v) else m')"
    by (auto split: option.splits)
  have "dom m \<subseteq> insert k (dom m')" by (auto simp: m'(2) split: if_splits)
  then show ?case using Cons.IH [OF m'(1)] by (auto intro: finite_subset)
qed auto

lemma decodeInterfaces_finite: "decodeInterfaces s = Some m \<Longrightarrow> finite (dom m)"
  by (auto simp: decodeInterfaces_def split: if_splits option.splits json.splits intro: dec_pairs_finite)

text \<open>The comparison of interfaces is equality of the decoded maps.\<close>

lemma equalInterfaces_iff:
  "equalInterfaces a b \<longleftrightarrow> (\<exists>m. decodeInterfaces a = Some m \<and> decodeInterfaces b = Some m)"
proof
  assume h: "equalInterfaces a b"
  then obtain ma mb where m: "decodeInterfaces a = Some ma" "decodeInterfaces b = Some mb"
    by (auto simp: equalInterfaces_def split: option.splits)
  have c: "card (dom ma) = card (dom mb)"
    using h m by (auto simp: equalInterfaces_def split: if_splits)
  have e: "mb k = ma k" if k: "k \<in> dom ma" for k
  proof -
    have "\<forall>name \<in> dom ma. case mb name of None \<Rightarrow> False
        | Some other \<Rightarrow> length (the (ma name)) = length other
            \<and> (\<forall>i < length other. the (ma name) ! i = other ! i)"
      using h m c by (simp add: equalInterfaces_def)
    then obtain other where "mb k = Some other" "length (the (ma k)) = length other"
        "\<forall>i < length other. the (ma k) ! i = other ! i"
      using k by (fastforce split: option.splits)
    then have "mb k = Some (the (ma k))" by (simp add: list_eq_iff_nth_eq)
    with k show ?thesis by auto
  qed
  then have "dom ma \<subseteq> dom mb" by (auto simp: dom_def)
  then have "dom ma = dom mb"
    using c decodeInterfaces_finite [OF m(2)] by (simp add: card_subset_eq)
  with e have "ma = mb" by (metis domIff ext)
  with m show "\<exists>m. decodeInterfaces a = Some m \<and> decodeInterfaces b = Some m" by simp
next
  assume "\<exists>m. decodeInterfaces a = Some m \<and> decodeInterfaces b = Some m"
  then show "equalInterfaces a b" by (auto simp: equalInterfaces_def)
qed

section \<open>Reports settle\<close>

lemma all_some_map: "(\<And>x. x \<in> set xs \<Longrightarrow> f x = Some (g x)) \<Longrightarrow> all_some (map f xs) = Some (map g xs)"
  by (induction xs) auto

lemma dec_strings_enc: "dec_strings (JArr (map JStr xs)) = Some xs"
proof -
  have "all_some (map (dec_string \<circ> JStr) xs) = Some (map id xs)"
    by (rule all_some_map) (simp add: dec_string_def)
  then show ?thesis by (simp add: dec_strings_def comp_def)
qed

lemma dec_pairs_enc:
  "distinct ks \<Longrightarrow> dec_pairs (map (\<lambda>k. (k, JArr (map JStr (f k)))) ks) = Some (\<lambda>k. if k \<in> set ks then Some (f k) else None)"
  by (induction ks) (auto simp: dec_strings_enc fun_eq_iff)

text \<open>The names and addresses of a map are valid UTF-8.\<close>

definition map_utf8 :: "(string \<Rightarrow> string list option) \<Rightarrow> bool" where
  "map_utf8 m \<longleftrightarrow> (\<forall>k v. m k = Some v \<longrightarrow> valid_utf8 k \<and> (\<forall>s \<in> set v. valid_utf8 s))"

lemma parse_enc_interfaces:
  assumes "finite (dom m)" and "map_utf8 m"
  shows "json_parse (json_text (enc_interfaces m)) = Some (enc_interfaces m)"
proof (rule json_round_trip)
  show "json_plain (enc_interfaces m)" by (auto simp: enc_interfaces_def)
  show "json_utf8 (enc_interfaces m)"
    using assms by (auto simp: enc_interfaces_def map_utf8_def)
  have "json_depth (enc_interfaces m) \<le> Suc (Suc 0)"
    unfolding enc_interfaces_def by (rule json_depth_le(2)) (auto simp: list_all_iff)
  then show "json_depth (enc_interfaces m) \<le> maxNestingDepth" by (simp add: maxNestingDepth_def)
qed

lemma decode_enc_interfaces:
  assumes "finite (dom m)" and "map_utf8 m"
  shows "decodeInterfaces (json_text (enc_interfaces m)) = Some m"
proof -
  have "dec_pairs (map (\<lambda>k. (k, JArr (map JStr (the (m k))))) (sorted_list_of_set (dom m)))
      = Some (\<lambda>k. if k \<in> dom m then Some (the (m k)) else None)"
    using dec_pairs_enc [of "sorted_list_of_set (dom m)" "\<lambda>k. the (m k)"] assms(1) by simp
  moreover have "(\<lambda>k. if k \<in> dom m then Some (the (m k)) else None) = m"
    by (auto simp: fun_eq_iff dom_def)
  moreover have "json_text (enc_interfaces m) \<noteq> []" by (simp add: enc_interfaces_def)
  ultimately show ?thesis
    using parse_enc_interfaces [OF assms] unfolding decodeInterfaces_def by (simp add: enc_interfaces_def)
qed

lemma localInterfaces_finite: "finite (dom (localInterfaces answer))"
proof (cases answer)
  case (Some ifs)
  have one: "finite (dom m) \<Longrightarrow> finite (dom (add_iface i m))" for i m
    by (simp add: add_iface_def split: option.split)
  have "finite (dom m) \<Longrightarrow> finite (dom (foldl (\<lambda>m i. add_iface i m) m ifs))" for m
    by (induction ifs arbitrary: m) (auto intro: one)
  with Some show ?thesis by (simp add: localInterfaces_def)
qed (simp add: localInterfaces_def)

lemma key_is_names [simp]:
  "key_is ''version'' ''version''" "key_is ''public_ip'' ''public_ip''" "key_is ''interfaces'' ''interfaces''"
  "\<not> key_is ''version'' ''public_ip''" "\<not> key_is ''version'' ''interfaces''" "\<not> key_is ''public_ip'' ''interfaces''"
  "key_is ''state'' ''state''" "key_is ''reported'' ''reported''"
  by (simp_all add: key_is_def to_lower_def)

lemma dec_reported_enc:
  "dec_object dec_reported_members (enc_reported s) zeroReported = Some s"
  by (cases s) (auto simp: dec_object_def enc_reported_def omit_str_def zeroReported_def dec_strings_enc
      simp del: list.map)

lemma shadowGetResponse_update: "shadowGetResponse (shadowUpdate s) = Some s"
  using dec_reported_enc [of s] by (simp add: shadowGetResponse_def shadowUpdate_def dec_object_def)

text \<open>The interfaces have names and addresses in valid UTF-8.\<close>

definition ifaces_utf8 :: "iface list option \<Rightarrow> bool" where
  "ifaces_utf8 answer \<longleftrightarrow> (\<forall>ifs. answer = Some ifs \<longrightarrow> (\<forall>i \<in> set ifs. valid_utf8 (ifName i)
     \<and> (\<forall>ips. ifAddrs i = Some ips \<longrightarrow> (\<forall>s \<in> set ips. valid_utf8 s))))"

lemma ifaces_utf8_map: "ifaces_utf8 answer \<Longrightarrow> map_utf8 (localInterfaces answer)"
proof (cases answer)
  case (Some ifs)
  assume ok: "ifaces_utf8 answer"
  have "map_utf8 (add_iface i m)" if "i \<in> set ifs" "map_utf8 m" for i m
    using ok that Some by (auto simp: add_iface_def map_utf8_def ifaces_utf8_def split: option.splits)
  then have "set xs \<subseteq> set ifs \<Longrightarrow> map_utf8 m \<Longrightarrow> map_utf8 (foldl (\<lambda>m i. add_iface i m) m xs)" for m xs
    by (induction xs arbitrary: m) auto
  from this [of ifs Map.empty] show ?thesis using Some by (simp add: localInterfaces_def map_utf8_def)
qed (simp add: localInterfaces_def map_utf8_def)

lemma own_interfaces: "ifaces_utf8 answer \<Longrightarrow>
   decodeInterfaces (json_text (enc_interfaces (localInterfaces answer))) = Some (localInterfaces answer)"
  by (rule decode_enc_interfaces [OF localInterfaces_finite ifaces_utf8_map])

lemma own_state_equal:
  assumes "ifaces_utf8 answer"
  shows "reported_equal (currentState answer ips r) t \<longleftrightarrow>
     rsVersion t = rpVersion r \<and> mset (rsPublicIP t) = mset ips
     \<and> decodeInterfaces (rsInterfaces t) = Some (localInterfaces answer)"
  using own_interfaces [OF assms]
  by (auto simp: reported_equal_def currentState_def equalStringSet_iff equalInterfaces_iff)

text \<open>
  Once the broker holds the state, however it is laid out, nothing is published. A difference is
  published, once per answer.
\<close>

lemma handleGetAccepted_result:
  assumes "payload_json p = Some j" and "shadowGetResponse j = Some t"
  shows "handleGetAccepted answer ips p r =
     (if reported_equal (currentState answer ips r) t then r else publishUpdate (currentState answer ips r) r)"
  using assms by (simp add: handleGetAccepted_def Let_def)

text \<open>The document of an update is read back as it was written.\<close>

definition reported_utf8 :: "reportedState \<Rightarrow> bool" where
  "reported_utf8 s \<longleftrightarrow> valid_utf8 (rsVersion s) \<and> (\<forall>ip \<in> set (rsPublicIP s). valid_utf8 ip) \<and> valid_utf8 (rsInterfaces s)"

lemma payload_shadowUpdate:
  assumes "reported_utf8 s"
  shows "payload_json (PJson (shadowUpdate s)) = Some (shadowUpdate s)"
proof -
  have "json_depth (enc_reported s) \<le> Suc (Suc 0)"
    unfolding enc_reported_def by (rule json_depth_le(2)) (auto simp: omit_str_def split: if_splits)
  then have "json_depth (JObj [(''reported'', enc_reported s)]) \<le> Suc (Suc (Suc 0))"
    by (intro json_depth_le(2)) simp
  then have "json_depth (shadowUpdate s) \<le> Suc (Suc (Suc (Suc 0)))"
    unfolding shadowUpdate_def by (intro json_depth_le(2)) simp
  then have "json_depth (shadowUpdate s) \<le> maxNestingDepth" by (simp add: maxNestingDepth_def)
  moreover have "json_plain (shadowUpdate s)" "json_utf8 (shadowUpdate s)"
    using assms by (auto simp: shadowUpdate_def enc_reported_def omit_str_def reported_utf8_def)
  ultimately show ?thesis by (simp add: payload_json_def json_round_trip)
qed

lemma currentState_utf8:
  assumes "valid_utf8 (rpVersion r)" and "\<forall>ip \<in> set ips. valid_utf8 ip"
  shows "reported_utf8 (currentState answer ips r)"
proof -
  have "json_plain (enc_interfaces m)" for m by (auto simp: enc_interfaces_def)
  then show ?thesis using assms by (simp add: reported_utf8_def currentState_def valid_utf8_json_text)
qed

lemma handleGetAccepted_own_update:
  assumes "ifaces_utf8 answer" and "valid_utf8 (rpVersion r)" and "\<forall>ip \<in> set ips. valid_utf8 ip"
  shows "handleGetAccepted answer ips (PJson (shadowUpdate (currentState answer ips r))) r = r"
proof -
  have "reported_equal (currentState answer ips r) (currentState answer ips r)"
    using own_interfaces [OF assms(1)] by (simp add: own_state_equal [OF assms(1)]) (simp add: currentState_def)
  then show ?thesis
    using handleGetAccepted_result [OF payload_shadowUpdate [OF currentState_utf8] shadowGetResponse_update] assms
    by simp
qed

text \<open>Without a public address the update has no such member, so it cannot remove an old one.\<close>

lemma update_without_address:
  assumes "rsPublicIP s = []"
  shows "\<exists>ms. enc_reported s = JObj ms \<and> ''public_ip'' \<notin> fst ` set ms"
    and "rsPublicIP t \<noteq> [] \<Longrightarrow> \<not> reported_equal s t"
  using assms by (auto simp: enc_reported_def omit_str_def reported_equal_def equalStringSet_def)

text \<open>However often \<open>ReportNow\<close> is called before \<open>Run\<close> looks, the shadow is requested once.\<close>

lemma ReportNow_coalesces: "(ReportNow ^^ Suc n) r = ReportNow r"
  by (induction n) (simp_all add: ReportNow_def)

section \<open>The list of public addresses\<close>

lemma add_new_props: "distinct xs \<Longrightarrow> distinct (add_new xs x)" "set (add_new xs x) = insert x (set xs)"
  by (auto simp: add_new_def)

lemma fold_add_new: "distinct xs \<Longrightarrow> distinct (foldl add_new xs ys) \<and> set (foldl add_new xs ys) = set xs \<union> set ys"
  by (induction ys arbitrary: xs) (auto simp: add_new_props)

lemma publicIPs_props:
  "sorted_wrt (<) (publicIPs http dns)"
  "set (publicIPs http dns) = set_option (first_http http) \<union> set dns"
proof -
  define base where "base = (case first_http http of None \<Rightarrow> [] | Some ip \<Rightarrow> [ip])"
  have "distinct base" "set base = set_option (first_http http)"
    by (cases "first_http http"; simp add: base_def)+
  with fold_add_new [of base dns]
  have "distinct (foldl add_new base dns)" "set (foldl add_new base dns) = set_option (first_http http) \<union> set dns"
    by simp_all
  then show "sorted_wrt (<) (publicIPs http dns)"
    "set (publicIPs http dns) = set_option (first_http http) \<union> set dns"
    by (simp_all add: publicIPs_def base_def [symmetric] strict_sorted_iff)
qed

text \<open>
  When the public address is gone, the update does not mention the addresses at all, so the old ones
  stay in the shadow, and every following check publishes again.
\<close>

lemma update_cannot_clear:
  assumes "payload_json p = Some j" and "shadowGetResponse j = Some t" and "rsPublicIP t \<noteq> []"
  shows "(\<exists>ms. enc_reported (currentState answer [] r) = JObj ms \<and> ''public_ip'' \<notin> fst ` set ms)
    \<and> rpOut (handleGetAccepted answer [] p r) = rpOut r @
        [json_pub (''$aws/things/'' @ rpDeviceID r @ ''/shadow/update'') (PJson (shadowUpdate (currentState answer [] r)))]"
proof -
  have none: "rsPublicIP (currentState answer [] r) = []" by (simp add: currentState_def)
  have "\<not> reported_equal (currentState answer [] r) t"
    by (rule update_without_address(2) [OF none assms(3)])
  with update_without_address(1) [OF none] show ?thesis
    by (simp add: handleGetAccepted_result [OF assms(1,2)] publishUpdate_def)
qed

section \<open>Main properties\<close>

text \<open>C39. The reporter settles: given the device's own update back, it publishes nothing; in general it publishes one update with the current state exactly when version, addresses (in any order) or interfaces differ. docs/aws-iot-device-shadow.md has the state published at startup and every thirty minutes, and the interfaces as an object: the code only asks for the document then, publishes on a difference, and sends the interfaces as a string that holds the object's JSON.\<close>

theorem shadow_settles:
  assumes "ifaces_utf8 answer" and "valid_utf8 (rpVersion r)" and "\<forall>ip \<in> set ips. valid_utf8 ip"
  shows "handleGetAccepted answer ips (PJson (shadowUpdate (currentState answer ips r))) r = r
    \<and> (\<forall>p j t. payload_json p = Some j \<longrightarrow> shadowGetResponse j = Some t \<longrightarrow>
         rpOut (handleGetAccepted answer ips p r) = rpOut r @
           (if rsVersion t = rpVersion r \<and> mset (rsPublicIP t) = mset ips
               \<and> decodeInterfaces (rsInterfaces t) = Some (localInterfaces answer) then []
            else [json_pub (''$aws/things/'' @ rpDeviceID r @ ''/shadow/update'')
                    (PJson (shadowUpdate (currentState answer ips r)))]))"
proof (intro conjI allI impI)
  show "handleGetAccepted answer ips (PJson (shadowUpdate (currentState answer ips r))) r = r"
    by (rule handleGetAccepted_own_update [OF assms])
next
  fix p j t
  assume "payload_json p = Some j" and "shadowGetResponse j = Some t"
  then show "rpOut (handleGetAccepted answer ips p r) = rpOut r @
           (if rsVersion t = rpVersion r \<and> mset (rsPublicIP t) = mset ips
               \<and> decodeInterfaces (rsInterfaces t) = Some (localInterfaces answer) then []
            else [json_pub (''$aws/things/'' @ rpDeviceID r @ ''/shadow/update'')
                    (PJson (shadowUpdate (currentState answer ips r)))])"
    using own_state_equal [OF assms(1), of ips r t] by (simp add: handleGetAccepted_result publishUpdate_def)
qed

theorem shadow_settles_witness:
  "handleGetAccepted (Some [\<lparr>ifName = ''eth0'', ifLoopback = False, ifUp = True, ifAddrs = Some [''10.0.0.2/24'']\<rparr>]) [''1.2.3.4'']
     (PJson (shadowUpdate (currentState (Some [\<lparr>ifName = ''eth0'', ifLoopback = False, ifUp = True,
        ifAddrs = Some [''10.0.0.2/24'']\<rparr>]) [''1.2.3.4''] (NewReporter ''d'' ''v'')))) (NewReporter ''d'' ''v'')
     = NewReporter ''d'' ''v''"
proof -
  have "ifaces_utf8 (Some [\<lparr>ifName = ''eth0'', ifLoopback = False, ifUp = True, ifAddrs = Some [''10.0.0.2/24'']\<rparr>])"
    by (simp add: ifaces_utf8_def)
  from shadow_settles [OF this, of "NewReporter ''d'' ''v''" "[''1.2.3.4'']"] show ?thesis
    by (simp only: NewReporter_def Reporter.simps) simp
qed

end
