(* ===== verification/Device.thy ===== *)
theory Device
  imports Loops Shadow
begin

text \<open>
  The device side: \<open>internal/device/device.go\<close> and \<open>device_shell.go\<close>. A device is a node with its
  name, the version it reports, and the table that throttles its answers to unknown sessions.

  The handlers are the model's operations, with their publishes appended to the node's output;
  an error of \<open>Publish\<close> is only logged. What the world answers is an argument: the time, the
  result of dialling a target, the result of opening a terminal.
\<close>

section \<open>State\<close>

record device = node +
  dvID :: string
  dvHealthCheck :: bool
  dvVersion :: string
  dvAWSIoT :: bool
  dvReporter :: "Reporter option"
  dvArch :: string
  dvRejected :: "string \<Rightarrow> time option"

definition unknownSessionRejectThrottle :: time where
  "unknownSessionRejectThrottle = 5 * Second"

definition New_device :: "string \<Rightarrow> string \<Rightarrow> device" where
  "New_device deviceID arch = \<lparr>ndHeap = Map.empty, ndNext = 0, ndManager = NewSessionManager,
     ndOut = [], dvID = deviceID, dvHealthCheck = False, dvVersion = [], dvAWSIoT = False, dvReporter = None,
     dvArch = arch, dvRejected = Map.empty\<rparr>"

text \<open>
  The setters, in the order the command calls them. \<open>dvHealthCheck\<close>: a function was set. The reporter
  copies the version, so it has to be set before.
\<close>

definition SetHealthCheck :: "device \<Rightarrow> device" where
  "SetHealthCheck d = d\<lparr>dvHealthCheck := True\<rparr>"

definition SetVersion :: "string \<Rightarrow> device \<Rightarrow> device" where
  "SetVersion v d = d\<lparr>dvVersion := v\<rparr>"

definition SetAWSIoT :: "bool \<Rightarrow> device \<Rightarrow> device" where
  "SetAWSIoT v d =
     (let d1 = d\<lparr>dvAWSIoT := v\<rparr> in
      if v then d1\<lparr>dvReporter := Some (NewReporter (dvID d1) (dvVersion d1))\<rparr> else d1)"

definition device_ReportNow :: "device \<Rightarrow> device" where
  "device_ReportNow d = d\<lparr>dvReporter := map_option ReportNow (dvReporter d)\<rparr>"

text \<open>A device as it is before \<open>Run\<close>.\<close>

definition fresh_device :: "string \<Rightarrow> string \<Rightarrow> string \<Rightarrow> device" where
  "fresh_device deviceID version arch = SetVersion version (SetHealthCheck (New_device deviceID arch))"

lemma fresh_device_eq: "fresh_device deviceID version arch = \<lparr>ndHeap = Map.empty, ndNext = 0,
     ndManager = NewSessionManager, ndOut = [], dvID = deviceID, dvHealthCheck = True, dvVersion = version,
     dvAWSIoT = False, dvReporter = None, dvArch = arch, dvRejected = Map.empty\<rparr>"
  by (simp add: fresh_device_def New_device_def SetVersion_def SetHealthCheck_def)

section \<open>Messages\<close>

definition open_ack_msg :: "string \<Rightarrow> bool \<Rightarrow> string \<Rightarrow> ControlMessage" where
  "open_ack_msg i success err = zeroMessage\<lparr>cmType := MessageTypeOpenAck, cmSessionID := i,
     cmSuccess := success, cmError := err\<rparr>"

definition sendOpenAck :: "string \<Rightarrow> bool \<Rightarrow> string \<Rightarrow> device \<Rightarrow> device" where
  "sendOpenAck i success err d =
     emit [control_pub (OutControlTopic (dvID d)) 1 [] (open_ack_msg i success err)] d"

definition pong_msg :: "string \<Rightarrow> int \<Rightarrow> string \<Rightarrow> string \<Rightarrow> ControlMessage" where
  "pong_msg i ts version arch = zeroMessage\<lparr>cmType := MessageTypePong, cmSessionID := i,
     cmTimestamp := ts, cmVersion := version, cmArch := arch\<rparr>"

definition handlePing :: "ControlMessage \<Rightarrow> device \<Rightarrow> device" where
  "handlePing msg d =
     emit [control_pub (OutControlTopic (dvID d)) 0 []
             (pong_msg (cmSessionID msg) (cmTimestamp msg) (dvVersion d) (dvArch d))] d"

section \<open>Answers to unknown sessions\<close>

text \<open>Entries older than the throttle window are dropped when there are more than 256.\<close>

definition gcRejectMapLocked :: "time \<Rightarrow> (string \<Rightarrow> time option) \<Rightarrow> string \<Rightarrow> time option" where
  "gcRejectMapLocked now m =
     (if card (dom m) \<le> 256 then m
      else (\<lambda>i. case m i of
         None \<Rightarrow> None
       | Some t \<Rightarrow> if now - t > unknownSessionRejectThrottle then None else Some t))"

definition reject_msg :: "string \<Rightarrow> ControlMessage" where
  "reject_msg i = zeroMessage\<lparr>cmType := MessageTypeClose, cmSessionID := i,
     cmError := ''unknown session''\<rparr>"

text \<open>The throttle: a recent answer for this id suppresses the next.\<close>

definition throttled :: "time \<Rightarrow> string \<Rightarrow> (string \<Rightarrow> time option) \<Rightarrow> bool" where
  "throttled now i m = (case m i of None \<Rightarrow> False | Some at \<Rightarrow> now - at < unknownSessionRejectThrottle)"

definition reject_pub :: "device \<Rightarrow> string \<Rightarrow> PubMessage" where
  "reject_pub d i = control_pub (OutControlTopic (dvID d)) 1 [] (reject_msg i)"

definition sendUnknownSessionReject :: "time \<Rightarrow> string \<Rightarrow> device \<Rightarrow> device" where
  "sendUnknownSessionReject now i d =
     (if throttled now i (dvRejected d) then d
      else emit [reject_pub d i] (d\<lparr>dvRejected := gcRejectMapLocked now ((dvRejected d)(i \<mapsto> now))\<rparr>))"

section \<open>Opening a session\<close>

text \<open>
  \<open>time.Duration(msg.Timeout) * time.Second\<close> is a product of 64-bit integers, which wraps.
\<close>

definition timeout_duration :: "int \<Rightarrow> time" where
  "timeout_duration t = sint (of_int (t * Second) :: 64 word)"

text \<open>
  \<open>dial\<close> gives the error of connecting to a target, if any. The result of building the session:
  the error text of the refusal, or the session.
\<close>

definition build_session :: "(string \<Rightarrow> string option) \<Rightarrow> ControlMessage \<Rightarrow> device \<Rightarrow> string + session" where
  "build_session dial msg d =
     (let controlTopic = OutControlTopic (dvID d);
          dataTopic = OutDataTopic (dvID d) (cmSessionID msg) in
      if cmMode msg = SessionModeTCP then
        (case dial (cmTarget msg) of
           Some err \<Rightarrow> Inl err
         | None \<Rightarrow> Inr (NewTCPSession (cmSessionID msg) controlTopic dataTopic))
      else if cmMode msg = SessionModeExec then
        Inr (NewExecSession (cmSessionID msg) (cmCommand msg) controlTopic dataTopic)
      else if cmMode msg = SessionModeShell then
        Inr (NewShellSession (cmSessionID msg) controlTopic dataTopic)
      else Inl (''unsupported mode: '' @ cmMode msg))"

definition resizeShell :: "string \<Rightarrow> u16 \<Rightarrow> u16 \<Rightarrow> device \<Rightarrow> device" where
  "resizeShell i cols rows d =
     (case mgr_get i d of
        None \<Rightarrow> d
      | Some r \<Rightarrow> (case ndHeap d r of
          None \<Rightarrow> d
        | Some s \<Rightarrow> if ssKind s = KShell then update_ref r (Resize cols rows) d else d))"

definition handleOpen :: "time \<Rightarrow> (string \<Rightarrow> string option) \<Rightarrow> shell_start \<Rightarrow> ControlMessage
    \<Rightarrow> device \<Rightarrow> device" where
  "handleOpen now dial sh msg d =
     (let i = cmSessionID msg in
      case build_session dial msg d of
        Inl err \<Rightarrow> sendOpenAck i False err d
      | Inr s0 \<Rightarrow> (case alloc s0 d of (r, d1) \<Rightarrow>
          (case Add now (ssId s0) r (ndManager d1) of
             Inl err \<Rightarrow> sendOpenAck i False (tunnel_error_text err) d1
           | Inr m \<Rightarrow>
               (let d2 = update_ref r SetOnClose (d1\<lparr>ndManager := m\<rparr>);
                    d3 = (if cmTimeout msg > 0
                          then update_ref r (\<lambda>s. s\<lparr>ssTimeout := timeout_duration (cmTimeout msg)\<rparr>) d2
                          else d2);
                    (s4, err) = session_start sh (the (ndHeap d3 r));
                    d4 = update_ref r (\<lambda>_. s4) d3 in
                case err of
                  Some e \<Rightarrow> sendOpenAck i False e (mgr_remove i d4)
                | None \<Rightarrow>
                    (let d5 = sendOpenAck i True [] d4 in
                     if cmMode msg = SessionModeShell \<and> cmCols msg > 0 \<and> cmRows msg > 0
                     then resizeShell i (cmCols msg) (cmRows msg) d5 else d5)))))"

section \<open>The other handlers\<close>

definition handleClose :: "ControlMessage \<Rightarrow> device \<Rightarrow> device" where
  "handleClose msg d =
     (case mgr_get (cmSessionID msg) d of
        None \<Rightarrow> d
      | Some r \<Rightarrow> mgr_remove (cmSessionID msg) (close_ref r d))"

definition handleResize :: "ControlMessage \<Rightarrow> device \<Rightarrow> device" where
  "handleResize msg d = resizeShell (cmSessionID msg) (cmCols msg) (cmRows msg) d"

definition handleAck :: "time \<Rightarrow> ControlMessage \<Rightarrow> device \<Rightarrow> device" where
  "handleAck now msg d =
     (case mgr_get (cmSessionID msg) d of
        None \<Rightarrow> sendUnknownSessionReject now (cmSessionID msg) d
      | Some r \<Rightarrow> update_ref r (session_ack (cmAckBytes msg)) (mgr_touch now (cmSessionID msg) d))"

definition handleControl :: "time \<Rightarrow> (string \<Rightarrow> string option) \<Rightarrow> shell_start \<Rightarrow> payload
    \<Rightarrow> device \<Rightarrow> device" where
  "handleControl now dial sh p d =
     (case payload_json p of
        None \<Rightarrow> d
      | Some j \<Rightarrow> (case Unmarshal j of
          None \<Rightarrow> d
        | Some msg \<Rightarrow>
            if cmType msg = MessageTypeOpen then handleOpen now dial sh msg d
            else if cmType msg = MessageTypeClose then handleClose msg d
            else if cmType msg = MessageTypeResize then handleResize msg d
            else if cmType msg = MessageTypePing then handlePing msg d
            else if cmType msg = MessageTypeAck then handleAck now msg d
            else d))"

definition handleData :: "time \<Rightarrow> string \<Rightarrow> byte list \<Rightarrow> device \<Rightarrow> device" where
  "handleData now topic frame d =
     (case ParseTopic topic of
        Inl err \<Rightarrow> d
      | Inr parsed \<Rightarrow> (case mgr_get (ptSessionID parsed) d of
          None \<Rightarrow> sendUnknownSessionReject now (ptSessionID parsed) d
        | Some r \<Rightarrow>
            (let d1 = mgr_touch now (ptSessionID parsed) d in
             case DecodeDataFrame frame of
               Inl err \<Rightarrow> d1
             | Inr (seq, data) \<Rightarrow> update_ref r (HandleData seq data) d1)))"

text \<open>
  The subscriptions of \<open>Run\<close>, in order, each with whether a control or a data handler serves it.
\<close>

definition Run_filters :: "device \<Rightarrow> (string \<times> bool) list" where
  "Run_filters d = [(InControlFilter (dvID d), True), (InDataFilter (dvID d), False), (SharedPingTopic, True)]"

section \<open>What the handlers do\<close>

text \<open>A device through the node operations: the peer's own fields stay.\<close>

lemma device_fields [node_simps]:
  "dvID (emit ms d) = dvID d" "dvVersion (emit ms d) = dvVersion d" "dvArch (emit ms d) = dvArch d"
  "dvRejected (emit ms d) = dvRejected d"
  "dvID (mgr_remove i d) = dvID d" "dvRejected (mgr_remove i d) = dvRejected d"
  "dvID (mgr_touch t i d) = dvID d" "dvRejected (mgr_touch t i d) = dvRejected d"
  "dvID (update_ref r f d) = dvID d" "dvRejected (update_ref r f d) = dvRejected d"
  "dvID (close_ref r d) = dvID d" "dvRejected (close_ref r d) = dvRejected d"
  by (simp_all add: emit_def mgr_remove_def mgr_touch_def update_ref_def close_ref_def
      split: option.split prod.split)

lemma handlers_alloc [node_simps]:
  "alloc s d = (r, d1) \<Longrightarrow> dvID d1 = dvID d" "alloc s d = (r, d1) \<Longrightarrow> dvRejected d1 = dvRejected d"
  by (auto simp: alloc_def)

text \<open>A session nothing has been sent to.\<close>

definition unused :: "session \<Rightarrow> bool" where
  "unused s \<longleftrightarrow> ssReorder s = (NewReorderBuffer ReorderBufSize, Idle) \<and> ssQueue s = []"

lemma build_session_id: "build_session dial msg d = Inr s \<Longrightarrow>
   ssId s = cmSessionID msg \<and> \<not> ssClosed s \<and> ssKind s \<noteq> KExecClient \<and> kind_mode (ssKind s) = cmMode msg \<and> unused s"
  by (auto simp: build_session_def Let_def unused_def new_session_defs session_mode_defs split: if_splits option.splits)

lemma session_start_fields [simp]:
  "ssId (fst (session_start sh s)) = ssId s" "ssKind (fst (session_start sh s)) = ssKind s"
  "ssClosed (fst (session_start sh s)) = ssClosed s" "ssHook (fst (session_start sh s)) = ssHook s"
  "unused (fst (session_start sh s)) = unused s"
  by (auto simp: session_start_def unused_def Let_def split: session_kind.split shell_start.split)

lemma resizeShell_fields [node_simps]:
  "ndManager (resizeShell i c r d) = ndManager d" "ndOut (resizeShell i c r d) = ndOut d"
  "ndNext (resizeShell i c r d) = ndNext d" "dvID (resizeShell i c r d) = dvID d"
  "dvRejected (resizeShell i c r d) = dvRejected d"
  by (simp_all add: resizeShell_def node_simps split: option.split)

text \<open>
  The invariant: a well-formed node whose registered sessions have the close hook and are not
  closed. So a session that is closed is gone from the table.
\<close>

definition registered_open :: "'a node_scheme \<Rightarrow> bool" where
  "registered_open nd \<longleftrightarrow> (\<forall>i r s. smSessions (ndManager nd) i = Some r \<longrightarrow> ndHeap nd r = Some s \<longrightarrow>
     ssHook s \<and> \<not> ssClosed s)"

definition device_inv :: "device \<Rightarrow> bool" where
  "device_inv d \<longleftrightarrow> node_inv d \<and> registered_open d"

lemma registered_openI:
  assumes "registered_open nd"
    and "\<And>i r. smSessions (ndManager nd') i = Some r \<Longrightarrow> smSessions (ndManager nd) i = Some r"
    and "\<And>i r s. smSessions (ndManager nd') i = Some r \<Longrightarrow> ndHeap nd' r = Some s \<Longrightarrow>
      \<exists>s0. ndHeap nd r = Some s0 \<and> (ssHook s0 \<longrightarrow> ssHook s) \<and> (ssClosed s \<longrightarrow> ssClosed s0)"
  shows "registered_open nd'"
  unfolding registered_open_def
proof (intro allI impI)
  fix i r s assume m: "smSessions (ndManager nd') i = Some r" "ndHeap nd' r = Some s"
  from assms(3) [OF this] obtain s0 where "ndHeap nd r = Some s0" "ssHook s0 \<longrightarrow> ssHook s" "ssClosed s \<longrightarrow> ssClosed s0"
    by blast
  with assms(1) assms(2) [OF m(1)] show "ssHook s \<and> \<not> ssClosed s"
    unfolding registered_open_def by blast
qed

lemma registered_open_emit [simp]: "registered_open (emit ms nd) \<longleftrightarrow> registered_open nd"
  by (simp add: registered_open_def node_simps)

lemma registered_open_update:
  assumes "registered_open nd" and "\<And>s. ssHook s \<Longrightarrow> ssHook (f s)" and "\<And>s. ssClosed (f s) \<Longrightarrow> ssClosed s"
  shows "registered_open (update_ref r f nd)"
  by (rule registered_openI [OF assms(1)]) (use assms(2,3) in \<open>auto simp: node_simps split: if_splits\<close>)

lemma registered_open_touch: "registered_open nd \<Longrightarrow> registered_open (mgr_touch t i nd)"
  by (simp add: registered_open_def node_simps)

lemma registered_open_remove: "registered_open nd \<Longrightarrow> registered_open (mgr_remove i nd)"
  by (auto simp: registered_open_def node_simps split: if_splits)

text \<open>Closing a session keeps the property because its hook takes its entry away.\<close>

lemma registered_open_close_ref:
  assumes "node_inv nd" and "registered_open nd"
  shows "registered_open (close_ref r nd)"
  unfolding registered_open_def
proof (intro allI impI)
  fix i q s
  assume m: "smSessions (ndManager (close_ref r nd)) i = Some q" "ndHeap (close_ref r nd) q = Some s"
  have old: "smSessions (ndManager nd) i = Some q"
    using m(1) by (auto simp: node_simps split: option.splits if_splits)
  then obtain s0 where s0: "ndHeap nd q = Some s0" "ssId s0 = i"
    using node_inv_entry [OF assms(1)] by blast
  then have o: "ssHook s0" "\<not> ssClosed s0"
    using assms(2) old by (auto simp: registered_open_def)
  have "q \<noteq> r"
  proof
    assume "q = r"
    then have "smSessions (ndManager (close_ref r nd)) i = None"
      using s0 o by (simp add: node_simps)
    with m(1) show False by simp
  qed
  with m(2) s0 o show "ssHook s \<and> \<not> ssClosed s" by (auto simp: node_simps split: if_splits)
qed

text \<open>
  The outcome of an open request. Success: a new session of the requested mode is registered
  under the id, open and started. Otherwise the table is what it was, and the sessions in it too.
\<close>

definition open_refused :: "ControlMessage \<Rightarrow> string \<Rightarrow> device \<Rightarrow> device \<Rightarrow> bool" where
  "open_refused msg err d d' \<longleftrightarrow>
     ndOut d' = ndOut d @ [control_pub (OutControlTopic (dvID d)) 1 [] (open_ack_msg (cmSessionID msg) False err)]
     \<and> smSessions (ndManager d') = smSessions (ndManager d)
     \<and> (\<forall>r s. ndHeap d r = Some s \<longrightarrow> ndHeap d' r = Some s)"

definition open_accepted :: "ControlMessage \<Rightarrow> device \<Rightarrow> device \<Rightarrow> bool" where
  "open_accepted msg d d' \<longleftrightarrow>
     ndOut d' = ndOut d @ [control_pub (OutControlTopic (dvID d)) 1 [] (open_ack_msg (cmSessionID msg) True [])]
     \<and> smSessions (ndManager d) (cmSessionID msg) = None
     \<and> (\<exists>r s. ndHeap d r = None
          \<and> smSessions (ndManager d') = (smSessions (ndManager d))(cmSessionID msg \<mapsto> r)
          \<and> ndHeap d' = (ndHeap d)(r \<mapsto> s)
          \<and> ssId s = cmSessionID msg \<and> kind_mode (ssKind s) = cmMode msg
          \<and> ssStarted s \<and> \<not> ssClosed s \<and> ssHook s \<and> unused s)"

lemma Resize_fields [simp]:
  "ssId (Resize c r s) = ssId s" "ssKind (Resize c r s) = ssKind s" "ssClosed (Resize c r s) = ssClosed s"
  "ssHook (Resize c r s) = ssHook s" "ssStarted (Resize c r s) = ssStarted s"
  "unused (Resize c r s) = unused s"
  by (simp_all add: Resize_def unused_def)

lemma session_start_started [simp]: "ssStarted (fst (session_start sh s))"
  by (simp add: session_start_def Let_def split: session_kind.split shell_start.split)

lemma resizeShell_heap:
  "ndHeap d r = Some s \<Longrightarrow> smSessions (ndManager d) i = Some r \<Longrightarrow>
     ndHeap (resizeShell i c w d) = (ndHeap d)(r \<mapsto> (if ssKind s = KShell then Resize c w s else s))"
  by (auto simp: resizeShell_def node_simps)

lemma node_inv_resizeShell: "node_inv d \<Longrightarrow> node_inv (resizeShell i c w d)"
  by (auto simp: resizeShell_def intro: node_inv_update_ref split: option.split)

text \<open>The path of a session that is added to the table, up to its start.\<close>

lemma handleOpen_start:
  assumes inv: "node_inv d" and b: "build_session dial msg d = Inr s0" and al: "alloc s0 d = (r, d1)"
    and add: "Add now (ssId s0) r (ndManager d1) = Inr m"
  obtains d4 s4 err where "handleOpen now dial sh msg d = (case err of
          Some e \<Rightarrow> sendOpenAck (cmSessionID msg) False e (mgr_remove (cmSessionID msg) d4)
        | None \<Rightarrow> (let d5 = sendOpenAck (cmSessionID msg) True [] d4 in
            if cmMode msg = SessionModeShell \<and> cmCols msg > 0 \<and> cmRows msg > 0
            then resizeShell (cmSessionID msg) (cmCols msg) (cmRows msg) d5 else d5))"
    and "ssId s4 = cmSessionID msg" "\<not> ssClosed s4" "ssHook s4" "kind_mode (ssKind s4) = cmMode msg"
      "ssStarted s4" "unused s4"
    and "node_inv d4" "ndManager d4 = m" "ndOut d4 = ndOut d" "ndHeap d4 = (ndHeap d)(r \<mapsto> s4)"
      "dvID d4 = dvID d" "dvRejected d4 = dvRejected d"
proof -
  let ?i = "cmSessionID msg"
  note s0 = build_session_id [OF b]
  note d1 = node_inv_alloc [OF inv al] handlers_alloc [OF al]
  have m: "smSessions m = (smSessions (ndManager d))(?i \<mapsto> r)"
    using smSessions_Add [OF add] d1(2) s0 by simp
  define s1 where "s1 = (if cmTimeout msg > 0
    then (SetOnClose s0)\<lparr>ssTimeout := timeout_duration (cmTimeout msg)\<rparr> else SetOnClose s0)"
  have s1: "ssId s1 = ?i" "\<not> ssClosed s1" "ssHook s1" "kind_mode (ssKind s1) = cmMode msg" "unused s1"
    using s0 by (auto simp: s1_def SetOnClose_def unused_def)
  obtain s4 err where st: "session_start sh s1 = (s4, err)" by (cases "session_start sh s1")
  have s4: "ssId s4 = ?i" "\<not> ssClosed s4" "ssHook s4" "kind_mode (ssKind s4) = cmMode msg" "ssStarted s4"
      "unused s4"
    using session_start_fields [of sh s1] session_start_started [of sh s1] s1 st by simp_all
  define d4 where "d4 = update_ref r (\<lambda>_. s4) (if cmTimeout msg > 0
    then update_ref r (\<lambda>s. s\<lparr>ssTimeout := timeout_duration (cmTimeout msg)\<rparr>)
      (update_ref r SetOnClose (d1\<lparr>ndManager := m\<rparr>))
    else update_ref r SetOnClose (d1\<lparr>ndManager := m\<rparr>))"
  have d4: "ndManager d4 = m" "ndOut d4 = ndOut d" "ndHeap d4 = (ndHeap d)(r \<mapsto> s4)" "ndNext d4 = ndNext d1"
      "dvID d4 = dvID d" "dvRejected d4 = dvRejected d"
    using d1 by (auto simp: d4_def node_simps)
  have "node_inv (d1\<lparr>ndManager := m\<rparr>)"
    using node_inv_alloc_add [OF inv al] add by simp
  then have inv4: "node_inv d4"
    using s4(1) s0 m d1(4) d4 unfolding node_inv_def by (auto split: if_splits)
  have "handleOpen now dial sh msg d = (case err of
          Some e \<Rightarrow> sendOpenAck ?i False e (mgr_remove ?i d4)
        | None \<Rightarrow> (let d5 = sendOpenAck ?i True [] d4 in
            if cmMode msg = SessionModeShell \<and> cmCols msg > 0 \<and> cmRows msg > 0
            then resizeShell ?i (cmCols msg) (cmRows msg) d5 else d5))"
    using b al add st d1(4)
    by (cases "cmTimeout msg > 0"; cases err; simp add: handleOpen_def Let_def d4_def s1_def node_simps)
  then show thesis using that s4 inv4 d4 by blast
qed

lemma open_finish:
  assumes inv: "node_inv d4" and entry: "smSessions (ndManager d4) i = Some r" "ndHeap d4 r = Some s4"
    and s4: "ssId s4 = i" "\<not> ssClosed s4" "ssHook s4" "kind_mode (ssKind s4) = mode" "ssStarted s4" "unused s4"
    and d': "d' = (let d5 = sendOpenAck i True [] d4 in if c then resizeShell i w h d5 else d5)"
  shows "node_inv d'" "ndManager d' = ndManager d4" "dvRejected d' = dvRejected d4"
    "ndOut d' = ndOut d4 @ [control_pub (OutControlTopic (dvID d4)) 1 [] (open_ack_msg i True [])]"
    "\<exists>s. ndHeap d' = (ndHeap d4)(r \<mapsto> s) \<and> ssId s = i \<and> kind_mode (ssKind s) = mode \<and> ssStarted s
       \<and> \<not> ssClosed s \<and> ssHook s \<and> unused s"
proof -
  define d5 where "d5 = sendOpenAck i True [] d4"
  have d5: "node_inv d5" "ndManager d5 = ndManager d4" "ndHeap d5 = ndHeap d4" "dvRejected d5 = dvRejected d4"
      "ndOut d5 = ndOut d4 @ [control_pub (OutControlTopic (dvID d4)) 1 [] (open_ack_msg i True [])]"
    using inv by (simp_all add: d5_def sendOpenAck_def node_simps)
  have eq: "d' = (if c then resizeShell i w h d5 else d5)" using d' by (simp add: d5_def Let_def)
  show "node_inv d'" "ndManager d' = ndManager d4" "dvRejected d' = dvRejected d4"
    "ndOut d' = ndOut d4 @ [control_pub (OutControlTopic (dvID d4)) 1 [] (open_ack_msg i True [])]"
    using d5 node_inv_resizeShell [OF d5(1)] by (simp_all add: eq node_simps)
  define s5 where "s5 = (if c \<and> ssKind s4 = KShell then Resize w h s4 else s4)"
  have "ndHeap d' = (ndHeap d4)(r \<mapsto> s5)"
    using resizeShell_heap [of d5 r s4 i w h] d5 entry by (auto simp: eq s5_def)
  moreover have "ssId s5 = i \<and> kind_mode (ssKind s5) = mode \<and> ssStarted s5 \<and> \<not> ssClosed s5 \<and> ssHook s5 \<and> unused s5"
    using s4 by (auto simp: s5_def)
  ultimately show "\<exists>s. ndHeap d' = (ndHeap d4)(r \<mapsto> s) \<and> ssId s = i \<and> kind_mode (ssKind s) = mode \<and> ssStarted s
       \<and> \<not> ssClosed s \<and> ssHook s \<and> unused s" by blast
qed

lemma handleOpen_result:
  assumes inv: "node_inv d" and d'_def: "d' = handleOpen now dial sh msg d"
  shows "node_inv d' \<and> dvRejected d' = dvRejected d
    \<and> ((\<exists>err. open_refused msg err d d') \<or> open_accepted msg d d')"
proof (cases "build_session dial msg d")
  case (Inl err)
  then have "d' = sendOpenAck (cmSessionID msg) False err d" by (simp add: d'_def handleOpen_def Let_def)
  then show ?thesis using inv by (auto simp: open_refused_def sendOpenAck_def node_simps)
next
  case b: (Inr s0)
  obtain r d1 where al: "alloc s0 d = (r, d1)" by (cases "alloc s0 d")
  note d1 = node_inv_alloc [OF inv al] handlers_alloc [OF al]
  have fresh: "ndHeap d q = Some s \<Longrightarrow> q \<noteq> r" for q s using d1(6) by auto
  show ?thesis
  proof (cases "Add now (ssId s0) r (ndManager d1)")
    case (Inl err)
    then have "d' = sendOpenAck (cmSessionID msg) False (tunnel_error_text err) d1"
      using b al by (simp add: d'_def handleOpen_def Let_def)
    then show ?thesis using d1 by (auto simp: open_refused_def sendOpenAck_def node_simps)
  next
    case add: (Inr m)
    have m: "smSessions m = (smSessions (ndManager d))(cmSessionID msg \<mapsto> r)"
      using smSessions_Add [OF add] d1(2) build_session_id [OF b] by simp
    have free: "smSessions (ndManager d) (cmSessionID msg) = None"
      using add d1(2) build_session_id [OF b] by (auto simp: Add_def split: if_splits)
    obtain d4 s4 err where d4: "d' = (case err of
          Some e \<Rightarrow> sendOpenAck (cmSessionID msg) False e (mgr_remove (cmSessionID msg) d4)
        | None \<Rightarrow> (let d5 = sendOpenAck (cmSessionID msg) True [] d4 in
            if cmMode msg = SessionModeShell \<and> cmCols msg > 0 \<and> cmRows msg > 0
            then resizeShell (cmSessionID msg) (cmCols msg) (cmRows msg) d5 else d5))"
      and s4: "ssId s4 = cmSessionID msg" "\<not> ssClosed s4" "ssHook s4" "kind_mode (ssKind s4) = cmMode msg"
        "ssStarted s4" "unused s4"
      and f4: "node_inv d4" "ndManager d4 = m" "ndOut d4 = ndOut d" "ndHeap d4 = (ndHeap d)(r \<mapsto> s4)"
        "dvID d4 = dvID d" "dvRejected d4 = dvRejected d"
      using handleOpen_start [OF inv b al add] unfolding d'_def by blast
    show ?thesis
    proof (cases err)
      case (Some e)
      then have d'_eq: "d' = sendOpenAck (cmSessionID msg) False e (mgr_remove (cmSessionID msg) d4)"
        using d4 by simp
      have "open_refused msg e d d'"
        using f4 m free fresh by (auto simp: d'_eq open_refused_def sendOpenAck_def node_simps)
      then show ?thesis
        using d'_eq node_inv_remove [OF f4(1)] f4(6) by (auto simp: sendOpenAck_def node_simps)
    next
      case None
      have "smSessions (ndManager d4) (cmSessionID msg) = Some r" "ndHeap d4 r = Some s4"
        using f4 m by simp_all
      note fin = open_finish [OF f4(1) this s4, OF d4 [unfolded None option.case]]
      from fin f4 m free d1(6) have "open_accepted msg d d'" by (auto simp: open_accepted_def)
      then show ?thesis using fin f4 by simp
    qed
  qed
qed

section \<open>The device over time\<close>

lemma HandleData_fields [simp]:
  "ssId (HandleData q p s) = ssId s" "ssKind (HandleData q p s) = ssKind s"
  "ssClosed (HandleData q p s) = ssClosed s" "ssHook (HandleData q p s) = ssHook s"
  by (simp_all add: HandleData_def split: prod.split insert_thread.split)

lemma session_ack_fields [simp]:
  "ssId (session_ack a s) = ssId s" "ssKind (session_ack a s) = ssKind s"
  "ssClosed (session_ack a s) = ssClosed s" "ssHook (session_ack a s) = ssHook s"
  by (simp_all add: session_ack_def UpdateFlowControl_def)

lemma device_inv_emit [simp]: "device_inv (emit ms d) \<longleftrightarrow> device_inv d"
  by (simp add: device_inv_def)

lemma device_inv_rejected [simp]: "device_inv (d\<lparr>dvRejected := m\<rparr>) \<longleftrightarrow> device_inv d"
  by (simp add: device_inv_def node_inv_def registered_open_def)

lemma device_inv_update:
  assumes "device_inv d" and "\<And>s. ssId (f s) = ssId s" and "\<And>s. ssHook s \<Longrightarrow> ssHook (f s)"
    and "\<And>s. ssClosed (f s) \<Longrightarrow> ssClosed s"
  shows "device_inv (update_ref r f d)"
  using assms by (auto simp: device_inv_def intro: node_inv_update_ref registered_open_update)

lemma device_inv_touch: "device_inv d \<Longrightarrow> device_inv (mgr_touch t i d)"
  by (simp add: device_inv_def node_inv_touch registered_open_touch)

lemma device_inv_remove: "device_inv d \<Longrightarrow> device_inv (mgr_remove i d)"
  by (simp add: device_inv_def node_inv_remove registered_open_remove)

lemma device_inv_close_ref: "device_inv d \<Longrightarrow> device_inv (close_ref r d)"
  by (simp add: device_inv_def node_inv_close_ref registered_open_close_ref)

lemma device_inv_close_each: "device_inv d \<Longrightarrow> device_inv (close_each order d)"
  unfolding close_each_def by (induction order arbitrary: d) (auto intro: device_inv_close_ref)

lemma device_inv_reject: "device_inv d \<Longrightarrow> device_inv (sendUnknownSessionReject now i d)"
  by (simp add: sendUnknownSessionReject_def)

lemma device_inv_resize: "device_inv d \<Longrightarrow> device_inv (resizeShell i c w d)"
  by (auto simp: resizeShell_def intro: device_inv_update split: option.split)

lemma device_inv_handleOpen:
  assumes "device_inv d"
  shows "device_inv (handleOpen now dial sh msg d)"
proof -
  have inv: "node_inv d" "registered_open d" using assms by (simp_all add: device_inv_def)
  note res = handleOpen_result [OF inv(1) refl, of now dial sh msg]
  have heap: "smSessions (ndManager d) i = Some r \<Longrightarrow> \<exists>s. ndHeap d r = Some s \<and> ssHook s \<and> \<not> ssClosed s" for i r
    using node_inv_entry [OF inv(1)] inv(2) unfolding registered_open_def by blast
  have "registered_open (handleOpen now dial sh msg d)"
  proof (cases "open_accepted msg d (handleOpen now dial sh msg d)")
    case True
    then show ?thesis
      using inv(2) by (auto simp: open_accepted_def registered_open_def split: if_splits)
  next
    case False
    then obtain err where r: "open_refused msg err d (handleOpen now dial sh msg d)" using res by blast
    show ?thesis
      unfolding registered_open_def
    proof (intro allI impI)
      fix i r s
      assume m: "smSessions (ndManager (handleOpen now dial sh msg d)) i = Some r"
        "ndHeap (handleOpen now dial sh msg d) r = Some s"
      then have "smSessions (ndManager d) i = Some r" using r by (simp add: open_refused_def)
      with heap [OF this] r m(2) show "ssHook s \<and> \<not> ssClosed s"
        unfolding open_refused_def by fastforce
    qed
  qed
  then show ?thesis using res by (simp add: device_inv_def)
qed

lemma device_inv_handleClose: "device_inv d \<Longrightarrow> device_inv (handleClose msg d)"
  by (simp add: handleClose_def device_inv_remove device_inv_close_ref split: option.split)

lemma device_inv_handleAck: "device_inv d \<Longrightarrow> device_inv (handleAck now msg d)"
  by (auto simp: handleAck_def intro!: device_inv_reject device_inv_update device_inv_touch split: option.split)

lemma device_inv_handleControl: "device_inv d \<Longrightarrow> device_inv (handleControl now dial sh p d)"
  by (simp add: handleControl_def device_inv_handleOpen device_inv_handleClose handleResize_def
      device_inv_resize handlePing_def device_inv_handleAck split: option.split)

lemma device_inv_handleData: "device_inv d \<Longrightarrow> device_inv (handleData now topic frame d)"
  by (auto simp: handleData_def Let_def intro!: device_inv_reject device_inv_update device_inv_touch
      split: sum.split option.split)

lemma device_inv_cleanup: "device_inv d \<Longrightarrow> device_inv (node_cleanup now order d)"
  unfolding node_cleanup_def
  by (rule device_inv_close_each)
     (auto simp: device_inv_def registered_open_def node_inv_def sm_inv_cleanup cleanupStale_def Let_def
       sm_inv_def split: if_splits)

lemma device_inv_CloseAll: "device_inv d \<Longrightarrow> device_inv (CloseAll order d)"
  using node_inv_CloseAll [of d order]
  by (simp add: device_inv_def registered_open_def CloseAll_def CloseAll_clear_def Let_def)

text \<open>
  The events of a device: a message on one of its topics, the stale cleanup, closing all (at
  shutdown and on reconnects), and the work of a session's own goroutines, which change the
  session but not its identity, publish, and end with its \<open>Close\<close>.
\<close>

datatype device_event =
    InControl time "string \<Rightarrow> string option" shell_start payload
  | InData time string "byte list"
  | Stale time "(string \<times> nat) list"
  | CloseAllSessions "(string \<times> nat) list"
  | Work nat "session \<Rightarrow> session" "PubMessage list" bool

fun device_handle :: "device_event \<Rightarrow> device \<Rightarrow> device" where
  "device_handle (InControl now dial sh p) d = handleControl now dial sh p d"
| "device_handle (InData now topic frame) d = handleData now topic frame d"
| "device_handle (Stale now order) d = node_cleanup now order d"
| "device_handle (CloseAllSessions order) d = CloseAll order d"
| "device_handle (Work r f ms ends) d =
     (let d1 = emit ms (update_ref r f d) in if ends then close_ref r d1 else d1)"

definition same_session :: "(session \<Rightarrow> session) \<Rightarrow> bool" where
  "same_session f \<longleftrightarrow> (\<forall>s. ssId (f s) = ssId s \<and> ssKind (f s) = ssKind s \<and> ssHook (f s) = ssHook s
     \<and> ssClosed (f s) = ssClosed s)"

fun possible :: "device_event \<Rightarrow> device \<Rightarrow> bool" where
  "possible (Stale now order) d \<longleftrightarrow> enumerates order (stale_refs now d)"
| "possible (CloseAllSessions order) d \<longleftrightarrow> enumerates order (CloseAll_snapshot (ndManager d))"
| "possible (Work r f ms ends) d \<longleftrightarrow> same_session f"
| "possible _ d \<longleftrightarrow> True"

text \<open>A step is labelled with its event and with what the device publishes while it handles it.\<close>

definition step_output :: "device_event \<Rightarrow> device \<Rightarrow> PubMessage list" where
  "step_output e d = drop (length (ndOut d)) (ndOut (device_handle e d))"

inductive device_step :: "device \<Rightarrow> device_event \<times> PubMessage list \<Rightarrow> device \<Rightarrow> bool" where
  ds_event: "possible e d \<Longrightarrow> device_step d (e, step_output e d) (device_handle e d)"

inductive_cases device_stepE: "device_step d l d'"
inductive_simps device_step_simps: "device_step d (e, x) d'"

lemma device_inv_handle: "possible e d \<Longrightarrow> device_inv d \<Longrightarrow> device_inv (device_handle e d)"
  by (cases e)
     (auto simp: device_inv_handleControl device_inv_handleData device_inv_cleanup device_inv_CloseAll
       Let_def same_session_def intro!: device_inv_close_ref device_inv_update)

lemma device_inv_fresh: "device_inv (fresh_device deviceID version arch)"
  by (simp add: device_inv_def fresh_device_eq node_inv_def registered_open_def NewSessionManager_def
      sm_inv_def)

interpretation dev_history: history_invariant device_step "fresh_device deviceID version arch" "\<lambda>_. True"
  "\<lambda>es d. device_inv d" for deviceID version arch
  by unfold_locales (auto simp: device_inv_fresh device_step.simps intro: device_inv_handle)

lemma device_run_inv:
  "run device_step (fresh_device deviceID version arch) es d \<Longrightarrow> device_inv d"
  by (rule dev_history.run_inv) simp_all

section \<open>The throttle\<close>

text \<open>To which unknown id, if any, the handling of an event must answer.\<close>

definition unknown_id :: "time \<Rightarrow> string \<Rightarrow> device \<Rightarrow> string option" where
  "unknown_id now i d =
     (if mgr_get i d = None \<and> \<not> throttled now i (dvRejected d) then Some i else None)"

fun reject_due :: "device_event \<Rightarrow> device \<Rightarrow> string option" where
  "reject_due (InControl now dial sh p) d =
     (case payload_json p of
        None \<Rightarrow> None
      | Some j \<Rightarrow> (case Unmarshal j of
          None \<Rightarrow> None
        | Some msg \<Rightarrow> if cmType msg = MessageTypeAck then unknown_id now (cmSessionID msg) d else None))"
| "reject_due (InData now topic frame) d =
     (case ParseTopic topic of Inl e \<Rightarrow> None | Inr parsed \<Rightarrow> unknown_id now (ptSessionID parsed) d)"
| "reject_due _ d = None"

lemma dvRejected_frame [node_simps]:
  "dvRejected (handlePing msg d) = dvRejected d" "dvRejected (handleClose msg d) = dvRejected d"
  "dvRejected (handleResize msg d) = dvRejected d" "dvRejected (close_each order d) = dvRejected d"
  "dvRejected (node_cleanup now order d) = dvRejected d" "dvRejected (CloseAll order d) = dvRejected d"
proof -
  show ce: "dvRejected (close_each order d) = dvRejected d" for d :: device
    unfolding close_each_def by (induction order arbitrary: d) (auto simp: node_simps)
  show "dvRejected (handlePing msg d) = dvRejected d" "dvRejected (handleClose msg d) = dvRejected d"
    "dvRejected (handleResize msg d) = dvRejected d"
    by (simp_all add: handlePing_def handleClose_def handleResize_def node_simps split: option.split)
  show "dvRejected (node_cleanup now order d) = dvRejected d" "dvRejected (CloseAll order d) = dvRejected d"
    by (simp_all add: node_cleanup_def CloseAll_def Let_def ce)
qed

fun event_time :: "device_event \<Rightarrow> time option" where
  "event_time (InControl now dial sh p) = Some now"
| "event_time (InData now topic frame) = Some now"
| "event_time _ = None"

text \<open>A step without a reject keeps the table; one with a reject stamps the id and collects garbage.\<close>

lemma reject_step:
  assumes "device_inv d"
  shows "dvRejected (device_handle e d) =
     (case (reject_due e d, event_time e) of
        (Some i, Some now) \<Rightarrow> gcRejectMapLocked now ((dvRejected d)(i \<mapsto> now))
      | _ \<Rightarrow> dvRejected d)"
proof (cases e)
  case (InControl now dial sh p)
  have op: "dvRejected (handleOpen now dial sh msg d) = dvRejected d" for msg
    using handleOpen_result [OF _ refl] assms by (simp add: device_inv_def)
  from InControl show ?thesis
    by (auto simp: handleControl_def op node_simps handleAck_def unknown_id_def
        sendUnknownSessionReject_def message_type_defs split: option.splits)
next
  case (InData now topic frame)
  then show ?thesis
    by (auto simp: handleData_def Let_def node_simps unknown_id_def sendUnknownSessionReject_def
        split: option.splits sum.splits)
qed (auto simp: node_simps Let_def split: option.split)

lemma reject_due_time: "reject_due e d = Some i \<Longrightarrow> \<exists>now. event_time e = Some now"
  by (cases e) auto

lemma reject_due_open: "reject_due e d = Some i \<Longrightarrow> event_time e = Some now \<Longrightarrow>
   \<not> throttled now i (dvRejected d) \<and> mgr_get i d = None"
  by (cases e) (auto simp: unknown_id_def split: option.splits sum.splits if_splits)

text \<open>
  A reject for an id among what is published: a message that reads as a close of this session for the
  reason \<open>unknown session\<close>. The session level of a data topic is text, as all of an MQTT topic is.
\<close>

definition rejects :: "string \<Rightarrow> PubMessage \<Rightarrow> bool" where
  "rejects i m = (case pub_control m of
     None \<Rightarrow> False
   | Some msg \<Rightarrow> cmType msg = MessageTypeClose \<and> cmSessionID msg = i \<and> cmError msg = ''unknown session'')"

fun text_topic :: "device_event \<Rightarrow> bool" where
  "text_topic (InData now topic frame) =
     (case ParseTopic topic of Inl e \<Rightarrow> True | Inr parsed \<Rightarrow> valid_utf8 (ptSessionID parsed))"
| "text_topic _ = True"

text \<open>When the messages came in, and when a reject for an id was published while one was handled.\<close>

fun clock :: "(device_event \<times> PubMessage list) list \<Rightarrow> time list" where
  "clock [] = []"
| "clock ((e, ms) # es) = (case event_time e of None \<Rightarrow> clock es | Some t \<Rightarrow> t # clock es)"

fun reject_times :: "string \<Rightarrow> (device_event \<times> PubMessage list) list \<Rightarrow> time list" where
  "reject_times i [] = []"
| "reject_times i ((e, ms) # es) =
     (case event_time e of
        Some t \<Rightarrow> replicate (length (filter (rejects i) ms)) t @ reject_times i es
      | None \<Rightarrow> reject_times i es)"

lemma clock_append [simp]: "clock (es @ fs) = clock es @ clock fs"
  by (induction es rule: clock.induct) (auto split: option.split)

lemma reject_times_append [simp]: "reject_times i (es @ fs) = reject_times i es @ reject_times i fs"
  by (induction i es rule: reject_times.induct) (auto split: option.split)

lemma reject_times_clock: "set (reject_times i es) \<subseteq> set (clock es)"
  by (induction i es rule: reject_times.induct) (auto split: option.splits)

lemma rejects_control_pub:
  assumes "msg_ok m"
  shows "rejects i (control_pub t q r m) \<longleftrightarrow> utf8_repair (cmType m) = MessageTypeClose
     \<and> utf8_repair (cmSessionID m) = i \<and> utf8_repair (cmError m) = ''unknown session''"
  using read_msg_text [OF assms]
  by (simp add: rejects_def pub_control_def payload_read_msg msg_repair_def) (simp add: control_pub_def msg_text_def)

lemma repair_types: "utf8_repair MessageTypeOpenAck = MessageTypeOpenAck" "utf8_repair MessageTypePong = MessageTypePong"
    "utf8_repair MessageTypeClose = MessageTypeClose" "utf8_repair ''unknown session'' = ''unknown session''"
  by (rule utf8_repair_valid, rule valid_utf8_ascii, simp add: message_type_defs)+

text \<open>The messages of the handlers, and which of them is a reject.\<close>

lemma rejects_simps [simp]:
  "rejects i (control_pub t q r (open_ack_msg j b err)) \<longleftrightarrow> False"
  "int64_ok ts \<Longrightarrow> rejects i (control_pub t q r (pong_msg j ts v a)) \<longleftrightarrow> False"
  "rejects i (sendCloseMsg s) \<longleftrightarrow> False"
  "rejects i (reject_pub d j) \<longleftrightarrow> utf8_repair j = i"
  unfolding sendCloseMsg_def reject_pub_def
  by (simp_all add: rejects_control_pub msg_ok_def int64_ok_def zeroMessage_def open_ack_msg_def pong_msg_def
      close_msg_def reject_msg_def repair_types del: utf8_repair.simps) (simp_all add: message_type_defs)

lemma step_output_app: "ndOut (device_handle e d) = ndOut d @ ms \<Longrightarrow> step_output e d = ms"
  by (simp add: step_output_def)

text \<open>Handling a message publishes a reject exactly when one is due, and then only this one.\<close>

lemma published_rejects:
  assumes "device_inv d" and "event_time e = Some now" and "text_topic e"
  shows "filter (rejects i) (step_output e d) = (if reject_due e d = Some i then [reject_pub d i] else [])
    \<and> (reject_due e d = Some i \<longrightarrow> valid_utf8 i)"
proof (cases e)
  case (InControl at dial sh p)
  show ?thesis
  proof (cases "read_msg (payload_text p)")
    case None
    then have "device_handle e d = d" "reject_due e d = None"
      using InControl by (auto simp: handleControl_def read_msg_def payload_json_def split: option.splits)
    then show ?thesis by (simp add: step_output_def)
  next
    case (Some msg)
    then obtain j where j: "payload_json p = Some j" "Unmarshal j = Some msg"
      by (auto simp: read_msg_def payload_json_def split: option.splits)
    have msg: "int64_ok (cmTimestamp msg)" "valid_utf8 (cmSessionID msg)"
      using read_msg_ok [OF Some] by (auto simp: wire_ok_def msg_ok_def msg_utf8_def)
    have op: "\<exists>b err t q r. ndOut (handleOpen at dial sh msg d) = ndOut d @ [control_pub t q r (open_ack_msg (cmSessionID msg) b err)]"
      using handleOpen_result [OF _ refl, of d at dial sh msg] assms(1)
      unfolding device_inv_def open_refused_def open_accepted_def by blast
    from InControl j msg op show ?thesis
      by (auto simp: step_output_def handleControl_def handleAck_def handleClose_def handleResize_def handlePing_def
          unknown_id_def sendUnknownSessionReject_def node_simps message_type_defs utf8_repair_valid split: option.split)
  qed
next
  case (InData at topic frame)
  with assms(3) show ?thesis
    by (auto simp: step_output_def handleData_def Let_def unknown_id_def sendUnknownSessionReject_def node_simps
        utf8_repair_valid split: sum.split option.split)
qed (use assms(2) in auto)

definition spaced :: "time \<Rightarrow> time list \<Rightarrow> bool" where
  "spaced gap ts \<longleftrightarrow> sorted_wrt (\<lambda>a b. b - a \<ge> gap) ts"

lemma spaced_last: "spaced gap ts \<Longrightarrow> 0 \<le> gap \<Longrightarrow> t \<in> set ts \<Longrightarrow> t \<le> last ts"
  by (induction ts rule: rev_induct) (auto simp: spaced_def sorted_wrt_append)

text \<open>
  The invariant: the rejects of every id are spaced, the last of them is in the table or so old that it
  does not matter any more, and the table holds nothing else.
\<close>

definition throttle_inv :: "(device_event \<times> PubMessage list) list \<Rightarrow> device \<Rightarrow> bool" where
  "throttle_inv es d \<longleftrightarrow> (sorted (clock es) \<longrightarrow>
     (\<forall>i. spaced unknownSessionRejectThrottle (reject_times i es) \<and>
       (reject_times i es \<noteq> [] \<longrightarrow>
          dvRejected d i = Some (last (reject_times i es)) \<or>
          (\<exists>t \<in> set (clock es). t - last (reject_times i es) > unknownSessionRejectThrottle)) \<and>
       (\<forall>t. dvRejected d i = Some t \<longrightarrow> t \<in> set (reject_times i es))))"

lemma gc_keeps:
  "gcRejectMapLocked now m i = m i \<or> (\<exists>t. m i = Some t \<and> now - t > unknownSessionRejectThrottle)"
  by (auto simp: gcRejectMapLocked_def split: option.split)

lemma gc_subset: "gcRejectMapLocked now m i = Some t \<Longrightarrow> m i = Some t"
  by (auto simp: gcRejectMapLocked_def split: option.splits if_splits)

lemma gc_fresh: "m i = Some now \<Longrightarrow> gcRejectMapLocked now m i = Some now"
  by (simp add: gcRejectMapLocked_def unknownSessionRejectThrottle_def Second_def Millisecond_def)

text \<open>The garbage collection never changes what the throttle answers, now or later.\<close>

lemma gc_transparent:
  "now \<le> later \<Longrightarrow> throttled later i (gcRejectMapLocked now m) = throttled later i m"
  by (auto simp: throttled_def gcRejectMapLocked_def split: option.split)

lemma throttle_gap_pos [simp]: "0 \<le> unknownSessionRejectThrottle"
  by (simp add: unknownSessionRejectThrottle_def Second_def Millisecond_def)

text \<open>The throttle answers what the published rejects say: there was one less than the window ago.\<close>

lemma throttled_iff:
  assumes "throttle_inv es d" and "sorted (clock es)" and "\<forall>t \<in> set (clock es). t \<le> now"
  shows "throttled now i (dvRejected d) \<longleftrightarrow> (\<exists>t \<in> set (reject_times i es). now - t < unknownSessionRejectThrottle)"
proof
  assume "throttled now i (dvRejected d)"
  then show "\<exists>t \<in> set (reject_times i es). now - t < unknownSessionRejectThrottle"
    using assms(1,2) by (auto simp: throttled_def throttle_inv_def split: option.splits)
next
  assume "\<exists>t \<in> set (reject_times i es). now - t < unknownSessionRejectThrottle"
  then obtain t where t: "t \<in> set (reject_times i es)" "now - t < unknownSessionRejectThrottle" by blast
  have sp: "spaced unknownSessionRejectThrottle (reject_times i es)"
    using assms(1,2) by (simp add: throttle_inv_def)
  have "now - last (reject_times i es) < unknownSessionRejectThrottle"
    using spaced_last [OF sp _ t(1)] t(2) by simp
  moreover have "dvRejected d i = Some (last (reject_times i es)) \<or>
      (\<exists>t \<in> set (clock es). t - last (reject_times i es) > unknownSessionRejectThrottle)"
    using t(1) assms(1,2) unfolding throttle_inv_def by (metis empty_iff list.set(1))
  ultimately show "throttled now i (dvRejected d)" using assms(3) by (force simp: throttled_def)
qed

lemma throttle_step:
  assumes inv: "throttle_inv es d" "device_inv d" and step: "device_step d l d'" and topic: "text_topic (fst l)"
  shows "throttle_inv (es @ [l]) d'"
proof -
  obtain e where l: "l = (e, step_output e d)" and d': "d' = device_handle e d"
    using step by (auto elim: device_stepE)
  note tab = reject_step [OF inv(2), of e, folded d']
  show ?thesis
    unfolding throttle_inv_def
  proof (intro impI allI)
    fix i
    assume s: "sorted (clock (es @ [l]))"
    then have s0: "sorted (clock es)" by (simp add: sorted_append)
    let ?T = "reject_times i es"
    have sp: "spaced unknownSessionRejectThrottle ?T"
      and lst: "?T \<noteq> [] \<Longrightarrow> dvRejected d i = Some (last ?T) \<or>
          (\<exists>t \<in> set (clock es). t - last ?T > unknownSessionRejectThrottle)"
      and own: "\<And>t. dvRejected d i = Some t \<Longrightarrow> t \<in> set ?T"
      using inv(1) s0 by (auto simp: throttle_inv_def)
    let ?T' = "reject_times i (es @ [l])"
    show "spaced unknownSessionRejectThrottle ?T' \<and>
       (?T' \<noteq> [] \<longrightarrow> dvRejected d' i = Some (last ?T') \<or>
          (\<exists>t \<in> set (clock (es @ [l])). t - last ?T' > unknownSessionRejectThrottle)) \<and>
       (\<forall>t. dvRejected d' i = Some t \<longrightarrow> t \<in> set ?T')"
    proof (cases "event_time e")
      case None
      then have "?T' = ?T" "clock (es @ [l]) = clock es" "dvRejected d' = dvRejected d"
        using l tab by (auto split: option.splits)
      then show ?thesis using sp lst own by simp
    next
      case (Some now)
      have pr: "filter (rejects i) (step_output e d) = (if reject_due e d = Some i then [reject_pub d i] else [])"
        using published_rejects [OF inv(2) Some, of i] topic l by simp
      have le: "\<forall>t \<in> set (clock es). t \<le> now" using s l Some by (simp add: sorted_append)
      show ?thesis
      proof (cases "reject_due e d = Some i")
        case True
        then have T': "?T' = ?T @ [now]" using l Some pr by simp
        have "\<not> throttled now i (dvRejected d)" using reject_due_open [OF True Some] by simp
        then have "spaced unknownSessionRejectThrottle (?T @ [now])"
          using sp throttled_iff [OF inv(1) s0 le, of i] by (force simp: spaced_def sorted_wrt_append)
        moreover have "dvRejected d' i = Some now"
          using tab True Some gc_fresh [of "(dvRejected d)(i \<mapsto> now)" i now] by simp
        ultimately show ?thesis using T' by simp
      next
        case False
        then have T': "?T' = ?T" using l Some pr by simp
        have cl: "clock (es @ [l]) = clock es @ [now]" using l Some by simp
        have keep: "dvRejected d' i = dvRejected d i \<or>
            dvRejected d' i = None \<and> (\<exists>t. dvRejected d i = Some t \<and> now - t > unknownSessionRejectThrottle)"
        proof (cases "reject_due e d")
          case None
          then show ?thesis using tab by simp
        next
          case (Some j)
          with \<open>event_time e = Some now\<close> have "dvRejected d' i = gcRejectMapLocked now ((dvRejected d)(j \<mapsto> now)) i"
            using tab by simp
          moreover have upd: "((dvRejected d)(j \<mapsto> now)) i = dvRejected d i" using Some False by simp
          ultimately show ?thesis
            using gc_keeps [of now "(dvRejected d)(j \<mapsto> now)" i, unfolded upd]
              gc_subset [of now "(dvRejected d)(j \<mapsto> now)" i, unfolded upd]
            by (metis not_Some_eq)
        qed
        then show ?thesis using sp lst own unfolding T' cl by auto
      qed
    qed
  qed
qed

interpretation dev_throttle: history_invariant device_step "fresh_device deviceID version arch"
  "\<lambda>l. text_topic (fst l)" "\<lambda>es d. device_inv d \<and> throttle_inv es d" for deviceID version arch
proof unfold_locales
  show "device_inv (fresh_device deviceID version arch) \<and> throttle_inv [] (fresh_device deviceID version arch)"
    by (simp add: device_inv_fresh throttle_inv_def spaced_def) (simp add: fresh_device_eq)
qed (auto simp: device_step.simps intro: device_inv_handle throttle_step)

lemma device_run_throttle:
  "run device_step (fresh_device deviceID version arch) es d \<Longrightarrow> \<forall>l \<in> set es. text_topic (fst l) \<Longrightarrow> throttle_inv es d"
  using dev_throttle.run_inv [of deviceID version arch es d] by simp

section \<open>Single handlers\<close>

text \<open>Closing: the session is closed and unregistered; the message of a TCP session is all that is sent.\<close>

lemma handleClose_known:
  assumes "device_inv d" and "mgr_get (cmSessionID msg) d = Some r"
  shows "mgr_get (cmSessionID msg) (handleClose msg d) = None"
    and "\<exists>s. ndHeap (handleClose msg d) r = Some s \<and> ssClosed s"
    and "i \<noteq> cmSessionID msg \<Longrightarrow> mgr_get i (handleClose msg d) = mgr_get i d"
    and "\<exists>s. ndHeap d r = Some s \<and>
      ndOut (handleClose msg d) = ndOut d @ (if ssKind s = KTCP then [sendCloseMsg s] else [])"
proof -
  have inv: "node_inv d" "registered_open d" using assms(1) by (simp_all add: device_inv_def)
  have m: "smSessions (ndManager d) (cmSessionID msg) = Some r" using assms(2) by (simp add: mgr_get_eq)
  obtain s where s: "ndHeap d r = Some s" "ssId s = cmSessionID msg"
    using node_inv_entry [OF inv(1) m] by blast
  have o: "\<not> ssClosed s" using inv(2) m s(1) by (auto simp: registered_open_def)
  have eq: "handleClose msg d = mgr_remove (cmSessionID msg) (close_ref r d)"
    using assms(2) by (simp add: handleClose_def)
  show "mgr_get (cmSessionID msg) (handleClose msg d) = None" by (simp add: eq node_simps)
  show "\<exists>s. ndHeap (handleClose msg d) r = Some s \<and> ssClosed s" using s by (simp add: eq node_simps)
  show "\<exists>s. ndHeap d r = Some s \<and>
      ndOut (handleClose msg d) = ndOut d @ (if ssKind s = KTCP then [sendCloseMsg s] else [])"
    using s o by (simp add: eq node_simps)
  show "i \<noteq> cmSessionID msg \<Longrightarrow> mgr_get i (handleClose msg d) = mgr_get i d"
    using s by (auto simp: eq node_simps)
qed

text \<open>An acknowledgement for a command session refreshes the session's time and does nothing else.\<close>

lemma handleAck_exec:
  assumes "mgr_get (cmSessionID msg) d = Some r" and "ndHeap d r = Some s" and "ssKind s = KExec"
  shows "ndHeap (handleAck now msg d) = ndHeap d"
  using assms by (auto simp: handleAck_def node_simps session_ack_def)

lemma handleAck_credit:
  assumes "mgr_get (cmSessionID msg) d = Some r" and "ndHeap d r = Some s" and "ssKind s \<noteq> KExec"
  shows "ndHeap (handleAck now msg d) = (ndHeap d)(r \<mapsto> UpdateFlowControl (cmAckBytes msg) s)"
  using assms by (cases "ssKind s") (auto simp: handleAck_def node_simps session_ack_def)

text \<open>A data frame addressed to a registered session reaches its reorder buffer, and no other session.\<close>

lemma handleData_delivers:
  assumes "level (dvID d)" and "level i"
    and "mgr_get i d = Some r" and "ndHeap d r = Some s"
  shows "handleData now (InDataTopic (dvID d) i) (EncodeDataFrame seq p) d
      = update_ref r (HandleData seq p) (mgr_touch now i d)"
proof -
  have "ParseTopic (InDataTopic (dvID d) i) = Inr (data_topic_parts (dvID d) i)"
    unfolding InDataTopic_def using assms(1,2) by (intro ParseTopic_data) simp_all
  then show ?thesis
    using assms(3) by (simp add: handleData_def Let_def DecodeDataFrame_Encode data_topic_parts_def)
qed

section \<open>The throttle without garbage collection\<close>

text \<open>
  The reference: a table that keeps every entry for ever. The collection must not be seen from
  outside, whatever the table holds and however many ids come in.
\<close>

definition reject_keeping_all :: "time \<Rightarrow> string \<Rightarrow> device \<Rightarrow> device" where
  "reject_keeping_all now i d =
     (if throttled now i (dvRejected d) then d
      else emit [reject_pub d i] (d\<lparr>dvRejected := (dvRejected d)(i \<mapsto> now)\<rparr>))"

definition strays :: "(time \<Rightarrow> string \<Rightarrow> device \<Rightarrow> device) \<Rightarrow> (time \<times> string) list \<Rightarrow> device \<Rightarrow> device" where
  "strays reject fs d = foldl (\<lambda>d (now, i). reject now i d) d fs"

lemma strays_simps [simp]:
  "strays reject [] d = d" "strays reject ((now, i) # fs) d = strays reject fs (reject now i d)"
  by (simp_all add: strays_def)

text \<open>Two devices that answer alike from a time on.\<close>

definition same_answers :: "time \<Rightarrow> device \<Rightarrow> device \<Rightarrow> bool" where
  "same_answers from d e \<longleftrightarrow> ndOut d = ndOut e \<and> dvID d = dvID e
     \<and> (\<forall>later i. from \<le> later \<longrightarrow> throttled later i (dvRejected d) = throttled later i (dvRejected e))"

lemma same_answers_step:
  assumes "same_answers from d e" and "from \<le> now"
  shows "same_answers now (sendUnknownSessionReject now i d) (reject_keeping_all now i e)"
proof (cases "throttled now i (dvRejected d)")
  case True
  with assms show ?thesis by (auto simp: same_answers_def sendUnknownSessionReject_def reject_keeping_all_def)
next
  case False
  have upd: "throttled later j (m(i \<mapsto> now)) = (if j = i then later - now < unknownSessionRejectThrottle else throttled later j m)"
    for later j m by (simp add: throttled_def)
  have "throttled later j (gcRejectMapLocked now ((dvRejected d)(i \<mapsto> now))) = throttled later j ((dvRejected e)(i \<mapsto> now))"
    if "now \<le> later" for later j
    using gc_transparent [OF that, of j "(dvRejected d)(i \<mapsto> now)"] assms that by (simp add: upd same_answers_def)
  with False assms show ?thesis
    by (simp add: same_answers_def sendUnknownSessionReject_def reject_keeping_all_def node_simps reject_pub_def)
qed

lemma strays_same:
  "same_answers from d e \<Longrightarrow> sorted (from # map fst fs) \<Longrightarrow>
     \<exists>t. same_answers t (strays sendUnknownSessionReject fs d) (strays reject_keeping_all fs e)"
proof (induction fs arbitrary: "from" d e)
  case (Cons f fs)
  obtain now i where f: "f = (now, i)" by (cases f)
  with Cons.prems have "sorted (now # map fst fs)" "from \<le> now" by auto
  from Cons.IH [OF same_answers_step [OF Cons.prems(1) this(2)] this(1)] show ?case by (simp add: f)
qed auto

section \<open>Main properties\<close>

text \<open>The state after an open request for a TCP session.\<close>

definition example_open :: ControlMessage where
  "example_open = zeroMessage\<lparr>cmType := MessageTypeOpen, cmSessionID := ''a'', cmMode := SessionModeTCP,
     cmTarget := ''h:1''\<rparr>"

definition example_device :: device where
  "example_device = handleControl 0 (\<lambda>_. None) ShellStarted (PJson (Marshal example_open)) (fresh_device ''dev'' [] [])"

lemma example_open_fields: "cmType example_open = MessageTypeOpen" "cmSessionID example_open = ''a''"
    "cmMode example_open = SessionModeTCP" "cmTarget example_open = ''h:1''" "cmTimeout example_open = 0" "wire_ok example_open"
  by (simp_all add: example_open_def zeroMessage_def wire_ok_def msg_ok_def msg_utf8_def int64_ok_def
      message_type_defs session_mode_defs)

lemma example_open_read: "payload_json (PJson (Marshal example_open)) = Some (Marshal example_open)"
    "Unmarshal (Marshal example_open) = Some example_open"
  using example_open_fields(6) by (simp_all add: payload_json_def json_parse_Marshal Unmarshal_Marshal wire_ok_def)

lemma example_device_eq: "example_device = handleOpen 0 (\<lambda>_. None) ShellStarted example_open (fresh_device ''dev'' [] [])"
  using example_open_read example_open_fields
  by (simp add: example_device_def handleControl_def)

lemma example_device_session: "mgr_get ''a'' example_device = Some 0"
    "\<exists>s. ndHeap example_device 0 = Some s \<and> ssKind s = KTCP \<and> ssId s = ''a'' \<and> ssConn s = ResourceOpen"
  by (simp_all add: example_device_eq handleOpen_def Let_def example_open_fields build_session_def session_mode_defs
      alloc_def fresh_device_eq NewSessionManager_def Add_def sendOpenAck_def node_simps session_start_def SetOnClose_def
      new_session_defs)

lemma example_device_run: "\<exists>ms. run device_step (fresh_device ''dev'' [] [])
    [(InControl 0 (\<lambda>_. None) ShellStarted (PJson (Marshal example_open)), ms)] example_device"
  using ds_event [of "InControl 0 (\<lambda>_. None) ShellStarted (PJson (Marshal example_open))" "fresh_device ''dev'' [] []"]
  by (auto simp: example_device_def intro!: exI run_single)

lemma example_device_inv: "device_inv example_device"
  using example_device_run device_run_inv by blast

text \<open>A device without sessions rejects data; the same frame twice within the throttle is rejected once.\<close>

definition stray_frame :: "time \<Rightarrow> device_event" where
  "stray_frame now = InData now (InDataTopic ''dev'' ''x'') []"

definition stray_frames :: "(device_event \<times> PubMessage list) list" where
  "stray_frames = [(stray_frame 1, [reject_pub (fresh_device ''dev'' [] []) ''x'']), (stray_frame 2, [])]"

lemma stray_topic: "ParseTopic (InDataTopic ''dev'' ''x'') = Inr (data_topic_parts ''dev'' ''x'')"
  unfolding InDataTopic_def by (rule ParseTopic_data) simp_all

lemma stray_frames_run: "\<exists>d. run device_step (fresh_device ''dev'' [] []) stray_frames d \<and> mgr_get ''x'' d = None"
proof -
  let ?d0 = "fresh_device ''dev'' [] []"
  let ?d1 = "device_handle (stray_frame 1) ?d0"
  have d0: "mgr_get ''x'' ?d0 = None" "dvRejected ?d0 = (\<lambda>_. None)"
    by (simp_all add: mgr_get_eq fresh_device_eq NewSessionManager_def)
  then have h1: "?d1 = sendUnknownSessionReject 1 ''x'' ?d0"
    by (simp add: stray_frame_def handleData_def stray_topic data_topic_parts_def)
  have d1: "mgr_get ''x'' ?d1 = None" "dvRejected ?d1 ''x'' = Some 1" "ndOut ?d1 = ndOut ?d0 @ [reject_pub ?d0 ''x'']"
    using d0 by (simp_all add: h1 sendUnknownSessionReject_def throttled_def mgr_get_eq node_simps gcRejectMapLocked_def)
  have h2: "device_handle (stray_frame 2) ?d1 = ?d1"
    using d1 by (simp add: stray_frame_def handleData_def stray_topic data_topic_parts_def sendUnknownSessionReject_def
        throttled_def unknownSessionRejectThrottle_def Second_def)
  have p: "possible (stray_frame t) d" for t d by (simp add: stray_frame_def)
  have s1: "device_step ?d0 (stray_frame 1, [reject_pub ?d0 ''x'']) ?d1"
    using ds_event [of "stray_frame 1" ?d0, OF p] step_output_app [OF d1(3)] by simp
  have s2: "device_step ?d1 (stray_frame 2, []) ?d1"
    using ds_event [of "stray_frame 2" ?d1, OF p] by (simp add: step_output_def h2)
  have "run device_step ?d0 stray_frames ?d1"
    unfolding stray_frames_def by (rule run_cons [of device_step, OF s1], rule run_single [of device_step, OF s2])
  with d1(1) show ?thesis by blast
qed

text \<open>C10. In every reachable state of a device a registered session exists under its own id, has the hook that takes it out of the table, and has not been closed. A closed session is therefore always gone from the table.\<close>

theorem device_sessions_open:
  assumes "run device_step (fresh_device deviceID version arch) es d" and "mgr_get i d = Some r"
  shows "\<exists>s. ndHeap d r = Some s \<and> ssId s = i \<and> ssHook s \<and> \<not> ssClosed s"
proof -
  have inv: "node_inv d" "registered_open d"
    using device_run_inv [OF assms(1)] by (simp_all add: device_inv_def)
  have m: "smSessions (ndManager d) i = Some r" using assms(2) by (simp add: mgr_get_eq)
  then show ?thesis
    using node_inv_entry [OF inv(1) m] inv(2) unfolding registered_open_def by blast
qed

theorem device_sessions_open_witness:
  "\<exists>s. ndHeap example_device 0 = Some s \<and> ssId s = ''a'' \<and> ssHook s \<and> \<not> ssClosed s"
  proof -
  obtain ms where "run device_step (fresh_device ''dev'' [] [])
      [(InControl 0 (\<lambda>_. None) ShellStarted (PJson (Marshal example_open)), ms)] example_device"
    using example_device_run by blast
  from device_sessions_open [OF this example_device_session(1)] show ?thesis .
qed

text \<open>C11. An open request has one of two outcomes, each with one open_ack. Refused: the session table and all sessions are what they were. Accepted: the id was free, and one new, started, open session of the requested mode is registered under it; nothing else changes.\<close>

theorem open_outcome:
  assumes "node_inv d" and "d' = handleOpen now dial sh msg d"
  shows "(\<exists>err. ndOut d' = ndOut d @ [control_pub (OutControlTopic (dvID d)) 1 [] (open_ack_msg (cmSessionID msg) False err)]
        \<and> smSessions (ndManager d') = smSessions (ndManager d)
        \<and> (\<forall>r s. ndHeap d r = Some s \<longrightarrow> ndHeap d' r = Some s))
     \<or> (ndOut d' = ndOut d @ [control_pub (OutControlTopic (dvID d)) 1 [] (open_ack_msg (cmSessionID msg) True [])]
        \<and> mgr_get (cmSessionID msg) d = None
        \<and> (\<exists>r s. ndHeap d r = None \<and> ndHeap d' = (ndHeap d)(r \<mapsto> s)
             \<and> smSessions (ndManager d') = (smSessions (ndManager d))(cmSessionID msg \<mapsto> r)
             \<and> ssId s = cmSessionID msg \<and> kind_mode (ssKind s) = cmMode msg
             \<and> ssStarted s \<and> \<not> ssClosed s \<and> ssHook s))"
  using handleOpen_result [OF assms] unfolding open_refused_def open_accepted_def mgr_get_eq by blast

theorem open_outcome_witness:
  "\<exists>err. ndOut (handleOpen 1 (\<lambda>_. None) ShellStarted example_open example_device)
     = ndOut example_device @ [control_pub (OutControlTopic (dvID example_device)) 1 [] (open_ack_msg ''a'' False err)]"
proof -
  have inv: "node_inv example_device" using example_device_inv by (simp add: device_inv_def)
  have "mgr_get (cmSessionID example_open) example_device \<noteq> None"
    using example_device_session(1) by (simp add: example_open_fields)
  with open_outcome [OF inv refl, of 1 "\<lambda>_. None" ShellStarted example_open] show ?thesis
    unfolding example_open_fields by blast
qed

text \<open>C13. Among the messages a device publishes, the rejects for one unknown session id are at least five seconds apart, however many stray messages arrive and whatever is collected from its table; and a stray frame is answered with a reject whenever none was published for its id in the last five seconds, and with nothing otherwise.\<close>

theorem reject_throttle:
  assumes "run device_step (fresh_device deviceID version arch) es d" and "sorted (clock es)"
    and "\<forall>l \<in> set es. text_topic (fst l)"
  shows "sorted_wrt (\<lambda>a b. b - a \<ge> 5000000000) (reject_times i es)
    \<and> (\<forall>now topic frame parsed. ParseTopic topic = Inr parsed \<longrightarrow> mgr_get (ptSessionID parsed) d = None \<longrightarrow>
         (\<forall>t \<in> set (clock es). t \<le> now) \<longrightarrow>
         ndOut (handleData now topic frame d) = ndOut d @
           (if \<exists>t \<in> set (reject_times (ptSessionID parsed) es). now - t < 5000000000
            then [] else [reject_pub d (ptSessionID parsed)]))"
  using device_run_throttle [OF assms(1,3)] assms(2) throttled_iff [OF device_run_throttle [OF assms(1,3)] assms(2)]
  by (auto simp: throttle_inv_def spaced_def handleData_def sendUnknownSessionReject_def node_simps
      unknownSessionRejectThrottle_def Second_def)

theorem reject_throttle_witness:
  "\<exists>d. reject_times ''x'' stray_frames = [1]
     \<and> sorted_wrt (\<lambda>a b. b - a \<ge> 5000000000) (reject_times ''x'' stray_frames)
     \<and> ndOut (handleData 5000000000 (InDataTopic ''dev'' ''x'') [] d) = ndOut d
     \<and> ndOut (handleData 5000000001 (InDataTopic ''dev'' ''x'') [] d) = ndOut d @ [reject_pub d ''x'']"
proof -
  obtain d where d: "run device_step (fresh_device ''dev'' [] []) stray_frames d" "mgr_get ''x'' d = None"
    using stray_frames_run by blast
  have clk: "sorted (clock stray_frames)" "\<forall>t \<in> set (clock stray_frames). t \<le> 5000000000"
    by (simp_all add: stray_frames_def stray_frame_def)
  have tt: "\<forall>l \<in> set stray_frames. text_topic (fst l)"
    by (simp add: stray_frames_def stray_frame_def stray_topic data_topic_parts_def)
  have rt: "reject_times ''x'' stray_frames = [1]"
    by (simp add: stray_frames_def stray_frame_def utf8_repair_valid del: utf8_repair.simps)
  note thr = reject_throttle [OF d(1) clk(1) tt, of "''x''"]
  have later: "ndOut (handleData now (InDataTopic ''dev'' ''x'') [] d) = ndOut d @
      (if now - 1 < 5000000000 then [] else [reject_pub d ''x''])" if "5000000000 \<le> now" for now
    using thr [THEN conjunct2, rule_format, OF stray_topic, of now "[]"] clk(2) d(2) rt that
    by (force simp: data_topic_parts_def)
  show ?thesis
    using thr [THEN conjunct1] rt later [of 5000000000] later [of 5000000001] by (intro exI [of _ d]) simp
qed

text \<open>C22. Collecting old entries of the reject table cannot be observed: however many unknown ids arrive, in order of time, a device that collects publishes the same messages as one that keeps every entry.\<close>

theorem throttle_gc:
  assumes "sorted (map fst stray)"
  shows "ndOut (strays sendUnknownSessionReject stray d) = ndOut (strays reject_keeping_all stray d)"
proof (cases stray)
  case (Cons f rest)
  have "same_answers (fst f) d d" by (simp add: same_answers_def)
  then obtain t where "same_answers t (strays sendUnknownSessionReject stray d) (strays reject_keeping_all stray d)"
    using strays_same [of "fst f" d d stray] assms Cons by auto
  then show ?thesis by (simp add: same_answers_def)
qed simp

theorem throttle_gc_witness:
  "ndOut (strays sendUnknownSessionReject [(0, ''a''), (1, ''b''), (2, ''a'')] example_device)
     = ndOut (strays reject_keeping_all [(0, ''a''), (1, ''b''), (2, ''a'')] example_device)"
proof -
  have "sorted (map fst [(0 :: time, ''a''), (1, ''b''), (2, ''a'')])" by simp
  then show ?thesis by (rule throttle_gc)
qed

end
