(* ===== verification/Shutdown.thy ===== *)
theory Shutdown
  imports Evolution Device
begin

text \<open>
  \<open>CloseAll\<close> of \<open>internal/tunnel/session.go\<close> as it runs beside the handlers of a device: it holds the
  manager's lock to copy the table and again to replace it, and closes the sessions in between with
  the lock free. The function \<open>CloseAll\<close> of theory \<open>Node\<close> is the case in which nothing comes between.
\<close>

section \<open>CloseAll step by step\<close>

datatype close_phase = NotClosing | Closing "(string \<times> nat) list" | AllClosed

datatype close_event = TakeSnapshot "(string \<times> nat) list" | CloseNext | ClearTables | Meanwhile device_event

inductive close_step :: "device \<times> close_phase \<Rightarrow> close_event \<Rightarrow> device \<times> close_phase \<Rightarrow> bool" where
  cs_snapshot: "enumerates order (CloseAll_snapshot (ndManager d)) \<Longrightarrow>
    close_step (d, NotClosing) (TakeSnapshot order) (d, Closing order)"
| cs_close: "close_step (d, Closing ((i, r) # rest)) CloseNext (close_ref r d, Closing rest)"
| cs_clear: "close_step (d, Closing []) ClearTables (d\<lparr>ndManager := CloseAll_clear (ndManager d)\<rparr>, AllClosed)"
| cs_meanwhile: "possible e d \<Longrightarrow> close_step (d, p) (Meanwhile e) (device_handle e d, p)"

inductive_cases close_stepE: "close_step (d, p) e (d', p')"
inductive_simps close_step_simps:
  "close_step (d, p) (TakeSnapshot order) c" "close_step (d, p) CloseNext c" "close_step (d, p) ClearTables c"
  "close_step (d, p) (Meanwhile e) c"

section \<open>The sessions of a device over time\<close>

context session_order
begin

lemma evolves_reject [simp]: "evolves R r d (sendUnknownSessionReject now i d') = evolves R r d d'"
  by (simp add: sendUnknownSessionReject_def evolves_def node_simps)

lemma evolves_handleOpen:
  assumes "node_inv d"
  shows "evolves R r d (handleOpen now dial sh msg d)"
  using handleOpen_result [OF assms refl, of now dial sh msg]
  by (auto simp: evolves_def open_refused_def open_accepted_def intro: same)

lemma device_evolves:
  assumes "node_inv d" and "\<And>f ms ends s. e = Work r f ms ends \<Longrightarrow> R s (f s)"
  shows "evolves R r d (device_handle e d)"
proof (cases e)
  case (InControl now dial sh p)
  have acked: "evolves R r d (handleAck now msg d)" for msg
    by (auto simp: handleAck_def intro!: evolves_update ack split: option.split)
  show ?thesis unfolding InControl
    by (auto simp: handleControl_def handleClose_def handleResize_def handlePing_def resizeShell_def acked
        evolves_handleOpen [OF assms(1)] intro!: evolves_update evolves_close resize split: option.split)
next
  case (InData now topic frame)
  then show ?thesis
    by (auto simp: handleData_def Let_def intro!: evolves_update data split: sum.split option.split)
next
  case (Stale now order)
  then show ?thesis by (simp add: evolves_cleanup)
next
  case (CloseAllSessions order)
  then show ?thesis by (simp add: evolves_CloseAll)
next
  case (Work q f ms ends)
  with evolves_work [of q r f d ms ends] assms(2) show ?thesis by simp
qed

end

section \<open>A closed session stays closed\<close>

interpretation closed_order: session_order "\<lambda>s t. ssClosed s \<longrightarrow> ssClosed t"
proof unfold_locales
  show "ssClosed s \<longrightarrow> ssClosed (fst (session_start sh s))" for s sh by simp
  show "ssClosed s \<longrightarrow> ssClosed (fst (session_take s))" for s
    by (simp add: session_take_def split: prod.split list.split)
qed simp_all

lemma closed_stays:
  assumes "possible e d" and "node_inv d" and "ndHeap d r = Some s"
  shows "\<exists>s'. ndHeap (device_handle e d) r = Some s' \<and> (ssClosed s \<longrightarrow> ssClosed s')"
proof (rule evolvesD [OF closed_order.device_evolves [OF assms(2)] assms(3)])
  fix f ms ends t assume "e = Work r f ms ends"
  with assms(1) show "ssClosed t \<longrightarrow> ssClosed (f t)" by (simp add: same_session_def)
qed

section \<open>What CloseAll does whatever comes between\<close>

text \<open>
  Every session of the snapshot is closed or still to be closed; with nothing between, the rest of the
  order leads to what \<open>CloseAll\<close> gives.
\<close>

definition closing_inv :: "device \<Rightarrow> (string \<times> nat) list \<Rightarrow> close_event list \<Rightarrow> device \<times> close_phase \<Rightarrow> bool" where
  "closing_inv d0 order es c \<longleftrightarrow> (case c of (d, p) \<Rightarrow>
     device_inv d
     \<and> (\<forall>r \<in> snd ` set order. \<exists>s. ndHeap d r = Some s \<and> (ssClosed s \<or> (\<exists>rest. p = Closing rest \<and> r \<in> snd ` set rest)))
     \<and> p \<noteq> NotClosing
     \<and> ((\<forall>e. Meanwhile e \<notin> set es) \<longrightarrow> (case p of
           NotClosing \<Rightarrow> True
         | Closing rest \<Rightarrow> close_each rest d = close_each order d0
         | AllClosed \<Rightarrow> d = CloseAll order d0))
     \<and> (\<forall>es'. es = es' @ [ClearTables] \<longrightarrow> smSessions (ndManager d) = Map.empty))"

lemma closing_inv_start:
  assumes "device_inv d" and "\<forall>r \<in> snd ` set order. ndHeap d r \<noteq> None"
  shows "closing_inv d order [] (d, Closing order)"
  using assms by (auto simp: closing_inv_def)

lemma closing_inv_step:
  assumes inv: "closing_inv d0 order es c" and step: "close_step c e c'"
  shows "closing_inv d0 order (es @ [e]) c'"
proof -
  obtain d p where c: "c = (d, p)" by (cases c)
  from inv c have dinv: "device_inv d" and some: "\<And>r. r \<in> snd ` set order \<Longrightarrow>
      \<exists>s. ndHeap d r = Some s \<and> (ssClosed s \<or> (\<exists>rest. p = Closing rest \<and> r \<in> snd ` set rest))"
    and alone: "(\<forall>e. Meanwhile e \<notin> set es) \<Longrightarrow> (case p of NotClosing \<Rightarrow> True
         | Closing rest \<Rightarrow> close_each rest d = close_each order d0 | AllClosed \<Rightarrow> d = CloseAll order d0)"
    and p: "p \<noteq> NotClosing"
    by (auto simp: closing_inv_def)
  show ?thesis
    using step unfolding c
  proof (cases rule: close_step.cases)
    case (cs_close i r rest)
    have "\<exists>s. ndHeap (close_ref r d) q = Some s \<and> (ssClosed s \<or> q \<in> snd ` set rest)" if "q \<in> snd ` set order" for q
      using some [OF that] cs_close by (auto simp: node_simps)
    with cs_close alone dinv show ?thesis by (auto simp: closing_inv_def device_inv_close_ref)
  next
    case cs_clear
    have "device_inv (d\<lparr>ndManager := CloseAll_clear (ndManager d)\<rparr>)"
      using device_inv_CloseAll [OF dinv, of "[]"] by (simp add: CloseAll_def)
    moreover have "\<exists>s. ndHeap d q = Some s \<and> ssClosed s" if "q \<in> snd ` set order" for q
      using some [OF that] cs_clear by auto
    ultimately show ?thesis using alone cs_clear
      by (auto simp: closing_inv_def CloseAll_def Let_def CloseAll_clear_def)
  next
    case (cs_meanwhile e)
    have "node_inv d" using dinv by (simp add: device_inv_def)
    then have "\<exists>s. ndHeap (device_handle e d) q = Some s \<and> (ssClosed s \<or> (\<exists>rest. p = Closing rest \<and> q \<in> snd ` set rest))"
      if "q \<in> snd ` set order" for q
      using some [OF that] closed_stays [OF cs_meanwhile(3)] by blast
    with cs_meanwhile p device_inv_handle [OF cs_meanwhile(3) dinv] show ?thesis by (auto simp: closing_inv_def)
  qed (use p in simp)
qed

lemma closing_run:
  assumes "device_inv d" and "enumerates order (CloseAll_snapshot (ndManager d))"
    and "run close_step (d, Closing order) es c"
  shows "closing_inv d order es c"
proof -
  have "node_inv d" using assms(1) by (simp add: device_inv_def)
  then have "\<forall>r \<in> snd ` set order. ndHeap d r \<noteq> None"
    using enumerates_set [OF assms(2)] node_inv_entry by (fastforce simp: CloseAll_snapshot_def)
  with assms(1) have "closing_inv d order [] (d, Closing order)" by (simp add: closing_inv_start)
  from assms(3) this show ?thesis
    by (induction rule: run.induct) (auto intro: closing_inv_step)
qed

section \<open>A session that comes too late\<close>

text \<open>
  The tables are replaced, not checked: a session opened after the last one of the snapshot was closed,
  or at any time after the copy, is forgotten while it runs. Nothing finds it any more, no message, no
  cleanup and no later \<open>CloseAll\<close>.
\<close>

lemma close_all_forgets:
  assumes "run close_step (d0, NotClosing) es (d, Closing [])"
    and "device_handle (InControl now dial sh p) d = handleOpen now dial sh msg d"
    and "open_accepted msg d (handleOpen now dial sh msg d)"
  shows "\<exists>d' r s. run close_step (d0, NotClosing) (es @ [Meanwhile (InControl now dial sh p)] @ [ClearTables]) (d', AllClosed)
     \<and> ndHeap d' r = Some s \<and> ssId s = cmSessionID msg \<and> ssStarted s \<and> \<not> ssClosed s \<and> (\<forall>i. mgr_get i d' = None)"
proof -
  let ?d1 = "handleOpen now dial sh msg d"
  let ?d2 = "?d1\<lparr>ndManager := CloseAll_clear (ndManager ?d1)\<rparr>"
  have "close_step (d, Closing []) (Meanwhile (InControl now dial sh p)) (?d1, Closing [])"
    using cs_meanwhile [of "InControl now dial sh p" d "Closing []"] unfolding assms(2) by simp
  from run_snoc [OF run_snoc [OF assms(1) this] cs_clear]
  have "run close_step (d0, NotClosing) (es @ [Meanwhile (InControl now dial sh p)] @ [ClearTables]) (?d2, AllClosed)"
    by simp
  moreover obtain r s where "ndHeap ?d1 = (ndHeap d)(r \<mapsto> s)" "ssId s = cmSessionID msg" "ssStarted s" "\<not> ssClosed s"
    using assms(3) unfolding open_accepted_def by blast
  moreover have "\<forall>i. mgr_get i ?d2 = None" by (simp add: mgr_get_eq CloseAll_clear_def)
  ultimately show ?thesis by (intro exI [of _ ?d2] exI [of _ r] exI [of _ s]) simp
qed

section \<open>Main properties\<close>

text \<open>C23. Whatever the device does while it closes all its sessions, in the end every session that was registered when the snapshot was taken is closed, and right after the tables were replaced nothing is registered. If nothing else happened meanwhile, no other session was touched, and one close message went out for each TCP session that was open.\<close>

theorem close_all:
  assumes "device_inv d" and "enumerates order (CloseAll_snapshot (ndManager d))"
    and "run close_step (d, Closing order) es (d', AllClosed)"
  shows "(\<forall>i r. mgr_get i d = Some r \<longrightarrow> (\<exists>s. ndHeap d' r = Some s \<and> ssClosed s))
     \<and> (\<forall>es'. es = es' @ [ClearTables] \<longrightarrow> (\<forall>i. mgr_get i d' = None))
     \<and> ((\<forall>e. Meanwhile e \<notin> set es) \<longrightarrow>
          (\<forall>r. ndHeap d' r = (if \<exists>i. mgr_get i d = Some r
             then map_option (\<lambda>s. fst (session_Close s)) (ndHeap d r) else ndHeap d r))
          \<and> ndOut d' = ndOut d @ close_outs d (map snd order))"
proof -
  have inv: "closing_inv d order es (d', AllClosed)" by (rule closing_run [OF assms])
  have "node_inv d" using assms(1) by (simp add: device_inv_def)
  note spec = CloseAll_spec [OF this assms(2)]
  have closed: "\<exists>s. ndHeap d' r = Some s \<and> ssClosed s" if "mgr_get i d = Some r" for i r
  proof -
    have "r \<in> snd ` set order"
      using that enumerates_set [OF assms(2), of i r] by (force simp: CloseAll_snapshot_def mgr_get_eq)
    with inv show ?thesis unfolding closing_inv_def by fastforce
  qed
  have empty: "mgr_get i d' = None" if "es = es' @ [ClearTables]" for es' i
    using inv that by (simp add: closing_inv_def mgr_get_eq)
  have alone: "d' = CloseAll order d" if "\<forall>e. Meanwhile e \<notin> set es"
    using inv that by (simp add: closing_inv_def)
  show ?thesis
    by (intro conjI allI impI; (rule closed | rule empty | simp add: alone spec(2,3) mgr_get_eq); assumption)
qed

theorem close_all_witness:
  "\<exists>d' s. run close_step (example_device, Closing [(''a'', 0)])
       ([CloseNext] @ [Meanwhile (InControl 1 (\<lambda>_. None) ShellStarted (PJson (Marshal example_open)))] @ [ClearTables]) (d', AllClosed)
     \<and> ndHeap d' 0 = Some s \<and> ssClosed s \<and> mgr_get ''a'' d' = None"
proof -
  let ?e = "InControl 1 (\<lambda>_. None) ShellStarted (PJson (Marshal example_open))"
  let ?es = "[CloseNext] @ [Meanwhile ?e] @ [ClearTables]"
  let ?d2 = "device_handle ?e (close_ref 0 example_device)"
  let ?d3 = "?d2\<lparr>ndManager := CloseAll_clear (ndManager ?d2)\<rparr>"
  have "close_step (close_ref 0 example_device, Closing []) (Meanwhile ?e) (?d2, Closing [])"
    by (rule cs_meanwhile) simp
  moreover have "run close_step (example_device, Closing [(''a'', 0)]) [CloseNext] (close_ref 0 example_device, Closing [])"
    by (rule run_single) (rule cs_close)
  ultimately have "run close_step (example_device, Closing [(''a'', 0)]) (([CloseNext] @ [Meanwhile ?e]) @ [ClearTables]) (?d3, AllClosed)"
    using cs_clear [of ?d2] by (blast intro: run_snoc)
  then have r: "run close_step (example_device, Closing [(''a'', 0)]) ?es (?d3, AllClosed)" by simp
  have "enumerates [(''a'', 0)] (CloseAll_snapshot (ndManager example_device))"
    by (auto simp: enumerates_def CloseAll_snapshot_def example_device_eq handleOpen_def Let_def example_open_fields
      build_session_def session_mode_defs alloc_def fresh_device_eq NewSessionManager_def Add_def sendOpenAck_def node_simps session_start_def SetOnClose_def
      new_session_defs)
  from close_all [OF example_device_inv this r] example_device_session(1) r show ?thesis by auto
qed

end
