(* ===== verification/Stream.thy ===== *)
theory Stream
  imports Writer Reorder
begin

text \<open>
  One direction of a tunnel session, end to end: the writer of one peer, the broker, the reorder
  buffer of the other peer and the goroutine that consumes it and acknowledges.

  The broker delivers at least once and in any order: a published frame stays deliverable for
  ever, and so does an acknowledgement. Loss is a frame that is never delivered. The consumer is
  the loop of \<open>TCPSession.writeToConn\<close>, of \<open>ShellSession.writeToPTY\<close> and of the client's
  \<open>writeSessionData\<close>: take a payload, write it out, count it, acknowledge every quarter window.
\<close>

section \<open>The composed system\<close>

record stream =
  stWriter :: wr_conf
  stNet :: "PubMessage set"
  stReorder :: rb_conf
  stAckState :: sessionAckState
  stAcks :: "u64 set"

datatype stream_event = OfWriter wr_event | OfReorder rb_event

definition NewStream :: "string \<Rightarrow> stream" where
  "NewStream topic = \<lparr>stWriter = fresh_writer topic, stNet = {}, stReorder = (NewReorderBuffer ReorderBufSize, Idle),
     stAckState = newSessionAckState, stAcks = {}\<rparr>"

fun internal :: "rb_event \<Rightarrow> bool" where
  "internal (Pops p) = True" | "internal LoopEnds = True" | "internal (Sends p) = True"
| "internal (Drops p) = True" | "internal Closes = True" | "internal _ = False"

fun local :: "wr_event \<Rightarrow> bool" where
  "local (Publishes m) = False" | "local (AckArrives a) = False" | "local _ = True"

inductive stream_step :: "stream \<Rightarrow> stream_event \<Rightarrow> stream \<Rightarrow> bool" where
  st_write: "wr_step (stWriter s) e w \<Longrightarrow> local e \<Longrightarrow>
    stream_step s (OfWriter e) (s\<lparr>stWriter := w\<rparr>)"
| st_publish: "wr_step (stWriter s) (Publishes m) w \<Longrightarrow>
    stream_step s (OfWriter (Publishes m)) (s\<lparr>stWriter := w, stNet := insert m (stNet s)\<rparr>)"
| st_ack: "a \<in> stAcks s \<Longrightarrow> wr_step (stWriter s) (AckArrives a) w \<Longrightarrow>
    stream_step s (OfWriter (AckArrives a)) (s\<lparr>stWriter := w\<rparr>)"
| st_deliver: "m \<in> stNet s \<Longrightarrow> pmPayload m = PData f \<Longrightarrow> DecodeDataFrame f = Inr (seq, d) \<Longrightarrow>
    e = InsertStores seq d \<or> e = InsertReturns seq d x \<Longrightarrow> rb_step (stReorder s) e r \<Longrightarrow>
    stream_step s (OfReorder e) (s\<lparr>stReorder := r\<rparr>)"
| st_internal: "internal e \<Longrightarrow> rb_step (stReorder s) e r \<Longrightarrow>
    stream_step s (OfReorder e) (s\<lparr>stReorder := r\<rparr>)"
| st_consume: "rb_step (stReorder s) (Receives p) r \<Longrightarrow>
    ackState_record (length p) (stAckState s) = (a, ack) \<Longrightarrow>
    stream_step s (OfReorder (Receives p))
      (s\<lparr>stReorder := r, stAckState := a, stAcks := set_option ack \<union> stAcks s\<rparr>)"

fun wr_events :: "stream_event list \<Rightarrow> wr_event list" where
  "wr_events [] = []"
| "wr_events (OfWriter e # es) = e # wr_events es"
| "wr_events (OfReorder e # es) = wr_events es"

fun rb_events :: "stream_event list \<Rightarrow> rb_event list" where
  "rb_events [] = []"
| "rb_events (OfReorder e # es) = e # rb_events es"
| "rb_events (OfWriter e # es) = rb_events es"

lemma wr_events_append [simp]: "wr_events (es @ fs) = wr_events es @ wr_events fs"
  by (induction es rule: wr_events.induct) auto

lemma rb_events_append [simp]: "rb_events (es @ fs) = rb_events es @ rb_events fs"
  by (induction es rule: rb_events.induct) auto

abbreviation sent_chunks :: "stream_event list \<Rightarrow> byte list list" where
  "sent_chunks es \<equiv> numbered (wr_events es)"

abbreviation got :: "stream_event list \<Rightarrow> byte list list" where
  "got es \<equiv> received (rb_events es)"

section \<open>The parts run as before\<close>

lemma stream_writer_run:
  "run stream_step (NewStream topic) es s \<Longrightarrow> run wr_step (fresh_writer topic) (wr_events es) (stWriter s)"
proof (induction rule: run.induct)
  case run_nil
  then show ?case by (simp add: NewStream_def run.run_nil)
next
  case (run_snoc es t e u)
  from run_snoc.hyps(2) show ?case
    by (cases rule: stream_step.cases) (use run_snoc.IH in \<open>auto intro: run.run_snoc\<close>)
qed

lemma stream_reorder_run:
  "run stream_step (NewStream topic) es s \<Longrightarrow>
     run rb_step (NewReorderBuffer ReorderBufSize, Idle) (rb_events es) (stReorder s)"
proof (induction rule: run.induct)
  case run_nil
  then show ?case by (simp add: NewStream_def run.run_nil)
next
  case (run_snoc es t e u)
  from run_snoc.hyps(2) show ?case
    by (cases rule: stream_step.cases) (use run_snoc.IH in \<open>auto intro: run.run_snoc\<close>)
qed

lemma stream_wr_inv:
  "run stream_step (NewStream topic) es s \<Longrightarrow> wr_inv topic (wr_events es) (stWriter s)"
  by (rule wr_run_inv [OF stream_writer_run])

lemma numbered_snoc: "\<exists>cs. numbered (es @ [e]) = numbered es @ cs"
  by simp

lemma stream_net:
  "run stream_step (NewStream topic) es s \<Longrightarrow> stNet s \<subseteq> frames topic (sent_chunks es)"
proof (induction rule: run.induct)
  case run_nil
  then show ?case by (simp add: NewStream_def)
next
  case (run_snoc es t e u)
  have u: "wr_inv topic (wr_events (es @ [e])) (stWriter u)"
    using run_snoc.hyps by (intro stream_wr_inv run.run_snoc)
  from run_snoc.hyps(2) show ?case
  proof (cases rule: stream_step.cases)
    case (st_publish m w)
    with u have "m \<in> frames topic (sent_chunks (es @ [e]))"
      by (auto simp: wr_inv_def wr_stream_inv_def)
    with st_publish run_snoc.IH show ?thesis by (auto intro: frames_mono)
  qed (use run_snoc.IH in \<open>auto intro: frames_mono\<close>)
qed

abbreviation nth_chunk :: "stream_event list \<Rightarrow> nat \<Rightarrow> byte list" where
  "nth_chunk es \<equiv> \<lambda>i. sent_chunks es ! i"

lemma frame_ok_mono:
  assumes "frame_ok (\<lambda>i. cs ! i) (length cs) e"
  shows "frame_ok (\<lambda>i. (cs @ ds) ! i) (length (cs @ ds)) e"
  using assms by (cases e) (auto simp: nth_append)

lemma frames_decode:
  assumes "m \<in> frames topic cs" and "pmPayload m = PData f" and "DecodeDataFrame f = Inr (seq, d)"
    and "length cs < 2 ^ 32"
  shows "unat seq < length cs \<and> d = cs ! unat seq"
proof -
  obtain i where i: "i < length cs" and m: "m = frame_of topic cs i"
    using assms(1) by (auto simp: frames_def)
  then have "f = EncodeDataFrame (of_nat i) (cs ! i)"
    using assms(2) by (simp add: frame_of_def data_pub_def)
  then have "seq = of_nat i" and "d = cs ! i"
    using assms(3) by (simp_all add: data_frame.dec_enc)
  moreover have "unat (of_nat i :: u32) = i"
    using i assms(4) by (simp add: unat_of_nat take_bit_nat_eq_self)
  ultimately show ?thesis using i by simp
qed

lemma stream_frames_ok:
  "run stream_step (NewStream topic) es s \<Longrightarrow> length (sent_chunks es) < 2 ^ 32 \<Longrightarrow>
     \<forall>e \<in> set (rb_events es). frame_ok (nth_chunk es) (length (sent_chunks es)) e"
proof (induction rule: run.induct)
  case run_nil
  then show ?case by simp
next
  case (run_snoc es t e u)
  have len: "length (sent_chunks es) < 2 ^ 32"
    using run_snoc.prems by simp
  have old: "\<forall>x \<in> set (rb_events es). frame_ok (nth_chunk (es @ [e])) (length (sent_chunks (es @ [e]))) x"
    using run_snoc.IH [OF len] frame_ok_mono by (metis numbered_append wr_events_append)
  from run_snoc.hyps(2) show ?case
  proof (cases rule: stream_step.cases)
    case (st_deliver m f seq d e' x r)
    with stream_net [OF run_snoc.hyps(1)]
    have "unat seq < length (sent_chunks es) \<and> d = sent_chunks es ! unat seq"
      using frames_decode [OF _ st_deliver(4,5) len] by blast
    with st_deliver old show ?thesis by auto
  next
    case (st_internal e' r)
    with old show ?thesis by (cases e') auto
  qed (use old in auto)
qed

lemma stream_rb_inv:
  assumes "run stream_step (NewStream topic) es s" and "length (sent_chunks es) < 2 ^ 32"
  shows "rb_inv ReorderBufSize (nth_chunk es) (length (sent_chunks es)) (rb_events es) (stReorder s)"
  using rb_run_inv [OF stream_reorder_run [OF assms(1)] stream_frames_ok [OF assms] assms(2)] .

section \<open>Integrity\<close>

lemma map_nth_take: "k \<le> length xs \<Longrightarrow> map (\<lambda>i. xs ! i) [0..<k] = take k xs"
  by (rule nth_equalityI) auto


lemma stream_got:
  assumes "run stream_step (NewStream topic) es s" and "length (sent_chunks es) < 2 ^ 32"
    and "\<not> rbClosed (fst (stReorder s))"
  shows "got es = take (length (got es)) (sent_chunks es)"
proof -
  obtain rb th where c: "stReorder s = (rb, th)" by (cases "stReorder s")
  have r: "run rb_step (NewReorderBuffer ReorderBufSize, Idle) (rb_events es) (rb, th)"
    using stream_reorder_run [OF assms(1)] c by simp
  have open_rb: "\<not> rbClosed rb" using assms(3) c by simp
  note ord = rb_in_order [OF r stream_frames_ok [OF assms(1,2)] assms(2) open_rb]
  have "unat (rbNextSeq rb) \<le> length (sent_chunks es)"
    using stream_rb_inv [OF assms(1,2)] c by (simp add: rb_inv_def rb_window_def)
  with ord(2) have le: "length (got es) \<le> length (sent_chunks es)" by simp
  have "map (nth_chunk es) [0..<length (got es)] = take (length (got es)) (sent_chunks es)"
    using le by (rule map_nth_take)
  with ord(1) show ?thesis by simp
qed

lemma stream_prefix:
  assumes "run stream_step (NewStream topic) es s" and "length (sent_chunks es) < 2 ^ 32"
    and "\<not> rbClosed (fst (stReorder s))"
  shows "\<exists>rest. written (wr_events es) = concat (got es) @ rest"
proof -
  obtain d where d: "written (wr_events es) = concat (sent_chunks es) @ d"
    using stream_wr_inv [OF assms(1)]
    by (auto simp: wr_inv_def wr_stream_inv_def split: option.splits prod.splits)
  have "concat (sent_chunks es) = concat (got es) @ concat (drop (length (got es)) (sent_chunks es))"
    using stream_got [OF assms] by (metis append_take_drop_id concat_append)
  with d show ?thesis by simp
qed

section \<open>Flow control\<close>

lemma chunk_bytes_take: "chunk_bytes (take k cs) \<le> chunk_bytes cs"
  by (metis append_take_drop_id chunk_bytes_simps(2) le_add1)

lemma chunk_bytes_bound: "\<forall>c \<in> set cs. length c \<le> k \<Longrightarrow> chunk_bytes cs \<le> length cs * k"
  by (induction cs) (auto simp: chunk_bytes_def)

lemma sent_bytes_bound:
  assumes "run stream_step (NewStream topic) es s" and "length (sent_chunks es) < 2 ^ 32"
  shows "chunk_bytes (sent_chunks es) < 2 ^ 64"
proof -
  have "\<forall>c \<in> set (sent_chunks es). length c \<le> MaxPayloadSize"
    using stream_wr_inv [OF assms(1)] by (auto simp: wr_inv_def wr_stream_inv_def)
  then have "chunk_bytes (sent_chunks es) \<le> length (sent_chunks es) * MaxPayloadSize"
    by (rule chunk_bytes_bound)
  also have "\<dots> \<le> 2 ^ 32 * 65536"
    using assms(2) by (simp add: MaxPayloadSize_def)
  finally show ?thesis by simp
qed

lemma fcAcked_local: "wr_step c e c' \<Longrightarrow> (\<And>a. e \<noteq> AckArrives a) \<Longrightarrow>
    fcAcked (swFc (fst c')) = fcAcked (swFc (fst c))"
  by (cases rule: wr_step.cases) (auto simp: Write_frame_def AddSent_def)

text \<open>What is acknowledged has been consumed.\<close>

definition ack_flow_inv :: "stream_event list \<Rightarrow> stream \<Rightarrow> bool" where
  "ack_flow_inv es s \<longleftrightarrow> (chunk_bytes (got es) < 2 ^ 64 \<longrightarrow>
     ack_inv (chunk_bytes (got es)) (stAckState s) \<and>
     (\<forall>a \<in> stAcks s. unat a \<le> chunk_bytes (got es)) \<and>
     unat (fcAcked (swFc (fst (stWriter s)))) \<le> chunk_bytes (got es))"

lemma ack_flow_step:
  assumes "ack_flow_inv es s" and "stream_step s e t"
  shows "ack_flow_inv (es @ [e]) t"
  using assms(2)
proof (cases rule: stream_step.cases)
  case (st_write e' w)
  then have "fcAcked (swFc (fst w)) = fcAcked (swFc (fst (stWriter s)))"
    by (intro fcAcked_local) auto
  with st_write assms(1) show ?thesis by (simp add: ack_flow_inv_def)
next
  case (st_publish m w)
  then have "fcAcked (swFc (fst w)) = fcAcked (swFc (fst (stWriter s)))"
    by (intro fcAcked_local) auto
  with st_publish assms(1) show ?thesis by (simp add: ack_flow_inv_def)
next
  case (st_ack a w)
  then have "swFc (fst w) = UpdateAck a (swFc (fst (stWriter s)))"
    by (auto elim: wr_ackE)
  with st_ack assms(1) show ?thesis
    by (auto simp: ack_flow_inv_def fcAcked_UpdateAck max_def min_def word_le_nat_alt)
next
  case st_deliver
  then show ?thesis using assms(1) by (auto simp: ack_flow_inv_def)
next
  case (st_internal e' r)
  then show ?thesis using assms(1) by (cases e') (auto simp: ack_flow_inv_def)
next
  case (st_consume p r a ack)
  show ?thesis
  proof (cases "chunk_bytes (got es) + length p < 2 ^ 64")
    case True
    with assms(1) have inv: "ack_inv (chunk_bytes (got es)) (stAckState s)"
      by (simp add: ack_flow_inv_def)
    note rec = ack_inv_record [OF inv st_consume(4) True]
    with True assms(1) st_consume show ?thesis
      by (cases ack) (auto simp: ack_flow_inv_def)
  next
    case False
    with st_consume show ?thesis by (simp add: ack_flow_inv_def)
  qed
qed

interpretation ack_history: history_invariant stream_step "NewStream topic" "\<lambda>_. True" ack_flow_inv for topic
proof unfold_locales
  show "ack_flow_inv [] (NewStream topic)"
    by (simp add: ack_flow_inv_def NewStream_def ack_inv_New NewSequenceWriter_def NewFlowControl_def)
qed (rule ack_flow_step)

lemma stream_credit:
  assumes "run stream_step (NewStream topic) es s" and "length (sent_chunks es) < 2 ^ 32"
    and "\<not> rbClosed (fst (stReorder s))"
  shows "chunk_bytes (sent_chunks es) \<le> chunk_bytes (got es) + 262144"
    and "ack_inv (chunk_bytes (got es)) (stAckState s)"
    and "fc_ok (swFc (fst (stWriter s)))"
    and "unat (fcSent (swFc (fst (stWriter s)))) = chunk_bytes (sent_chunks es)"
proof -
  have small: "chunk_bytes (sent_chunks es) < 2 ^ 64" by (rule sent_bytes_bound [OF assms(1,2)])
  have "chunk_bytes (got es) \<le> chunk_bytes (sent_chunks es)"
    using stream_got [OF assms] chunk_bytes_take by metis
  with small have "chunk_bytes (got es) < 2 ^ 64" by simp
  then have acks: "ack_inv (chunk_bytes (got es)) (stAckState s)"
      "unat (fcAcked (swFc (fst (stWriter s)))) \<le> chunk_bytes (got es)"
    using ack_history.run_inv [OF assms(1)] by (simp_all add: ack_flow_inv_def)
  have fc: "fc_ok (swFc (fst (stWriter s)))"
    "unat (fcSent (swFc (fst (stWriter s)))) = chunk_bytes (sent_chunks es)"
    using stream_wr_inv [OF assms(1)] small by (auto simp: wr_inv_def wr_credit_inv_def split: prod.splits)
  then have "chunk_bytes (sent_chunks es) \<le> unat (fcAcked (swFc (fst (stWriter s)))) + 262144"
    by (auto simp: fc_ok_def fc_inv_unat)
  with acks(2) show "chunk_bytes (sent_chunks es) \<le> chunk_bytes (got es) + 262144" by simp
  show "ack_inv (chunk_bytes (got es)) (stAckState s)" by (rule acks(1))
  show "fc_ok (swFc (fst (stWriter s)))" by (rule fc(1))
  show "unat (fcSent (swFc (fst (stWriter s)))) = chunk_bytes (sent_chunks es)" by (rule fc(2))
qed

text \<open>
  When everything sent has been consumed and the last acknowledgement has arrived, the window
  admits the next chunk, and a writer that is parked holds the token that wakes it.
\<close>

lemma stream_no_stall:
  assumes "run stream_step (NewStream topic) es s" and "length (sent_chunks es) < 2 ^ 32"
    and "\<not> rbClosed (fst (stReorder s))" and "chunk_bytes (got es) = chunk_bytes (sent_chunks es)"
    and "asLast (stAckState s) \<le> fcAcked (swFc (fst (stWriter s)))"
  shows "chunk_credit d (fst (stWriter s))"
    and "snd (stWriter s) = WSelect d \<Longrightarrow> \<exists>t. stream_step s (OfWriter Wakes) t \<and> snd (stWriter t) = WCheck d"
proof -
  let ?fc = "swFc (fst (stWriter s))"
  note cr = stream_credit [OF assms(1-3)]
  have "unat (fcSent ?fc) < unat (asLast (stAckState s)) + 65536"
    using cr(2,4) assms(4) by (simp add: ack_inv_def)
  then have "fc_used ?fc < 65536"
    using assms(5) by (simp add: fc_used_def word_le_nat_alt)
  moreover have "fcWindow ?fc = FlowControlWindow" using cr(3) by (simp add: fc_ok_def)
  ultimately show credit: "chunk_credit d (fst (stWriter s))"
    using fc_window.can_used [OF cr(3) length_next_chunk [of d]] length_next_chunk [of d]
    by (simp add: chunk_credit_def MaxPayloadSize_def)
  assume parked: "snd (stWriter s) = WSelect d"
  obtain sw th where w: "stWriter s = (sw, th)" by (cases "stWriter s")
  have "fcNotify (swFc sw)"
    using stream_wr_inv [OF assms(1)] parked credit w by (auto simp: wr_inv_def wr_wake_inv_def)
  then have "wr_step (stWriter s) Wakes (sw\<lparr>swFc := (swFc sw)\<lparr>fcNotify := False\<rparr>\<rparr>, WCheck d)"
    using w parked by (auto intro: wr_wake)
  then have "stream_step s (OfWriter Wakes)
      (s\<lparr>stWriter := (sw\<lparr>swFc := (swFc sw)\<lparr>fcNotify := False\<rparr>\<rparr>, WCheck d)\<rparr>)"
    by (rule st_write) simp
  then show "\<exists>t. stream_step s (OfWriter Wakes) t \<and> snd (stWriter t) = WCheck d"
    by (intro exI conjI) (assumption, simp)
qed

section \<open>Main properties\<close>

text \<open>A run used as an example: a write of two bytes crosses; the next write is still going on.\<close>

definition example_events :: "stream_event list" where
  "example_events = [OfWriter (WriteCall [1, 2]), OfWriter (Numbers [1, 2]),
     OfWriter (Publishes (data_pub ''t'' (EncodeDataFrame 0 [1, 2]))), OfReorder (InsertStores 0 [1, 2]),
     OfReorder (Pops [1, 2]), OfReorder (Sends [1, 2]), OfReorder (Receives [1, 2]),
     OfWriter WriteReturns, OfWriter (WriteCall [3])]"

lemma example_run: "\<exists>s. run stream_step (NewStream ''t'') example_events s \<and> \<not> rbClosed (fst (stReorder s))
    \<and> snd (stWriter s) = WCheck [3] \<and> swFc (fst (stWriter s)) = \<lparr>fcSent = 2, fcAcked = 0, fcWindow = FlowControlWindow, fcNotify = False\<rparr>
    \<and> asLast (stAckState s) = 0"
proof -
  define m where "m = data_pub ''t'' (EncodeDataFrame 0 [1, 2])"
  define fc where "fc = \<lparr>fcSent = 2, fcAcked = 0, fcWindow = FlowControlWindow, fcNotify = False\<rparr>"
  define sw where "sw = \<lparr>swSeq = 1, swTopic = ''t'', swFc = fc\<rparr>"
  define rb where "rb = NewReorderBuffer ReorderBufSize"
  define s1 where "s1 = (NewStream ''t'')\<lparr>stWriter := (fst (fresh_writer ''t''), WCheck [1, 2])\<rparr>"
  define s2 where "s2 = s1\<lparr>stWriter := (sw, WPublish m [])\<rparr>"
  define s3 where "s3 = s2\<lparr>stWriter := (sw, WCheck []), stNet := {m}\<rparr>"
  define s4 where "s4 = s3\<lparr>stReorder := (rb\<lparr>rbBuf := [(0, [1, 2])]\<rparr>, AtLoop)\<rparr>"
  define s5 where "s5 = s4\<lparr>stReorder := (rb\<lparr>rbNextSeq := 1\<rparr>, AtSend [1, 2])\<rparr>"
  define s6 where "s6 = s5\<lparr>stReorder := (rb\<lparr>rbNextSeq := 1, rbDataCh := [[1, 2]]\<rparr>, AtLoop)\<rparr>"
  define s7 where "s7 = s6\<lparr>stReorder := (rb\<lparr>rbNextSeq := 1\<rparr>, AtLoop), stAckState := newSessionAckState\<lparr>asTotal := 2\<rparr>\<rparr>"
  define s8 where "s8 = s7\<lparr>stWriter := (sw, WIdle)\<rparr>"
  define s9 where "s9 = s8\<lparr>stWriter := (sw, WCheck [3])\<rparr>"
  note defs = s1_def s2_def s3_def s4_def s5_def s6_def s7_def s8_def s9_def NewStream_def rb_def m_def sw_def fc_def
    NewReorderBuffer_def
  have frame: "Write_frame [1, 2] (fst (fresh_writer ''t'')) = (sw, m)"
    by (simp add: Write_frame_def NewSequenceWriter_def NewFlowControl_def AddSent_def sw_def fc_def m_def)
  have chunk: "next_chunk [1, 2] = ([1, 2] :: byte list)" "chunk_credit [1, 2] (fst (fresh_writer ''t''))"
    by (simp_all add: next_chunk_def MaxPayloadSize_def chunk_credit_def NewSequenceWriter_def NewFlowControl_def
        CanSend_def outstanding_def FlowControlWindow_def)
  have e1: "stream_step (NewStream ''t'') (OfWriter (WriteCall [1, 2])) s1"
    unfolding s1_def by (rule st_write) (simp_all add: NewStream_def wr_step_simps)
  have e2: "stream_step s1 (OfWriter (Numbers [1, 2])) s2"
    unfolding s2_def using wr_number [of "[1, 2]" "fst (fresh_writer ''t'')" sw m] frame chunk
    by (intro st_write) (simp_all add: s1_def)
  have e3: "stream_step s2 (OfWriter (Publishes m)) s3"
    using st_publish [of s2 m "(sw, WCheck [])"] by (simp add: s2_def s3_def s1_def NewStream_def wr_publish)
  have e4: "stream_step s3 (OfReorder (InsertStores 0 [1, 2])) s4"
    unfolding s4_def
  proof (rule st_deliver [where m = m and f = "EncodeDataFrame 0 [1, 2]" and seq = 0 and d = "[1, 2]"])
    show "rb_step (stReorder s3) (InsertStores 0 [1, 2]) (rb\<lparr>rbBuf := [(0, [1, 2])]\<rparr>, AtLoop)"
      by (simp add: defs rb_step_simps Insert_enter_def ReorderBufSize_def)
  qed (simp_all add: s3_def m_def data_pub_def DecodeDataFrame_Encode)
  have e5: "stream_step s4 (OfReorder (Pops [1, 2])) s5"
    unfolding s5_def by (rule st_internal) (simp_all add: defs rb_step_simps Insert_pop_def)
  have e6: "stream_step s5 (OfReorder (Sends [1, 2])) s6"
    unfolding s6_def
    by (rule st_internal) (simp_all add: defs rb_step_simps Insert_send_def DataCh_ready_def ReorderBufSize_def)
  have e7: "stream_step s6 (OfReorder (Receives [1, 2])) s7"
    using st_consume [of s6 "[1, 2]" "(rb\<lparr>rbNextSeq := 1\<rparr>, AtLoop)" "newSessionAckState\<lparr>asTotal := 2\<rparr>" None]
    by (simp add: defs rb_step_simps ackState_record_def newSessionAckState_def FlowControlWindow_def)
  have e8: "stream_step s7 (OfWriter WriteReturns) s8"
    unfolding s8_def by (rule st_write) (simp_all add: defs wr_step_simps)
  have e9: "stream_step s8 (OfWriter (WriteCall [3])) s9"
    unfolding s9_def by (rule st_write) (simp_all add: defs wr_step_simps)
  have "run stream_step (NewStream ''t'') example_events s9"
    unfolding example_events_def m_def [symmetric]
    by (rule run_cons [of stream_step, OF e1], rule run_cons [of stream_step, OF e2], rule run_cons [of stream_step, OF e3], rule run_cons [of stream_step, OF e4],
        rule run_cons [of stream_step, OF e5], rule run_cons [of stream_step, OF e6], rule run_cons [of stream_step, OF e7], rule run_cons [of stream_step, OF e8],
        rule run_single [of stream_step, OF e9])
  moreover have "\<not> rbClosed (fst (stReorder s9)) \<and> snd (stWriter s9) = WCheck [3]
      \<and> swFc (fst (stWriter s9)) = fc \<and> asLast (stAckState s9) = 0"
    by (simp add: defs newSessionAckState_def)
  ultimately show ?thesis unfolding fc_def by blast
qed

text \<open>C6. What a consumer takes out of a session's reorder buffer is a prefix of the bytes handed to the sequence writer at the other end, whatever frames the broker duplicates, reorders or never delivers, as long as the stream has fewer than \<open>2 ^ 32\<close> frames and the buffer is open.\<close>

theorem stream_in_order:
  assumes "run stream_step (NewStream topic) es s" and "length (sent_chunks es) < 2 ^ 32"
    and "\<not> rbClosed (fst (stReorder s))"
  shows "\<exists>rest. written (wr_events es) = concat (got es) @ rest"
  using assms by (rule stream_prefix)

theorem stream_in_order_witness:
  "written (wr_events example_events) = concat (got example_events) @ [3] \<and> got example_events = [[1, 2]]
   \<and> (\<exists>rest. written (wr_events example_events) = concat (got example_events) @ rest)"
proof -
  obtain s where s: "run stream_step (NewStream ''t'') example_events s" "\<not> rbClosed (fst (stReorder s))"
    using example_run by blast
  from stream_in_order [OF s(1) _ s(2)] show ?thesis by (simp add: example_events_def)
qed

text \<open>C7. Never are more than 262144 bytes of payload under way: numbered by the writer and not taken by the consumer.\<close>

theorem stream_window:
  assumes "run stream_step (NewStream topic) es s" and "length (sent_chunks es) < 2 ^ 32"
    and "\<not> rbClosed (fst (stReorder s))"
  shows "chunk_bytes (sent_chunks es) \<le> chunk_bytes (got es) + unat FlowControlWindow"
  using stream_credit(1) [OF assms] by simp

theorem stream_window_witness:
  "chunk_bytes (sent_chunks example_events) \<le> chunk_bytes (got example_events) + 262144"
proof -
  obtain s where s: "run stream_step (NewStream ''t'') example_events s" "\<not> rbClosed (fst (stReorder s))"
    using example_run by blast
  from stream_window [OF s(1) _ s(2)] show ?thesis by (simp add: example_events_def)
qed

text \<open>C8. The acknowledgements, one per quarter of a window, are enough: once all that was sent has been consumed and the last acknowledgement has arrived, the window admits the next chunk, and a writer that is parked can wake.\<close>

theorem stream_progress:
  assumes "run stream_step (NewStream topic) es s" and "length (sent_chunks es) < 2 ^ 32"
    and "\<not> rbClosed (fst (stReorder s))" and "chunk_bytes (got es) = chunk_bytes (sent_chunks es)"
    and "asLast (stAckState s) \<le> fcAcked (swFc (fst (stWriter s)))"
  shows "chunk_credit d (fst (stWriter s)) \<and>
    (snd (stWriter s) = WSelect d \<longrightarrow> (\<exists>t. stream_step s (OfWriter Wakes) t \<and> snd (stWriter t) = WCheck d))"
  using stream_no_stall [OF assms] by blast

theorem stream_progress_witness:
  "\<exists>s. run stream_step (NewStream ''t'') example_events s \<and> chunk_credit [3] (fst (stWriter s))"
proof -
  obtain s where s: "run stream_step (NewStream ''t'') example_events s" "\<not> rbClosed (fst (stReorder s))"
    "swFc (fst (stWriter s)) = \<lparr>fcSent = 2, fcAcked = 0, fcWindow = FlowControlWindow, fcNotify = False\<rparr>"
    "asLast (stAckState s) = 0"
    using example_run by blast
  have "chunk_credit [3] (fst (stWriter s))"
    using stream_progress [OF s(1) _ s(2), of "[3]"] s(3,4) by (simp add: example_events_def)
  with s(1) show ?thesis by blast
qed

end
