(* ===== verification/Tunnel.thy ===== *)
theory Tunnel
  imports Stream Delivery Node
begin

text \<open>
  One direction of a tunnel through the handlers of a peer: a writer publishes frames, the broker
  delivers what it likes of them, the peer handles them among everything else that reaches it, and
  the goroutine of the session takes the payloads. This joins \<open>Writer\<close> and \<open>Delivery\<close>; what it needs of
  a peer is the locale \<open>tunnel_peer\<close>, which the device and the client provide.
\<close>

section \<open>A peer with a consumer\<close>

text \<open>What happens to a peer whose session at \<open>r\<close> has a consumer, and what that consumer took.\<close>

datatype 'e feed = Net 'e | Consume

definition consume :: "nat \<Rightarrow> 'a node_scheme \<Rightarrow> 'a node_scheme \<times> byte list list" where
  "consume r d = (case ndHeap d r of
     None \<Rightarrow> (d, [])
   | Some s \<Rightarrow> (case session_take s of
       (s', None) \<Rightarrow> (d, [])
     | (s', Some p) \<Rightarrow> (update_ref r (\<lambda>_. s') d, [p])))"

fun feed_peer :: "('e \<Rightarrow> 'a node_scheme \<Rightarrow> 'a node_scheme) \<Rightarrow> nat \<Rightarrow> 'e feed list \<Rightarrow> 'a node_scheme
    \<Rightarrow> 'a node_scheme \<times> byte list list" where
  "feed_peer h r [] d = (d, [])"
| "feed_peer h r (Net e # es) d = feed_peer h r es (h e d)"
| "feed_peer h r (Consume # es) d =
     (case consume r d of (d1, out) \<Rightarrow> (case feed_peer h r es d1 of (d2, outs) \<Rightarrow> (d2, out @ outs)))"

text \<open>The frame a data message brings for the session with the id \<open>i\<close>.\<close>

definition data_frame :: "string \<Rightarrow> string \<times> byte list \<Rightarrow> (u32 \<times> byte list) option" where
  "data_frame i m = (case m of (t, f) \<Rightarrow> (case ParseTopic t of
     Inl e \<Rightarrow> None
   | Inr parsed \<Rightarrow> if ptSessionID parsed = i then (case DecodeDataFrame f of Inl e \<Rightarrow> None | Inr x \<Rightarrow> Some x) else None))"

definition frame_for :: "('e \<Rightarrow> (string \<times> byte list) option) \<Rightarrow> string \<Rightarrow> 'e \<Rightarrow> (u32 \<times> byte list) option" where
  "frame_for dl i e = (case dl e of None \<Rightarrow> None | Some m \<Rightarrow> data_frame i m)"

fun feed_frames :: "('e \<Rightarrow> (string \<times> byte list) option) \<Rightarrow> string \<Rightarrow> 'e feed list \<Rightarrow> (u32 \<times> byte list) list" where
  "feed_frames dl i [] = []"
| "feed_frames dl i (Net e # es) = (case frame_for dl i e of None \<Rightarrow> [] | Some f \<Rightarrow> [f]) @ feed_frames dl i es"
| "feed_frames dl i (Consume # es) = feed_frames dl i es"

text \<open>Every event, when it happens, is one that leaves the session open: \<open>lo\<close> says which ones do.\<close>

fun stays_open :: "('e \<Rightarrow> 'a node_scheme \<Rightarrow> 'a node_scheme) \<Rightarrow> ('e \<Rightarrow> 'a node_scheme \<Rightarrow> bool) \<Rightarrow> nat
    \<Rightarrow> 'e feed list \<Rightarrow> 'a node_scheme \<Rightarrow> bool" where
  "stays_open h lo r [] d = True"
| "stays_open h lo r (Net e # es) d = (lo e d \<and> stays_open h lo r es (h e d))"
| "stays_open h lo r (Consume # es) d = stays_open h lo r es (fst (consume r d))"

text \<open>A session object left over from an earlier life of the id, whose end would take the entry away.\<close>

definition may_release :: "string \<Rightarrow> nat \<Rightarrow> 'a node_scheme \<Rightarrow> bool" where
  "may_release i q d \<longleftrightarrow> (case ndHeap d q of None \<Rightarrow> False | Some s \<Rightarrow> ssId s = i \<and> ssHook s \<and> \<not> ssClosed s)"

text \<open>
  The work of a session's own goroutines: they do not change what the session is, keep away from
  the buffer of the session at \<open>r\<close>, and do not end it.
\<close>

definition minds_own :: "string \<Rightarrow> nat \<Rightarrow> nat \<Rightarrow> (session \<Rightarrow> session) \<Rightarrow> bool \<Rightarrow> 'a node_scheme \<Rightarrow> bool" where
  "minds_own i r q f ends d \<longleftrightarrow>
     (\<forall>s. ssId (f s) = ssId s \<and> ssHook (f s) = ssHook s \<and> ssClosed (f s) = ssClosed s)
     \<and> (ends \<longrightarrow> q \<noteq> r \<and> \<not> may_release i q d)
     \<and> (q = r \<longrightarrow> (\<forall>s. ssReorder (f s) = ssReorder s \<and> ssQueue (f s) = ssQueue s))"

section \<open>The session under the other events\<close>

text \<open>The session is registered, and its receiving side is that of \<open>s\<close>.\<close>

definition receiving :: "string \<Rightarrow> nat \<Rightarrow> session \<Rightarrow> 'a node_scheme \<Rightarrow> bool" where
  "receiving i r s d \<longleftrightarrow> node_inv d \<and> smSessions (ndManager d) i = Some r \<and>
     (\<exists>s'. ndHeap d r = Some s' \<and> ssReorder s' = ssReorder s \<and> ssQueue s' = ssQueue s)"

lemma receivingI:
  "node_inv d \<Longrightarrow> smSessions (ndManager d) i = Some r \<Longrightarrow> ndHeap d r = Some s' \<Longrightarrow> ssReorder s' = ssReorder s \<Longrightarrow>
     ssQueue s' = ssQueue s \<Longrightarrow> receiving i r s d"
  by (simp add: receiving_def)

lemma receiving_emit [simp]: "receiving i r s (emit ms d) \<longleftrightarrow> receiving i r s d"
  by (simp add: receiving_def node_simps)

lemma receiving_touch: "receiving i r s d \<Longrightarrow> receiving i r s (mgr_touch t j d)"
  by (simp add: receiving_def node_simps node_inv_touch)

lemma receiving_cong:
  "ndHeap d' = ndHeap d \<Longrightarrow> ndManager d' = ndManager d \<Longrightarrow> ndNext d' = ndNext d \<Longrightarrow>
     receiving i r s d' \<longleftrightarrow> receiving i r s d"
  using node_inv_cong [of d' d] by (simp add: receiving_def)

lemma receiving_update:
  assumes "receiving i r s d" and "\<And>x. ssId (f x) = ssId x"
    and "q = r \<Longrightarrow> (\<And>x. ssReorder (f x) = ssReorder x \<and> ssQueue (f x) = ssQueue x)"
  shows "receiving i r s (update_ref q f d)"
  using assms node_inv_update_ref [of d f q] by (auto simp: receiving_def node_simps)

lemma receiving_close_other:
  assumes "receiving i r s d" and "q \<noteq> r" and "\<not> may_release i q d"
  shows "receiving i r s (close_ref q d)"
proof -
  have "smSessions (ndManager (close_ref q d)) i = smSessions (ndManager d) i"
    using assms(3) by (auto simp: node_simps may_release_def split: option.split)
  with assms(1,2) node_inv_close_ref [of d q] show ?thesis
    by (auto simp: receiving_def node_simps)
qed

lemma receiving_remove_other: "receiving i r s d \<Longrightarrow> j \<noteq> i \<Longrightarrow> receiving i r s (mgr_remove j d)"
  using node_inv_remove [of d j] by (auto simp: receiving_def node_simps)

lemma receiving_cleanup:
  assumes "receiving i r s d" and "enumerates order (stale_refs now d)"
    and "\<not> is_stale now (StaleTimeout * Second) (ndManager d) i"
  shows "receiving i r s (node_cleanup now order d)"
proof -
  obtain s' where s': "node_inv d" "smSessions (ndManager d) i = Some r" "ndHeap d r = Some s'"
      "ssReorder s' = ssReorder s" "ssQueue s' = ssQueue s"
    using assms(1) by (auto simp: receiving_def)
  note spec = node_cleanup_spec [OF s'(1) assms(2)]
  have "\<not> (\<exists>j. is_stale now (StaleTimeout * Second) (ndManager d) j \<and> smSessions (ndManager d) j = Some r)"
    using node_inv_inj [OF s'(1) s'(2)] assms(3) by blast
  then have "ndHeap (node_cleanup now order d) r = Some s'" using spec(2) [of r] s'(3) by (simp only: if_False)
  moreover have "smSessions (ndManager (node_cleanup now order d)) i = Some r" using spec(1) [of i] assms(3) s'(2) by simp
  ultimately show ?thesis using node_inv_cleanup [OF s'(1)] s' by (auto intro: receivingI)
qed

lemma receiving_work:
  assumes "receiving i r s d" and "minds_own i r q f ends d"
  shows "receiving i r s (let d1 = emit ms (update_ref q f d) in if ends then close_ref q d1 else d1)"
proof -
  have "may_release i q (emit ms (update_ref q f d)) = may_release i q d"
    using assms(2) by (auto simp: may_release_def node_simps minds_own_def split: option.split)
  with assms show ?thesis
    by (auto simp: Let_def minds_own_def intro!: receiving_close_other receiving_update)
qed

text \<open>A new session is put into the table under another id.\<close>

lemma receiving_add:
  assumes "receiving i r s d" and "alloc x d = (q, d1)" and "Add now (ssId x) q (ndManager d1) = Inr m"
  shows "receiving i r s (d1\<lparr>ndManager := m\<rparr>)" and "q \<noteq> r" and "ssId x \<noteq> i"
proof -
  have inv: "node_inv d" "smSessions (ndManager d) i = Some r" using assms(1) by (simp_all add: receiving_def)
  note al = node_inv_alloc [OF inv(1) assms(2)]
  show q: "q \<noteq> r" using assms(1) al(6) by (auto simp: receiving_def)
  show i: "ssId x \<noteq> i" using assms(3) inv(2) al(2) by (auto simp: Add_def split: if_splits)
  show "receiving i r s (d1\<lparr>ndManager := m\<rparr>)"
    using assms(1) al smSessions_Add [OF assms(3)] q i node_inv_alloc_add [OF inv(1) assms(2,3)]
    by (auto simp: receiving_def)
qed

lemma receiving_alloc:
  assumes "receiving i r s d" and "alloc x d = (q, d1)"
  shows "receiving i r s d1" and "q \<noteq> r"
proof -
  note al = node_inv_alloc [OF _ assms(2)]
  show "q \<noteq> r" using assms(1) al(6) by (auto simp: receiving_def)
  with assms(1) al show "receiving i r s d1" by (auto simp: receiving_def)
qed

section \<open>The session under its own events\<close>

lemma node_inv_replace:
  "node_inv d \<Longrightarrow> ndHeap d r = Some s \<Longrightarrow> ssId s' = ssId s \<Longrightarrow> node_inv (update_ref r (\<lambda>_. s') d)"
  unfolding node_inv_def by (auto simp: node_simps) fastforce

text \<open>The session is registered, and its buffer is that of a run on frames of one stream.\<close>

definition serving :: "(nat \<Rightarrow> byte list) \<Rightarrow> nat \<Rightarrow> bool \<Rightarrow> nat set \<Rightarrow> string \<Rightarrow> nat \<Rightarrow> 'a node_scheme \<Rightarrow> byte list list \<Rightarrow> bool" where
  "serving pl N b A i r d taken \<longleftrightarrow> (\<exists>s. receiving i r s d \<and> session_inv pl N ReorderBufSize b A s taken)"

lemma serving_replace:
  assumes "receiving i r s d" and "session_inv pl N sz b A s taken"
  obtains s' where "ndHeap d r = Some s'" and "session_inv pl N sz b A s' taken"
  using assms by (auto simp: receiving_def intro: session_inv_cong)

lemma serving_arrive:
  assumes sv: "serving pl N b A i r d taken" and g: "genuine pl N (seq, p)" and N: "N < 2 ^ 32"
    and near: "b \<Longrightarrow> {0..<Suc (unat seq) - ReorderBufSize} \<subseteq> A"
  shows "serving pl N b (insert (unat seq) A) i r (update_ref r (HandleData seq p) (mgr_touch now i d)) taken"
proof -
  let ?d = "update_ref r (HandleData seq p) (mgr_touch now i d)"
  obtain s0 where s0: "receiving i r s0 d" "session_inv pl N ReorderBufSize b A s0 taken"
    using sv by (auto simp: serving_def)
  then obtain s where s: "ndHeap d r = Some s" "session_inv pl N ReorderBufSize b A s taken"
    by (rule serving_replace)
  have "ssId (HandleData seq p x) = ssId x" for x
    by (simp add: HandleData_def split: prod.split insert_thread.split)
  then have "receiving i r (HandleData seq p s) ?d"
    using s0(1) s(1) node_inv_update_ref [OF node_inv_touch, of d "HandleData seq p" r now i]
    by (auto simp: receiving_def node_simps)
  moreover have "session_inv pl N ReorderBufSize b (insert (unat seq) A) (HandleData seq p s) taken"
    by (rule session_inv_arrive [OF s(2) g N near])
  ultimately show ?thesis unfolding serving_def by blast
qed

lemma serving_consume:
  assumes sv: "serving pl N b A i r d taken" and N: "N < 2 ^ 32" and c: "consume r d = (d', out)"
  shows "serving pl N b A i r d' (taken @ out)"
proof -
  obtain s0 where s0: "receiving i r s0 d" "session_inv pl N ReorderBufSize b A s0 taken"
    using sv by (auto simp: serving_def)
  then obtain s where s: "ndHeap d r = Some s" "session_inv pl N ReorderBufSize b A s taken"
    by (rule serving_replace)
  obtain s' x where t: "session_take s = (s', x)" by (cases "session_take s")
  show ?thesis
  proof (cases x)
    case None
    with c t s(1) sv show ?thesis by (simp add: consume_def)
  next
    case (Some p)
    then have d': "d' = update_ref r (\<lambda>_. s') d" "out = [p]" using c t s(1) by (simp_all add: consume_def)
    have "ssId s' = ssId s" using t by (auto simp: session_take_def split: prod.splits list.splits)
    then have "receiving i r s' d'"
      using s0(1) s(1) node_inv_replace [of d r s s'] unfolding d' by (auto simp: receiving_def node_simps)
    with session_inv_take [OF s(2) N, of s' p] t Some d' show ?thesis unfolding serving_def by blast
  qed
qed

lemma serving_prefix:
  assumes sv: "serving pl N b A i r d taken" and N: "N < 2 ^ 32"
  shows "taken = map pl [0..<length taken]"
  using sv delivered_prefix [OF _ N] unfolding serving_def by blast

lemma serving_all:
  assumes sv: "serving pl N True A i r d taken" and N: "N < 2 ^ 32"
    and empty: "\<And>s. ndHeap d r = Some s \<Longrightarrow> rbDataCh (fst (ssReorder s)) = []" and m: "{0..<m} \<subseteq> A"
  shows "take m taken = map pl [0..<m]"
proof -
  obtain s where s: "receiving i r s d" "session_inv pl N ReorderBufSize True A s taken"
    using sv by (auto simp: serving_def)
  then have "rbDataCh (fst (ssReorder s)) = []" using empty by (auto simp: receiving_def)
  with delivered_all [OF s(2) N _ _ m] show ?thesis by (simp add: ReorderBufSize_def)
qed

lemma serving_count: "serving pl N b A i r d taken \<Longrightarrow> N < 2 ^ 32 \<Longrightarrow> length taken \<le> N"
  using delivered_count unfolding serving_def by blast

section \<open>From the writer to the consumer\<close>

text \<open>
  What the broker brings: data frames come on the topics \<open>tp\<close> of the peer's subscription, and those on
  the topic of session \<open>i\<close> are frames its one writer published, in any order, any number of times.
\<close>

definition from_writer :: "('e \<Rightarrow> (string \<times> byte list) option) \<Rightarrow> (string \<Rightarrow> string) \<Rightarrow> string \<Rightarrow> wr_event list
    \<Rightarrow> 'e feed list \<Rightarrow> bool" where
  "from_writer dl tp i wes evs \<longleftrightarrow> (\<forall>e t frame. Net e \<in> set evs \<longrightarrow> dl e = Some (t, frame) \<longrightarrow>
     (\<exists>j. level j \<and> t = tp j)
     \<and> (t = tp i \<longrightarrow> (\<exists>m. Publishes m \<in> set wes \<and> pmPayload m = PData frame)))"

definition data_topics :: "(string \<Rightarrow> string) \<Rightarrow> bool" where
  "data_topics tp \<longleftrightarrow> (\<forall>j. level j \<longrightarrow> (\<exists>p. ParseTopic (tp j) = Inr p \<and> ptSessionID p = j))"

lemma data_topics_of: "level dev \<Longrightarrow> data_topics (InDataTopic dev)" "level dev \<Longrightarrow> data_topics (OutDataTopic dev)"
  using ParseTopic_data [of dev _ topicIn] ParseTopic_data [of dev _ topicOut]
  by (auto simp: data_topics_def InDataTopic_def OutDataTopic_def data_topic_parts_def)

lemma data_frame_on: "data_topics tp \<Longrightarrow> level j \<Longrightarrow> data_frame i (tp j, f) =
    (if j = i then case DecodeDataFrame f of Inl e \<Rightarrow> None | Inr x \<Rightarrow> Some x else None)"
  by (auto simp: data_topics_def data_frame_def)

lemma from_writer_genuine:
  assumes w: "run wr_step (fresh_writer topic) wes w" "length (numbered wes) < 2 ^ 32"
    and "from_writer dl tp i wes evs" and tp: "data_topics tp"
  shows "list_all (genuine (\<lambda>k. numbered wes ! k) (length (numbered wes))) (feed_frames dl i evs)"
  using assms(3)
proof (induction evs)
  case (Cons ev evs)
  have pub: "m \<in> frames topic (numbered wes)" if "Publishes m \<in> set wes" for m
    using wr_run_inv [OF w(1)] that by (auto simp: wr_inv_def wr_stream_inv_def split: prod.splits)
  have rest: "list_all (genuine (\<lambda>k. numbered wes ! k) (length (numbered wes))) (feed_frames dl i evs)"
    using Cons unfolding from_writer_def by (meson list.set_intros(2))
  show ?case
  proof (cases ev)
    case (Net e)
    have "genuine (\<lambda>k. numbered wes ! k) (length (numbered wes)) (seq, p)" if f: "frame_for dl i e = Some (seq, p)" for seq p
    proof -
      from f obtain t frame where e: "dl e = Some (t, frame)" "data_frame i (t, frame) = Some (seq, p)"
        by (auto simp: frame_for_def split: option.splits)
      with Net Cons.prems obtain j where j: "level j" "t = tp j"
          "j = i \<longrightarrow> (\<exists>m. Publishes m \<in> set wes \<and> pmPayload m = PData frame)"
        unfolding from_writer_def by (metis list.set_intros(1))
      from e(2) have "j = i" "DecodeDataFrame frame = Inr (seq, p)"
        unfolding j(2) data_frame_on [OF tp j(1)] by (auto split: if_splits sum.splits)
      with j(3) pub frames_decode [OF _ _ _ w(2)] show ?thesis unfolding genuine_def by fastforce
    qed
    with rest Net show ?thesis by (auto split: option.split)
  qed (use rest in simp)
qed simp

lemma written_numbered:
  assumes "run wr_step (fresh_writer topic) wes w"
  shows "\<exists>rest. written wes = concat (numbered wes) @ rest \<and> (snd w = WIdle \<longrightarrow> rest = [])"
proof -
  have "wr_stream_inv topic wes w" using wr_run_inv [OF assms] by (simp add: wr_inv_def)
  then show ?thesis by (cases w; cases "snd w") (simp_all add: wr_stream_inv_def)
qed

section \<open>What a tunnel asks of a peer\<close>

locale tunnel_peer =
  fixes handle :: "'e \<Rightarrow> 'a node_scheme \<Rightarrow> 'a node_scheme"
    and delivers :: "'e \<Rightarrow> (string \<times> byte list) option"
    and leaves_open :: "string \<Rightarrow> nat \<Rightarrow> 'e \<Rightarrow> 'a node_scheme \<Rightarrow> bool"
  assumes keeps: "receiving i r s d \<Longrightarrow> leaves_open i r e d \<Longrightarrow> frame_for delivers i e = None \<Longrightarrow> receiving i r s (handle e d)"
    and brings: "receiving i r s d \<Longrightarrow> frame_for delivers i e = Some (seq, p) \<Longrightarrow>
      \<exists>now. handle e d = update_ref r (HandleData seq p) (mgr_touch now i d)"
begin

lemma serving_other:
  "serving pl N b A i r d taken \<Longrightarrow> leaves_open i r e d \<Longrightarrow> frame_for delivers i e = None \<Longrightarrow>
     serving pl N b A i r (handle e d) taken"
  unfolding serving_def using keeps by blast

lemma serving_brought:
  assumes "serving pl N b A i r d taken" and "frame_for delivers i e = Some (seq, p)" and "genuine pl N (seq, p)"
    and "N < 2 ^ 32" and "b \<Longrightarrow> {0..<Suc (unat seq) - ReorderBufSize} \<subseteq> A"
  shows "serving pl N b (insert (unat seq) A) i r (handle e d) taken"
proof -
  obtain now where "handle e d = update_ref r (HandleData seq p) (mgr_touch now i d)"
    using brings [OF _ assms(2)] assms(1) unfolding serving_def by blast
  with serving_arrive [OF assms(1,3,4,5)] show ?thesis by simp
qed

lemma serving_run:
  assumes "serving pl N b A i r d taken" and "stays_open handle (leaves_open i r) r evs d" and "feed_peer handle r evs d = (d', out)"
    and "N < 2 ^ 32" and "list_all (genuine pl N) (feed_frames delivers i evs)"
    and "b \<Longrightarrow> in_reach ReorderBufSize A (keys (feed_frames delivers i evs))"
  shows "serving pl N b (A \<union> set (keys (feed_frames delivers i evs))) i r d' (taken @ out)"
  using assms
proof (induction evs arbitrary: A d taken out)
  case (Cons ev evs)
  show ?case
  proof (cases ev)
    case (Net e)
    have d: "stays_open handle (leaves_open i r) r evs (handle e d)" "feed_peer handle r evs (handle e d) = (d', out)"
        "leaves_open i r e d" using Cons.prems(2,3) Net by simp_all
    show ?thesis
    proof (cases "frame_for delivers i e")
      case None
      with Cons.IH [OF serving_other [OF Cons.prems(1) d(3) None] d(1,2)] Cons.prems(4-6) Net show ?thesis by simp
    next
      case (Some f)
      obtain seq p where f: "f = (seq, p)" by (cases f)
      have "serving pl N b (insert (unat seq) A) i r (handle e d) taken"
        using serving_brought [OF Cons.prems(1) Some [unfolded f] _ Cons.prems(4)] Cons.prems(5,6) Net Some f by simp
      with Cons.IH [OF this d(1,2)] Cons.prems(4-6) Net Some f show ?thesis by simp
    qed
  next
    case Consume
    obtain d1 o1 where c: "consume r d = (d1, o1)" by (cases "consume r d")
    obtain d2 o2 where run: "feed_peer handle r evs d1 = (d2, o2)" by (cases "feed_peer handle r evs d1")
    then have "stays_open handle (leaves_open i r) r evs d1" "feed_peer handle r evs d1 = (d', o2)" "out = o1 @ o2"
      using Cons.prems(2,3) Consume c by simp_all
    with Cons.IH [OF serving_consume [OF Cons.prems(1,4) c], of o2] Cons.prems(4-6) Consume show ?thesis by simp
  qed
qed simp

lemma tunnel_run:
  assumes w: "run wr_step (fresh_writer topic) wes w" "length (numbered wes) < 2 ^ 32"
    and start: "\<And>pl N b. serving pl N b {} i r d0 []"
    and f: "feed_peer handle r evs d0 = (d1, taken)" "stays_open handle (leaves_open i r) r evs d0"
      "from_writer delivers tp i wes evs" "data_topics tp"
  shows "taken = take (length taken) (numbered wes)"
    and "in_reach ReorderBufSize {} (keys (feed_frames delivers i evs)) \<Longrightarrow>
      {0..<length (numbered wes)} \<subseteq> set (keys (feed_frames delivers i evs)) \<Longrightarrow>
      (\<And>s. ndHeap d1 r = Some s \<Longrightarrow> rbDataCh (fst (ssReorder s)) = []) \<Longrightarrow> taken = numbered wes"
proof -
  let ?cs = "numbered wes"
  note g = from_writer_genuine [OF w f(3,4)]
  have near: "(b \<Longrightarrow> in_reach ReorderBufSize {} (keys (feed_frames delivers i evs)))
      \<Longrightarrow> serving (\<lambda>k. ?cs ! k) (length ?cs) b (set (keys (feed_frames delivers i evs))) i r d1 taken" for b
    using serving_run [OF start f(2,1) w(2) g, of b] by (simp only: Un_empty_left append_Nil)
  have any: "serving (\<lambda>k. ?cs ! k) (length ?cs) False (set (keys (feed_frames delivers i evs))) i r d1 taken"
    by (rule near) (rule FalseE)
  note count = serving_count [OF any w(2)]
  show "taken = take (length taken) ?cs"
    by (rule trans [OF serving_prefix [OF any w(2)] map_nth_take [OF count]])
  assume reach: "in_reach ReorderBufSize {} (keys (feed_frames delivers i evs))"
    and all: "{0..<length ?cs} \<subseteq> set (keys (feed_frames delivers i evs))"
    and empty: "\<And>s. ndHeap d1 r = Some s \<Longrightarrow> rbDataCh (fst (ssReorder s)) = []"
  have "serving (\<lambda>k. ?cs ! k) (length ?cs) True (set (keys (feed_frames delivers i evs))) i r d1 taken"
    by (rule near) (rule reach)
  from serving_all [OF this w(2) empty all] have "take (length ?cs) taken = map (\<lambda>k. ?cs ! k) [0..<length ?cs]" .
  then show "taken = ?cs" by (simp only: map_nth take_all [OF count])
qed

text \<open>The same over bytes: a prefix of what was written, and all of it when everything has come.\<close>

lemma tunnel_bytes:
  assumes "run wr_step (fresh_writer topic) wes w" and "length (numbered wes) < 2 ^ 32"
    and "\<And>pl N b. serving pl N b {} i r d0 []"
    and "feed_peer handle r evs d0 = (d1, taken)" "stays_open handle (leaves_open i r) r evs d0"
      "from_writer delivers tp i wes evs" "data_topics tp"
  shows "(\<exists>rest. written wes = concat taken @ rest)
    \<and> (snd w = WIdle \<and> in_reach ReorderBufSize {} (keys (feed_frames delivers i evs))
         \<and> {0..<length (numbered wes)} \<subseteq> set (keys (feed_frames delivers i evs))
         \<and> (\<forall>s. ndHeap d1 r = Some s \<longrightarrow> rbDataCh (fst (ssReorder s)) = []) \<longrightarrow> written wes = concat taken)"
proof -
  obtain rest where wr: "written wes = concat (numbered wes) @ rest" "snd w = WIdle \<longrightarrow> rest = []"
    using written_numbered [OF assms(1)] by blast
  note t = tunnel_run [OF assms]
  have "concat (numbered wes) = concat (take n (numbered wes)) @ concat (drop n (numbered wes))" for n
    by (simp flip: concat_append)
  then have "concat (numbered wes) = concat taken @ concat (drop (length taken) (numbered wes))"
    using t(1) by metis
  with wr(1) have "\<exists>rest. written wes = concat taken @ rest" by simp
  moreover have "written wes = concat taken" if "taken = numbered wes" and "snd w = WIdle"
    using that wr by simp
  ultimately show ?thesis using t(2) by blast
qed

end

text \<open>An example: one write of two bytes, and what becomes of its frame when it arrives twice.\<close>

definition example_writes :: "string \<Rightarrow> wr_event list" where
  "example_writes t = [WriteCall [7, 8], Numbers [7, 8],
     Publishes (data_pub t (EncodeDataFrame 0 [7, 8])), WriteReturns]"

lemma example_writes_run: "\<exists>sw. run wr_step (fresh_writer t) (example_writes t) (sw, WIdle)"
proof -
  let ?sw = "fst (Write_frame [7, 8] (fst (fresh_writer t)))"
  have c: "chunk_credit [7, 8] (fst (fresh_writer t))" and n: "next_chunk [7, 8] = [7, 8]"
    by (simp_all add: chunk_credit_def next_chunk_def CanSend_def outstanding_def NewSequenceWriter_def NewFlowControl_def
        FlowControlWindow_def MaxPayloadSize_def)
  have w: "Write_frame [7, 8] (fst (fresh_writer t)) = (?sw, data_pub t (EncodeDataFrame 0 [7, 8]))"
    by (simp add: Write_frame_def NewSequenceWriter_def)
  from wr_number [of "[7, 8]" "fst (fresh_writer t)"] c w n
  have s2: "wr_step (fst (fresh_writer t), WCheck [7, 8]) (Numbers [7, 8])
      (?sw, WPublish (data_pub t (EncodeDataFrame 0 [7, 8])) [])" by simp
  show ?thesis
    unfolding example_writes_def
    by (intro exI run_cons [of wr_step, OF wr_call] run_cons [of wr_step, OF s2 [unfolded fst_conv]]
        run_cons [of wr_step, OF wr_publish] run_single) (rule wr_return)
qed

lemma example_inserts:
  "Insert 0 [7, 8] (NewReorderBuffer ReorderBufSize)
     = ((NewReorderBuffer ReorderBufSize)\<lparr>rbNextSeq := 1, rbDataCh := [[7, 8]]\<rparr>, Return None)"
  "Insert 0 [7, 8] ((NewReorderBuffer ReorderBufSize)\<lparr>rbNextSeq := 1, rbDataCh := [[7, 8]]\<rparr>)
     = ((NewReorderBuffer ReorderBufSize)\<lparr>rbNextSeq := 1, rbDataCh := [[7, 8]]\<rparr>, Return None)"
  by code_simp+

end
