(* ===== verification/Uplink.thy ===== *)
theory Uplink
  imports Tunnel Device
begin

text \<open>
  Data towards the device: the device as a peer of a tunnel, from the open request it accepts to the
  bytes its session takes.
\<close>

section \<open>The device keeps a session\<close>

text \<open>
  The session stays open: no close request for it, no cleanup that finds it stale, no \<open>CloseAll\<close>; the
  other goroutines mind their own business. Everything else may happen.
\<close>

fun device_delivers :: "device_event \<Rightarrow> (string \<times> byte list) option" where
  "device_delivers (InData now topic frame) = Some (topic, frame)"
| "device_delivers _ = None"

fun device_leaves_open :: "string \<Rightarrow> nat \<Rightarrow> device_event \<Rightarrow> device \<Rightarrow> bool" where
  "device_leaves_open i r (InControl now dial sh p) d = (case read_msg (payload_text p) of
     None \<Rightarrow> True | Some msg \<Rightarrow> \<not> (cmType msg = MessageTypeClose \<and> cmSessionID msg = i))"
| "device_leaves_open i r (InData now topic frame) d = True"
| "device_leaves_open i r (Stale now order) d =
     (enumerates order (stale_refs now d) \<and> \<not> is_stale now (StaleTimeout * Second) (ndManager d) i)"
| "device_leaves_open i r (CloseAllSessions order) d = False"
| "device_leaves_open i r (Work q f ms ends) d = minds_own i r q f ends d"

lemma receiving_reject: "receiving i r s d \<Longrightarrow> receiving i r s (sendUnknownSessionReject now j d)"
  using receiving_cong [of "d\<lparr>dvRejected := m\<rparr>" d i r s for m]
  by (simp add: sendUnknownSessionReject_def)

lemma receiving_handleClose:
  assumes "receiving i r s d" and "cmSessionID msg \<noteq> i"
  shows "receiving i r s (handleClose msg d)"
proof (cases "mgr_get (cmSessionID msg) d")
  case None
  with assms show ?thesis by (simp add: handleClose_def)
next
  case (Some q)
  have inv: "node_inv d" "smSessions (ndManager d) i = Some r" using assms(1) by (simp_all add: receiving_def)
  from Some have q: "smSessions (ndManager d) (cmSessionID msg) = Some q" by (simp add: node_simps)
  have "q \<noteq> r" using node_inv_inj [OF inv(1) q] inv(2) assms(2) by blast
  moreover have "\<not> may_release i q d"
    using node_inv_entry [OF inv(1) q] assms(2) by (auto simp: may_release_def)
  ultimately show ?thesis
    using Some assms by (simp add: handleClose_def receiving_remove_other receiving_close_other)
qed

lemma receiving_handleOpen:
  assumes "receiving i r s d"
  shows "receiving i r s (handleOpen now dial sh msg d)"
proof -
  let ?d = "handleOpen now dial sh msg d"
  obtain s' where s': "node_inv d" "smSessions (ndManager d) i = Some r" "ndHeap d r = Some s'"
      "ssReorder s' = ssReorder s" "ssQueue s' = ssQueue s"
    using assms by (auto simp: receiving_def)
  note res = handleOpen_result [OF s'(1) refl, of now dial sh msg]
  have "smSessions (ndManager ?d) i = Some r \<and> ndHeap ?d r = Some s'"
    using res
  proof (elim conjE disjE exE)
    fix err assume "open_refused msg err d ?d"
    then show ?thesis using s' by (simp add: open_refused_def)
  next
    assume "open_accepted msg d ?d"
    then show ?thesis using s' by (auto simp: open_accepted_def)
  qed
  with res s' show ?thesis by (auto intro: receivingI)
qed

lemma receiving_resize:
  "receiving i r s d \<Longrightarrow> receiving i r s (resizeShell j c w d)"
  by (auto simp: resizeShell_def Resize_def intro!: receiving_update split: option.split)

text \<open>An event that leaves the session open and brings no frame for it leaves its receiving side alone.\<close>

lemma receiving_other:
  assumes "receiving i r s d" and "device_leaves_open i r e d" and "frame_for device_delivers i e = None"
  shows "receiving i r s (device_handle e d)"
proof (cases e)
  case (InControl now dial sh p)
  have "receiving i r s (handleControl now dial sh p d)"
  proof (cases "read_msg (payload_text p)")
    case None
    with assms(1) show ?thesis
      by (auto simp: handleControl_def read_msg_def payload_json_def split: option.split)
  next
    case (Some msg)
    then obtain j where "payload_json p = Some j" "Unmarshal j = Some msg"
      by (auto simp: read_msg_def payload_json_def split: option.splits)
    moreover have "receiving i r s (handleAck now msg d)"
      using assms(1)
      by (auto simp: handleAck_def session_ack_def UpdateFlowControl_def
          intro!: receiving_reject receiving_update receiving_touch split: option.split)
    ultimately show ?thesis
      using assms(1,2) Some InControl
      by (auto simp: handleControl_def handlePing_def handleResize_def
          intro: receiving_handleOpen receiving_resize receiving_handleClose)
  qed
  with InControl show ?thesis by simp
next
  case (InData now topic frame)
  show ?thesis
  proof (cases "ParseTopic topic")
    case (Inr parsed)
    show ?thesis
    proof (cases "mgr_get (ptSessionID parsed) d")
      case None
      with assms(1) Inr InData show ?thesis by (simp add: handleData_def receiving_reject)
    next
      case (Some q)
      have "q = r \<longrightarrow> ptSessionID parsed = i"
        using Some assms(1) by (auto simp: receiving_def node_simps dest: node_inv_inj)
      with assms Some Inr InData show ?thesis
        by (auto simp: frame_for_def data_frame_def handleData_def Let_def intro!: receiving_touch receiving_update split: sum.splits)
    qed
  qed (use assms(1) InData in \<open>simp add: handleData_def\<close>)
next
  case (Stale now order)
  with assms show ?thesis by (simp add: receiving_cleanup)
next
  case (CloseAllSessions order)
  with assms(2) show ?thesis by simp
next
  case (Work q f ms ends)
  with assms(1,2) receiving_work [OF assms(1), of q f ends ms] show ?thesis by simp
qed

interpretation device_tunnel: tunnel_peer device_handle device_delivers device_leaves_open
proof unfold_locales
  show "receiving i r s d \<Longrightarrow> device_leaves_open i r e d \<Longrightarrow> frame_for device_delivers i e = None \<Longrightarrow>
      receiving i r s (device_handle e d)" for i r s e d
    by (rule receiving_other)
  fix i r s seq p and e :: device_event and d :: device
  assume "receiving i r s d" and "frame_for device_delivers i e = Some (seq, p)"
  then show "\<exists>now. device_handle e d = update_ref r (HandleData seq p) (mgr_touch now i d)"
    by (cases e)
       (auto simp: frame_for_def data_frame_def handleData_def receiving_def node_simps split: sum.splits if_splits)
qed

section \<open>A session that has just been opened\<close>

lemma opened_unused:
  assumes inv: "node_inv d" and new: "mgr_get (cmSessionID msg) d = None"
    and opened: "mgr_get (cmSessionID msg) (handleOpen now dial sh msg d) = Some r"
  obtains s where "ndHeap (handleOpen now dial sh msg d) r = Some s" and "unused s"
proof -
  have "open_accepted msg d (handleOpen now dial sh msg d)"
    using handleOpen_result [OF inv refl, of now dial sh msg] new opened by (auto simp: open_refused_def mgr_get_eq)
  with opened that show thesis by (auto simp: open_accepted_def mgr_get_eq)
qed

lemma opened_serving:
  assumes inv: "node_inv d" and new: "mgr_get (cmSessionID msg) d = None"
    and opened: "mgr_get (cmSessionID msg) (handleOpen now dial sh msg d) = Some r"
  shows "serving pl N b {} (cmSessionID msg) r (handleOpen now dial sh msg d) []"
proof -
  obtain s where s: "ndHeap (handleOpen now dial sh msg d) r = Some s" "unused s"
    by (rule opened_unused [OF assms])
  then have "session_inv pl N ReorderBufSize b {} s []"
    by (intro session_inv_new) (simp_all add: unused_def)
  with s opened handleOpen_result [OF inv refl, of now dial sh msg] show ?thesis
    unfolding serving_def by (auto simp: mgr_get_eq intro: receivingI)
qed

text \<open>An example: the one frame of a write arrives twice at a session that was just opened.\<close>

definition example_feed :: "device_event feed list" where
  "example_feed = [Net (InData 1 (InDataTopic ''dev'' ''a'') (EncodeDataFrame 0 [7, 8])),
     Net (InData 2 (InDataTopic ''dev'' ''a'') (EncodeDataFrame 0 [7, 8])), Consume]"

lemma example_feed_result: "\<exists>d1 s. feed_peer device_handle 0 example_feed example_device = (d1, [[7, 8]])
    \<and> ndHeap d1 0 = Some s \<and> rbDataCh (fst (ssReorder s)) = []"
proof -
  let ?f = "EncodeDataFrame 0 [7, 8]" and ?t = "InDataTopic ''dev'' ''a''"
  obtain s where s: "ndHeap example_device 0 = Some s" "ssReorder s = (NewReorderBuffer ReorderBufSize, Idle)"
      "ssQueue s = []"
  proof -
    have "node_inv (fresh_device ''dev'' [] [])" using device_inv_fresh by (simp add: device_inv_def)
    moreover have "mgr_get (cmSessionID example_open) (fresh_device ''dev'' [] []) = None"
      by (simp add: mgr_get_eq fresh_device_eq NewSessionManager_def)
    ultimately show thesis
      using that opened_unused [of "fresh_device ''dev'' [] []" example_open 0 "\<lambda>_. None" ShellStarted 0]
        example_device_session(1)
      by (auto simp: example_device_eq example_open_fields unused_def)
  qed
  have h: "handleData now ?t ?f d = update_ref 0 (HandleData 0 [7, 8]) (mgr_touch now ''a'' d)"
    if "mgr_get ''a'' d = Some 0" for now d
    using that ParseTopic_data [of "''dev''" "''a''" topicIn]
    by (simp add: InDataTopic_def handleData_def Let_def DecodeDataFrame_Encode data_topic_parts_def)
  show ?thesis
    using example_device_session(1) s
    by (simp add: example_feed_def h node_simps consume_def HandleData_def session_take_def resume_insert_def example_inserts)
qed

section \<open>Main properties\<close>

text \<open>C1. What a device's session takes is a prefix of what the client wrote, whatever else the device handles meanwhile (other sessions, opens, pings, stray messages, cleanups that do not find this session stale) and whatever the broker does to the frames, as long as nothing ends the session. If every frame has come, none overtaking another by the size of the buffer, and the channel is empty, then it is all of what was written.\<close>

theorem uplink_delivery:
  assumes "run wr_step (fresh_writer topic) wes w" and "length (numbered wes) < 2 ^ 32"
    and "device_inv d" and "mgr_get i d = None" and "d0 = handleOpen now dial sh msg d"
    and "cmSessionID msg = i" and "mgr_get i d0 = Some r"
    and "level dev" and "from_writer device_delivers (InDataTopic dev) i wes evs"
    and "stays_open device_handle (device_leaves_open i r) r evs d0"
    and "feed_peer device_handle r evs d0 = (d1, taken)"
  shows "(\<exists>rest. written wes = concat taken @ rest)
    \<and> (snd w = WIdle \<and> in_reach ReorderBufSize {} (map (\<lambda>f. unat (fst f)) (feed_frames device_delivers i evs))
         \<and> {0..<length (numbered wes)} \<subseteq> set (map (\<lambda>f. unat (fst f)) (feed_frames device_delivers i evs))
         \<and> (\<forall>s. ndHeap d1 r = Some s \<longrightarrow> rbDataCh (fst (ssReorder s)) = []) \<longrightarrow> written wes = concat taken)"
proof -
  have "node_inv d" using assms(3) by (simp add: device_inv_def)
  then have "serving pl N b {} i r d0 []" for pl N b
    using opened_serving [of d msg now dial sh r] assms(4-7) by simp
  from device_tunnel.tunnel_bytes [OF assms(1,2) this assms(11,10,9) data_topics_of(1) [OF assms(8)]]
  show ?thesis .
qed

theorem uplink_delivery_witness:
  "\<exists>d1. feed_peer device_handle 0 example_feed example_device = (d1, [[7, 8]]) \<and> written (example_writes (InDataTopic ''dev'' ''a'')) = concat [[7, 8]]"
proof -
  obtain d1 s where f: "feed_peer device_handle 0 example_feed example_device = (d1, [[7, 8]])" "ndHeap d1 0 = Some s"
      "rbDataCh (fst (ssReorder s)) = []"
    using example_feed_result by blast
  let ?es = "example_writes (InDataTopic ''dev'' ''a'')"
  obtain sw where w: "run wr_step (fresh_writer (InDataTopic ''dev'' ''a'')) ?es (sw, WIdle)"
    using example_writes_run by blast
  let ?d = "fresh_device ''dev'' [] []"
  have new: "mgr_get ''a'' ?d = None" by (simp add: mgr_get_eq fresh_device_eq NewSessionManager_def)
  have net: "from_writer device_delivers (InDataTopic ''dev'') ''a'' ?es example_feed"
    by (auto simp: from_writer_def example_feed_def example_writes_def data_pub_def intro!: exI [of _ "''a''"])
  have fr: "feed_frames device_delivers ''a'' example_feed = [(0, [7, 8]), (0, [7, 8])]"
    using data_frame_on [OF data_topics_of(1), of "''dev''" "''a''"]
    by (simp add: example_feed_def frame_for_def DecodeDataFrame_Encode)
  have st: "stays_open device_handle (device_leaves_open ''a'' 0) 0 example_feed example_device"
    by (simp add: example_feed_def split: prod.split)
  have len: "length (numbered ?es) < 2 ^ 32" by (simp add: example_writes_def)
  from uplink_delivery [OF w len device_inv_fresh new example_device_eq example_open_fields(2)
      example_device_session(1) _ net st f(1)] f
  show ?thesis by (simp add: fr example_writes_def ReorderBufSize_def)
qed

end
