(* ===== verification/Socks5.thy ===== *)
theory Socks5
  imports NetIP
begin

text \<open>
  \<open>internal/socks5/socks5.go\<close>: the handshake of a SOCKS5 proxy without authentication and the
  replies. A connection is the bytes its peer sends until reading fails, and the bytes written.
\<close>

section \<open>Connections\<close>

datatype io_error = EOF | UnexpectedEOF | IOError string

record conn =
  cnRx :: "byte list"
  cnRxErr :: io_error
  cnTx :: "byte list"
  cnTxErr :: "string option"

text \<open>\<open>io.ReadFull\<close>: all the bytes or an error; the bytes of a partial read are gone.\<close>

definition ReadFull :: "nat \<Rightarrow> conn \<Rightarrow> conn \<times> (io_error + byte list)" where
  "ReadFull n c =
     (if n \<le> length (cnRx c) then (c\<lparr>cnRx := drop n (cnRx c)\<rparr>, Inr (take n (cnRx c)))
      else (c\<lparr>cnRx := []\<rparr>,
            Inl (if cnRxErr c = EOF \<and> cnRx c \<noteq> [] then UnexpectedEOF else cnRxErr c)))"

definition conn_Write :: "byte list \<Rightarrow> conn \<Rightarrow> conn \<times> string option" where
  "conn_Write bs c = (case cnTxErr c of
     Some e \<Rightarrow> (c, Some e)
   | None \<Rightarrow> (c\<lparr>cnTx := cnTx c @ bs\<rparr>, None))"

section \<open>Replies\<close>

definition Version5 :: byte where "Version5 = 0x05"
definition AuthNone :: byte where "AuthNone = 0x00"
definition AuthNoAcceptable :: byte where "AuthNoAcceptable = 0xFF"
definition CmdConnect :: byte where "CmdConnect = 0x01"
definition AddrTypeIPv4 :: byte where "AddrTypeIPv4 = 0x01"
definition AddrTypeDomain :: byte where "AddrTypeDomain = 0x03"
definition AddrTypeIPv6 :: byte where "AddrTypeIPv6 = 0x04"
definition ReplySuccess :: byte where "ReplySuccess = 0x00"
definition ReplyGeneralFailure :: byte where "ReplyGeneralFailure = 0x01"
definition ReplyConnectionRefused :: byte where "ReplyConnectionRefused = 0x05"
definition ReplyCommandNotSupported :: byte where "ReplyCommandNotSupported = 0x07"

lemmas socks_consts = Version5_def AuthNone_def AuthNoAcceptable_def CmdConnect_def AddrTypeIPv4_def
  AddrTypeDomain_def AddrTypeIPv6_def ReplySuccess_def ReplyGeneralFailure_def
  ReplyConnectionRefused_def ReplyCommandNotSupported_def

definition fail_reply :: "byte \<Rightarrow> byte list" where
  "fail_reply code = [Version5, code, 0x00, AddrTypeIPv4, 0, 0, 0, 0, 0, 0]"

definition SendFailure :: "byte \<Rightarrow> conn \<Rightarrow> conn \<times> string option" where
  "SendFailure code c = conn_Write (fail_reply code) c"

text \<open>The bound address of a reply: none or of another kind, or a TCP address and its port.\<close>

datatype bind_addr = NoBind | OtherBind | TCPBind "byte list" nat

definition SendSuccess :: "bind_addr \<Rightarrow> conn \<Rightarrow> conn \<times> string option" where
  "SendSuccess bind c =
     (case bind of
        NoBind \<Rightarrow> conn_Write [Version5, ReplySuccess, 0x00, AddrTypeIPv4, 0, 0, 0, 0, 0, 0] c
      | OtherBind \<Rightarrow> conn_Write [Version5, ReplySuccess, 0x00, AddrTypeIPv4, 0, 0, 0, 0, 0, 0] c
      | TCPBind ip port \<Rightarrow>
          (let portBuf = PutUint16 (of_nat port) in
           case To4 ip of
             Some ip4 \<Rightarrow> conn_Write ([Version5, ReplySuccess, 0x00, AddrTypeIPv4] @ ip4 @ portBuf) c
           | None \<Rightarrow> conn_Write ([Version5, ReplySuccess, 0x00, AddrTypeIPv6]
               @ (if length ip = 16 then ip else []) @ portBuf) c))"

section \<open>The handshake\<close>

datatype socks_error =
    ReadGreeting io_error | BadVersion byte | ReadMethods io_error | NoAcceptableAuth
  | WriteAuth string | ReadRequest io_error | BadRequestVersion byte | BadCommand byte
  | ReadIPv4 io_error | ReadDomainLength io_error | ReadDomain io_error | ReadIPv6 io_error
  | BadAddressType byte | ReadPort io_error

definition read_address :: "byte \<Rightarrow> conn \<Rightarrow> conn \<times> (socks_error + string)" where
  "read_address t c =
     (if t = AddrTypeIPv4 then
        (case ReadFull 4 c of (c1, r) \<Rightarrow> (c1, case r of Inl e \<Rightarrow> Inl (ReadIPv4 e) | Inr a \<Rightarrow> Inr (IP_String a)))
      else if t = AddrTypeDomain then
        (case ReadFull 1 c of
           (c1, Inl e) \<Rightarrow> (c1, Inl (ReadDomainLength e))
         | (c1, Inr l) \<Rightarrow>
             (case ReadFull (unat (l ! 0)) c1 of (c2, r) \<Rightarrow>
               (c2, case r of Inl e \<Rightarrow> Inl (ReadDomain e) | Inr d \<Rightarrow> Inr (string_of_bytes d))))
      else if t = AddrTypeIPv6 then
        (case ReadFull 16 c of (c1, r) \<Rightarrow> (c1, case r of Inl e \<Rightarrow> Inl (ReadIPv6 e) | Inr a \<Rightarrow> Inr (IP_String a)))
      else (fst (SendFailure ReplyGeneralFailure c), Inl (BadAddressType t)))"

definition read_request :: "conn \<Rightarrow> conn \<times> (socks_error + string)" where
  "read_request c =
     (case ReadFull 4 c of
        (c1, Inl e) \<Rightarrow> (c1, Inl (ReadRequest e))
      | (c1, Inr req) \<Rightarrow>
          if req ! 0 \<noteq> Version5 then (c1, Inl (BadRequestVersion (req ! 0)))
          else if req ! 1 \<noteq> CmdConnect then
            (fst (SendFailure ReplyCommandNotSupported c1), Inl (BadCommand (req ! 1)))
          else
            (case read_address (req ! 3) c1 of
               (c2, Inl e) \<Rightarrow> (c2, Inl e)
             | (c2, Inr host) \<Rightarrow>
                 (case ReadFull 2 c2 of
                    (c3, Inl e) \<Rightarrow> (c3, Inl (ReadPort e))
                  | (c3, Inr portBuf) \<Rightarrow> (c3, Inr (JoinHostPort host (show_nat (unat (Uint16 portBuf))))))))"

definition Handshake :: "conn \<Rightarrow> conn \<times> (socks_error + string)" where
  "Handshake c =
     (case ReadFull 2 c of
        (c1, Inl e) \<Rightarrow> (c1, Inl (ReadGreeting e))
      | (c1, Inr header) \<Rightarrow>
          if header ! 0 \<noteq> Version5 then (c1, Inl (BadVersion (header ! 0)))
          else
            (case ReadFull (unat (header ! 1)) c1 of
               (c2, Inl e) \<Rightarrow> (c2, Inl (ReadMethods e))
             | (c2, Inr methods) \<Rightarrow>
                 if AuthNone \<notin> set methods then
                   (fst (conn_Write [Version5, AuthNoAcceptable] c2), Inl NoAcceptableAuth)
                 else
                   (case conn_Write [Version5, AuthNone] c2 of
                      (c3, Some e) \<Rightarrow> (c3, Inl (WriteAuth e))
                    | (c3, None) \<Rightarrow> read_request c3)))"

section \<open>Which requests are accepted\<close>

lemma ReadFull_Inr:
  "ReadFull n c = (c1, Inr bs) \<longleftrightarrow> (\<exists>rest. cnRx c = bs @ rest \<and> length bs = n \<and> c1 = c\<lparr>cnRx := rest\<rparr>)"
  by (auto simp: ReadFull_def) (metis append_take_drop_id)

lemma ReadFull_append: "length bs = n \<Longrightarrow> cnRx c = bs @ rest \<Longrightarrow> ReadFull n c = (c\<lparr>cnRx := rest\<rparr>, Inr bs)"
  by (simp add: ReadFull_Inr)

lemma ReadFull_tx [simp]: "ReadFull n c = (c1, r) \<Longrightarrow> cnTx c1 = cnTx c \<and> cnTxErr c1 = cnTxErr c"
  by (auto simp: ReadFull_def split: if_splits)

text \<open>The wire format of RFC 1928, as the specification has it.\<close>

datatype socks_addr = AddrV4 "byte list" | AddrDomain "byte list" | AddrV6 "byte list"

fun addr_ok :: "socks_addr \<Rightarrow> bool" where
  "addr_ok (AddrV4 a) \<longleftrightarrow> length a = 4"
| "addr_ok (AddrDomain d) \<longleftrightarrow> length d < 256"
| "addr_ok (AddrV6 a) \<longleftrightarrow> length a = 16"

fun addr_type :: "socks_addr \<Rightarrow> byte" where
  "addr_type (AddrV4 a) = AddrTypeIPv4"
| "addr_type (AddrDomain d) = AddrTypeDomain"
| "addr_type (AddrV6 a) = AddrTypeIPv6"

fun addr_wire :: "socks_addr \<Rightarrow> byte list" where
  "addr_wire (AddrV4 a) = a"
| "addr_wire (AddrDomain d) = of_nat (length d) # d"
| "addr_wire (AddrV6 a) = a"

fun addr_host :: "socks_addr \<Rightarrow> string" where
  "addr_host (AddrV4 a) = IP_String a"
| "addr_host (AddrDomain d) = string_of_bytes d"
| "addr_host (AddrV6 a) = IP_String a"

definition greeting :: "byte list \<Rightarrow> byte list" where
  "greeting methods = [Version5, of_nat (length methods)] @ methods"

definition connect_request :: "byte \<Rightarrow> socks_addr \<Rightarrow> u16 \<Rightarrow> byte list" where
  "connect_request rsv a port = [Version5, CmdConnect, rsv, addr_type a] @ addr_wire a @ PutUint16 port"

definition target_of :: "socks_addr \<Rightarrow> u16 \<Rightarrow> string" where
  "target_of a port = JoinHostPort (addr_host a) (show_nat (unat port))"

lemma byte_of_length: "length d < 256 \<Longrightarrow> unat (of_nat (length d) :: byte) = length d"
  by (simp add: unat_of_nat take_bit_nat_eq_self)

lemma read_address_ok:
  assumes "addr_ok a" and "cnRx c = addr_wire a @ rest"
  shows "read_address (addr_type a) c = (c\<lparr>cnRx := rest\<rparr>, Inr (addr_host a))"
proof (cases a)
  case (AddrDomain d)
  have 1: "ReadFull 1 c = (c\<lparr>cnRx := d @ rest\<rparr>, Inr [of_nat (length d)])"
    using assms AddrDomain by (intro ReadFull_append) simp_all
  have 2: "ReadFull (length d) (c\<lparr>cnRx := d @ rest\<rparr>) = (c\<lparr>cnRx := rest\<rparr>, Inr d)"
    using ReadFull_append [of d _ "c\<lparr>cnRx := d @ rest\<rparr>" rest] by simp
  show ?thesis
    using AddrDomain assms(1) 1 2 by (simp add: read_address_def socks_consts byte_of_length)
qed (use assms in \<open>simp_all add: read_address_def socks_consts ReadFull_append\<close>)

lemma read_address_inv:
  assumes "read_address t c = (c', Inr host)"
  shows "\<exists>a rest. addr_ok a \<and> t = addr_type a \<and> cnRx c = addr_wire a @ rest
    \<and> c' = c\<lparr>cnRx := rest\<rparr> \<and> host = addr_host a"
proof -
  consider "t = AddrTypeIPv4" | "t = AddrTypeDomain" | "t = AddrTypeIPv6"
    using assms by (auto simp: read_address_def split: if_splits)
  then show ?thesis
  proof cases
    case 1
    with assms obtain bs where "ReadFull 4 c = (c', Inr bs)" "host = IP_String bs"
      by (auto simp: read_address_def split: prod.splits sum.splits)
    with 1 show ?thesis by (intro exI [of _ "AddrV4 bs"]) (auto simp: ReadFull_Inr)
  next
    case 2
    with assms obtain c1 l d where l: "ReadFull 1 c = (c1, Inr l)" "ReadFull (unat (l ! 0)) c1 = (c', Inr d)"
        "host = string_of_bytes d"
      by (auto simp: read_address_def socks_consts split: prod.splits sum.splits)
    then obtain b where b: "l = [b]" by (auto simp: ReadFull_Inr length_Suc_conv)
    with l(2) have "length d = unat b" by (auto simp: ReadFull_Inr)
    then have "of_nat (length d) = b" "length d < 256"
      using unsigned_less [of b, where ?'a = nat] by simp_all
    with 2 l b show ?thesis by (intro exI [of _ "AddrDomain d"]) (auto simp: ReadFull_Inr)
  next
    case 3
    with assms obtain bs where "ReadFull 16 c = (c', Inr bs)" "host = IP_String bs"
      by (auto simp: read_address_def socks_consts split: prod.splits sum.splits)
    with 3 show ?thesis by (intro exI [of _ "AddrV6 bs"]) (auto simp: ReadFull_Inr)
  qed
qed

lemma port_bytes: "length bs = 2 \<Longrightarrow> PutUint16 (Uint16 bs) = bs"
proof -
  assume "length bs = 2"
  then obtain a b where bs: "bs = [a, b]" by (auto simp: length_Suc_conv eval_nat_numeral)
  define x where "x = unat a" define y where "y = unat b"
  have xy: "x < 256" "y < 256"
    using unsigned_less [of a, where ?'a = nat] unsigned_less [of b, where ?'a = nat]
    by (simp_all add: x_def y_def)
  have "be_nat (take 2 bs) = x * 256 + y" by (simp add: bs x_def y_def)
  then have "unat (Uint16 bs) = x * 256 + y"
    using xy unfolding Uint16_def unat_of_nat by (simp add: take_bit_nat_eq_self)
  then have "unat (ucast (drop_bit 8 (Uint16 bs)) :: byte) = x" "unat (ucast (Uint16 bs) :: byte) = y"
    using xy by (simp_all add: unat_ucast_byte unat_drop_bit_div)
  then show ?thesis
    by (simp add: PutUint16_def bs word_eq_iff_unsigned [where ?'a = nat] x_def y_def)
qed

lemma read_request_iff:
  "read_request c = (c', Inr target) \<longleftrightarrow>
     (\<exists>rsv a port rest. addr_ok a \<and> cnRx c = connect_request rsv a port @ rest
        \<and> c' = c\<lparr>cnRx := rest\<rparr> \<and> target = target_of a port)"
proof
  assume h: "read_request c = (c', Inr target)"
  obtain c1 req where 1: "ReadFull 4 c = (c1, Inr req)"
    using h by (auto simp: read_request_def split: prod.splits sum.splits)
  then obtain q0 q1 q2 q3 where q: "req = [q0, q1, q2, q3]"
    by (auto simp: ReadFull_Inr length_Suc_conv eval_nat_numeral)
  have v: "q0 = Version5" "q1 = CmdConnect"
    using h 1 q by (auto simp: read_request_def split: if_splits prod.splits)
  obtain c2 host where 2: "read_address q3 c1 = (c2, Inr host)"
    using h 1 q v by (auto simp: read_request_def split: prod.splits sum.splits)
  obtain p where 3: "ReadFull 2 c2 = (c', Inr p)" "target = JoinHostPort host (show_nat (unat (Uint16 p)))"
    using h 1 q v 2 by (auto simp: read_request_def split: prod.splits sum.splits)
  from read_address_inv [OF 2] obtain a rest where a: "addr_ok a" "q3 = addr_type a"
      "cnRx c1 = addr_wire a @ rest" "c2 = c1\<lparr>cnRx := rest\<rparr>" "host = addr_host a" by blast
  from 3(1) obtain rest' where r: "rest = p @ rest'" "length p = 2" "c' = c2\<lparr>cnRx := rest'\<rparr>"
    using a(4) by (auto simp: ReadFull_Inr)
  show "\<exists>rsv a port rest. addr_ok a \<and> cnRx c = connect_request rsv a port @ rest
        \<and> c' = c\<lparr>cnRx := rest\<rparr> \<and> target = target_of a port"
    by (rule exI [of _ q2], rule exI [of _ a], rule exI [of _ "Uint16 p"], rule exI [of _ rest'])
       (use 1 q v a r 3(2) in \<open>auto simp: ReadFull_Inr connect_request_def target_of_def port_bytes\<close>)
next
  assume "\<exists>rsv a port rest. addr_ok a \<and> cnRx c = connect_request rsv a port @ rest
        \<and> c' = c\<lparr>cnRx := rest\<rparr> \<and> target = target_of a port"
  then obtain rsv a port rest where a: "addr_ok a" "cnRx c = connect_request rsv a port @ rest"
      "c' = c\<lparr>cnRx := rest\<rparr>" "target = target_of a port" by blast
  have 1: "ReadFull 4 c = (c\<lparr>cnRx := addr_wire a @ PutUint16 port @ rest\<rparr>, Inr [Version5, CmdConnect, rsv, addr_type a])"
    using a(2) by (intro ReadFull_append) (simp_all add: connect_request_def)
  have 2: "read_address (addr_type a) (c\<lparr>cnRx := addr_wire a @ PutUint16 port @ rest\<rparr>)
      = (c\<lparr>cnRx := PutUint16 port @ rest\<rparr>, Inr (addr_host a))"
    using read_address_ok [OF a(1), of "c\<lparr>cnRx := addr_wire a @ PutUint16 port @ rest\<rparr>"] by simp
  have 3: "ReadFull 2 (c\<lparr>cnRx := PutUint16 port @ rest\<rparr>) = (c\<lparr>cnRx := rest\<rparr>, Inr (PutUint16 port))"
    using ReadFull_append [of "PutUint16 port" 2 "c\<lparr>cnRx := PutUint16 port @ rest\<rparr>" rest] by simp
  show "read_request c = (c', Inr target)"
    using 1 2 3 a(3,4) Uint16_PutUint16 [of port "[]"] by (simp add: read_request_def target_of_def)
qed

lemma Handshake_iff:
  "Handshake c = (c', Inr target) \<longleftrightarrow>
     cnTxErr c = None \<and>
     (\<exists>methods rsv a port rest. length methods < 256 \<and> AuthNone \<in> set methods \<and> addr_ok a
        \<and> cnRx c = greeting methods @ connect_request rsv a port @ rest
        \<and> c' = c\<lparr>cnRx := rest, cnTx := cnTx c @ [Version5, AuthNone]\<rparr> \<and> target = target_of a port)"
proof
  assume h: "Handshake c = (c', Inr target)"
  obtain c1 header where 1: "ReadFull 2 c = (c1, Inr header)"
    using h by (auto simp: Handshake_def split: prod.splits sum.splits)
  then obtain h0 h1 where hd: "header = [h0, h1]"
    by (auto simp: ReadFull_Inr length_Suc_conv eval_nat_numeral)
  have v: "h0 = Version5" using h 1 hd by (auto simp: Handshake_def split: if_splits)
  obtain c2 methods where 2: "ReadFull (unat h1) c1 = (c2, Inr methods)"
    using h 1 hd v by (auto simp: Handshake_def split: prod.splits sum.splits)
  have m: "AuthNone \<in> set methods"
    using h 1 hd v 2 by (auto simp: Handshake_def split: if_splits)
  have tx: "cnTxErr c2 = None" "read_request (c2\<lparr>cnTx := cnTx c2 @ [Version5, AuthNone]\<rparr>) = (c', Inr target)"
    using h 1 hd v 2 m by (auto simp: Handshake_def conn_Write_def split: option.splits)
  have len: "length methods < 256" "h1 = of_nat (length methods)"
    using 2 unsigned_less [of h1, where ?'a = nat] by (auto simp: ReadFull_Inr)
  show "cnTxErr c = None \<and>
     (\<exists>methods rsv a port rest. length methods < 256 \<and> AuthNone \<in> set methods \<and> addr_ok a
        \<and> cnRx c = greeting methods @ connect_request rsv a port @ rest
        \<and> c' = c\<lparr>cnRx := rest, cnTx := cnTx c @ [Version5, AuthNone]\<rparr> \<and> target = target_of a port)"
  proof -
    obtain rsv a port rest where r: "addr_ok a" "cnRx c2 = connect_request rsv a port @ rest"
        "c' = c2\<lparr>cnTx := cnTx c2 @ [Version5, AuthNone], cnRx := rest\<rparr>" "target = target_of a port"
      using tx(2) unfolding read_request_iff by auto
    have "cnRx c = greeting methods @ connect_request rsv a port @ rest"
        "c' = c\<lparr>cnRx := rest, cnTx := cnTx c @ [Version5, AuthNone]\<rparr>" "cnTxErr c = None"
      using 1 2 len(2) v hd r tx(1) by (auto simp: ReadFull_Inr greeting_def)
    with r(1,4) len(1) m show ?thesis by blast
  qed
next
  assume "cnTxErr c = None \<and>
     (\<exists>methods rsv a port rest. length methods < 256 \<and> AuthNone \<in> set methods \<and> addr_ok a
        \<and> cnRx c = greeting methods @ connect_request rsv a port @ rest
        \<and> c' = c\<lparr>cnRx := rest, cnTx := cnTx c @ [Version5, AuthNone]\<rparr> \<and> target = target_of a port)"
  then obtain methods rsv a port rest where a: "cnTxErr c = None" "length methods < 256"
      "AuthNone \<in> set methods" "addr_ok a" "cnRx c = greeting methods @ connect_request rsv a port @ rest"
      "c' = c\<lparr>cnRx := rest, cnTx := cnTx c @ [Version5, AuthNone]\<rparr>" "target = target_of a port" by blast
  let ?r = "connect_request rsv a port @ rest"
  have 1: "ReadFull 2 c = (c\<lparr>cnRx := methods @ ?r\<rparr>, Inr [Version5, of_nat (length methods)])"
    using a(5) by (intro ReadFull_append) (simp_all add: greeting_def)
  have 2: "ReadFull (length methods) (c\<lparr>cnRx := methods @ ?r\<rparr>) = (c\<lparr>cnRx := ?r\<rparr>, Inr methods)"
    using ReadFull_append [of methods _ "c\<lparr>cnRx := methods @ ?r\<rparr>" ?r] by simp
  have 3: "read_request (c\<lparr>cnRx := ?r, cnTx := cnTx c @ [Version5, AuthNone]\<rparr>) = (c', Inr target)"
    unfolding read_request_iff using a(4,6,7) by fastforce
  show "Handshake c = (c', Inr target)"
    using 1 2 3 a(1-3) by (simp add: Handshake_def byte_of_length conn_Write_def)
qed

text \<open>What the peer was sent when the handshake fails.\<close>

fun error_reply :: "socks_error \<Rightarrow> byte list" where
  "error_reply (ReadGreeting e) = []"
| "error_reply (BadVersion v) = []"
| "error_reply (ReadMethods e) = []"
| "error_reply (WriteAuth e) = []"
| "error_reply NoAcceptableAuth = [Version5, AuthNoAcceptable]"
| "error_reply (BadCommand c) = [Version5, AuthNone] @ fail_reply ReplyCommandNotSupported"
| "error_reply (BadAddressType t) = [Version5, AuthNone] @ fail_reply ReplyGeneralFailure"
| "error_reply _ = [Version5, AuthNone]"

lemma conn_Write_ok: "cnTxErr c = None \<Longrightarrow> conn_Write bs c = (c\<lparr>cnTx := cnTx c @ bs\<rparr>, None)"
  by (simp add: conn_Write_def)

lemma ReadFull_txD: "ReadFull n c = (c1, r) \<Longrightarrow> cnTx c1 = cnTx c" "ReadFull n c = (c1, r) \<Longrightarrow> cnTxErr c1 = cnTxErr c"
  by simp_all

lemma read_address_tx:
  assumes "read_address t c = (c', r)" and "cnTxErr c = None"
  shows "cnTxErr c' = None"
    and "case r of Inl e \<Rightarrow> cnTx c @ drop 2 (error_reply e) = cnTx c' \<and> take 2 (error_reply e) = [Version5, AuthNone]
      | Inr h \<Rightarrow> cnTx c' = cnTx c"
  using assms
  by (auto simp: read_address_def SendFailure_def conn_Write_ok dest!: ReadFull_txD
      split: if_splits prod.splits sum.splits)

lemma read_request_tx:
  assumes "read_request c = (c', Inl e)" and "cnTxErr c = None"
  shows "cnTx c' = cnTx c @ drop 2 (error_reply e) \<and> take 2 (error_reply e) = [Version5, AuthNone]"
proof -
  obtain c1 r where 1: "ReadFull 4 c = (c1, r)" by fastforce
  have t1: "cnTx c1 = cnTx c" "cnTxErr c1 = None" using 1 assms(2) by simp_all
  show ?thesis
  proof (cases r)
    case (Inl x)
    then show ?thesis using assms(1) 1 t1 by (auto simp: read_request_def)
  next
    case (Inr req)
    obtain c2 a where 2: "read_address (req ! 3) c1 = (c2, a)" by fastforce
    note t2 = read_address_tx [OF 2 t1(2)]
    obtain c3 p where 3: "ReadFull 2 c2 = (c3, p)" by fastforce
    show ?thesis
      using assms(1) 1 Inr 2 t2 3 t1 ReadFull_txD [OF 3]
      by (auto simp: read_request_def SendFailure_def conn_Write_ok split: if_splits sum.splits)
  qed
qed

lemma Handshake_refusal:
  assumes "Handshake c = (c', Inl e)" and "cnTxErr c = None"
  shows "cnTx c' = cnTx c @ error_reply e"
proof -
  obtain c1 r where 1: "ReadFull 2 c = (c1, r)" by fastforce
  have t1: "cnTx c1 = cnTx c" "cnTxErr c1 = None" using 1 assms(2) by simp_all
  show ?thesis
  proof (cases r)
    case (Inl x)
    then show ?thesis using assms(1) 1 t1 by (auto simp: Handshake_def)
  next
    case (Inr header)
    obtain c2 m where 2: "ReadFull (unat (header ! 1)) c1 = (c2, m)" by fastforce
    have t2: "cnTx c2 = cnTx c" "cnTxErr c2 = None" using ReadFull_txD [OF 2] t1 by simp_all
    let ?c3 = "c2\<lparr>cnTx := cnTx c2 @ [Version5, AuthNone]\<rparr>"
    have req: "read_request ?c3 = (c', Inl e) \<Longrightarrow> cnTx c' = cnTx c @ error_reply e"
      using read_request_tx [of ?c3 c' e] t2 append_take_drop_id [of 2 "error_reply e"] by auto
    show ?thesis
      using assms(1) 1 Inr 2 t1 t2 req
      by (auto simp: Handshake_def conn_Write_ok split: if_splits sum.splits)
  qed
qed

section \<open>Main properties\<close>

text \<open>C30. The handshake accepts exactly a greeting that offers no authentication followed by a connect request of one of the three address types; it consumes those bytes and no more, answers with the two bytes of the method choice, and returns the requested target.\<close>

theorem socks_accepts:
  "Handshake c = (c', Inr target) \<longleftrightarrow>
     cnTxErr c = None \<and>
     (\<exists>methods rsv a port rest. length methods < 256 \<and> 0x00 \<in> set methods \<and> addr_ok a
        \<and> cnRx c = greeting methods @ connect_request rsv a port @ rest
        \<and> c' = c\<lparr>cnRx := rest, cnTx := cnTx c @ [0x05, 0x00]\<rparr>
        \<and> target = JoinHostPort (addr_host a) (show_nat (unat port)))"
  using Handshake_iff [of c c' target] unfolding target_of_def AuthNone_def Version5_def .

end
