(* ===== verification/Client.thy ===== *)
theory Client
  imports Device Socks5
begin

text \<open>
  The client side: \<open>internal/client/client.go\<close> and \<open>client_shell.go\<close>. A client is a node with the
  device it talks to and two tables of channels of capacity one: those that wait for the answer
  to an open or a ping, and those that wait for the close of a session. An empty channel is
  \<open>Some None\<close>, one that holds a message \<open>Some (Some msg)\<close>.

  A call that waits (\<open>sendOpen\<close>, \<open>sendPing\<close>) is two operations, before and after the \<open>select\<close>, so
  that other handlers can run in between; what the \<open>select\<close> picks is an argument.
\<close>

section \<open>State\<close>

record client = node +
  clID :: string
  clAckChans :: "string \<Rightarrow> ControlMessage option option"
  clCloseChs :: "string \<Rightarrow> ControlMessage option option"

definition New_client :: "string \<Rightarrow> client" where
  "New_client deviceID = \<lparr>ndHeap = Map.empty, ndNext = 0, ndManager = NewSessionManager, ndOut = [],
     clID = deviceID, clAckChans = Map.empty, clCloseChs = Map.empty\<rparr>"

definition registerCloseCh :: "string \<Rightarrow> client \<Rightarrow> client" where
  "registerCloseCh i c = c\<lparr>clCloseChs := (clCloseChs c)(i \<mapsto> None)\<rparr>"

definition unregisterCloseCh :: "string \<Rightarrow> client \<Rightarrow> client" where
  "unregisterCloseCh i c = c\<lparr>clCloseChs := (clCloseChs c)(i := None)\<rparr>"

text \<open>A send that does not block: it is dropped when nobody made the channel or it is full.\<close>

definition offer :: "string \<Rightarrow> 'm \<Rightarrow> (string \<Rightarrow> 'm option option) \<Rightarrow> string \<Rightarrow> 'm option option" where
  "offer i msg chans = (case chans i of
     Some None \<Rightarrow> chans(i \<mapsto> Some msg)
   | _ \<Rightarrow> chans)"

section \<open>Handlers\<close>

definition client_handleControl :: "time \<Rightarrow> payload \<Rightarrow> client \<Rightarrow> client" where
  "client_handleControl now p c =
     (case payload_json p of
        None \<Rightarrow> c
      | Some j \<Rightarrow> (case Unmarshal j of
          None \<Rightarrow> c
        | Some msg \<Rightarrow>
            (let i = cmSessionID msg in
             if cmType msg = MessageTypeOpenAck \<or> cmType msg = MessageTypePong then
               c\<lparr>clAckChans := offer i msg (clAckChans c)\<rparr>
             else if cmType msg = MessageTypeClose then
               (if clCloseChs c i \<noteq> None then c\<lparr>clCloseChs := offer i msg (clCloseChs c)\<rparr>
                else (case mgr_get i c of
                    None \<Rightarrow> c
                  | Some r \<Rightarrow> mgr_remove i (close_ref r c)))
             else if cmType msg = MessageTypeAck then
               (case mgr_get i c of
                  None \<Rightarrow> c
                | Some r \<Rightarrow> update_ref r (session_ack (cmAckBytes msg)) (mgr_touch now i c))
             else c)))"

definition client_handleData :: "time \<Rightarrow> string \<Rightarrow> byte list \<Rightarrow> client \<Rightarrow> client" where
  "client_handleData now topic frame c =
     (case ParseTopic topic of
        Inl err \<Rightarrow> c
      | Inr parsed \<Rightarrow> (case mgr_get (ptSessionID parsed) c of
          None \<Rightarrow> c
        | Some r \<Rightarrow>
            (let c1 = mgr_touch now (ptSessionID parsed) c in
             case DecodeDataFrame frame of
               Inl err \<Rightarrow> c1
             | Inr (seq, data) \<Rightarrow> update_ref r (HandleData seq data) c1)))"

section \<open>Subscriptions\<close>

text \<open>
  Calls that may fail, made one after the other: the calls that were made, and the error of the
  last one if it failed.
\<close>

fun attempts :: "('a \<times> string option) list \<Rightarrow> 'a list \<times> string option" where
  "attempts [] = ([], None)"
| "attempts ((a, Some e) # calls) = ([a], Some e)"
| "attempts ((a, None) # calls) = (case attempts calls of (done, r) \<Rightarrow> (a # done, r))"

lemma attempts_iff: "snd (attempts calls) = None \<longleftrightarrow> (\<forall>c \<in> set calls. snd c = None)"
  by (induction calls rule: attempts.induct) (auto split: prod.split)

lemma attempts_all: "snd (attempts calls) = None \<Longrightarrow> fst (attempts calls) = map fst calls"
  by (induction calls rule: attempts.induct) (auto split: prod.splits)

lemma attempts_error: "snd (attempts calls) = Some e \<Longrightarrow> \<exists>a. (a, Some e) \<in> set calls"
  by (induction calls rule: attempts.induct) (auto split: prod.splits)

text \<open>The transport's answers: to registering a handler and to the subscription of all filters.\<close>

record subscriber =
  sbSubscribe :: "string \<Rightarrow> string option"
  sbSubscribeAll :: "string option"

datatype subscription = Filter string | AllFilters

definition wrap :: "string \<Rightarrow> string option \<Rightarrow> string option" where
  "wrap what err = map_option (\<lambda>e. what @ '': '' @ e) err"

definition client_subscribe :: "subscriber \<Rightarrow> client \<Rightarrow> subscription list \<times> string option" where
  "client_subscribe sb c = attempts
     [(Filter (OutControlFilter (clID c)), wrap ''subscribe control'' (sbSubscribe sb (OutControlFilter (clID c)))),
      (Filter (OutDataFilter (clID c)), wrap ''subscribe data'' (sbSubscribe sb (OutDataFilter (clID c)))),
      (AllFilters, wrap ''subscribe all'' (sbSubscribeAll sb))]"

section \<open>Requests\<close>

record openRequest =
  orSessionID :: string
  orMode :: string
  orTarget :: string
  orCommand :: string
  orCols :: u16
  orRows :: u16
  orTimeout :: int

definition open_msg :: "openRequest \<Rightarrow> ControlMessage" where
  "open_msg req = zeroMessage\<lparr>cmType := MessageTypeOpen, cmSessionID := orSessionID req, cmMode := orMode req,
     cmTarget := orTarget req, cmCommand := orCommand req, cmCols := orCols req, cmRows := orRows req,
     cmTimeout := orTimeout req\<rparr>"

definition tcp_request :: "string \<Rightarrow> string \<Rightarrow> openRequest" where
  "tcp_request i target = \<lparr>orSessionID = i, orMode = SessionModeTCP, orTarget = target, orCommand = [],
     orCols = 0, orRows = 0, orTimeout = 0\<rparr>"

text \<open>What a \<open>select\<close> on the context, a timer and an answer channel picks.\<close>

datatype wait_choice = CtxEnds string | TimeoutFires | Answered

definition del_ack_chan :: "string \<Rightarrow> client \<Rightarrow> client" where
  "del_ack_chan i c = c\<lparr>clAckChans := (clAckChans c)(i := None)\<rparr>"

text \<open>
  Registering the channel and publishing; an error of the publish (\<open>pubErr\<close>) ends the call, with
  its \<open>defer\<close>.
\<close>

definition request_begin :: "string \<Rightarrow> PubMessage \<Rightarrow> string option \<Rightarrow> client \<Rightarrow> client \<times> string option" where
  "request_begin i msg pubErr c =
     (let c1 = c\<lparr>clAckChans := (clAckChans c)(i \<mapsto> None)\<rparr> in
      case pubErr of
        Some e \<Rightarrow> (del_ack_chan i c1, Some e)
      | None \<Rightarrow> (emit [msg] c1, None))"

text \<open>The end of the wait: nothing happens as long as the channel is empty and only it is picked.\<close>

definition request_end :: "string \<Rightarrow> string \<Rightarrow> wait_choice \<Rightarrow> client \<Rightarrow> (client \<times> (string + ControlMessage)) option" where
  "request_end i timeoutText ch c =
     (case ch of
        CtxEnds e \<Rightarrow> Some (del_ack_chan i c, Inl e)
      | TimeoutFires \<Rightarrow> Some (del_ack_chan i c, Inl timeoutText)
      | Answered \<Rightarrow> (case clAckChans c i of
          Some (Some msg) \<Rightarrow> Some (del_ack_chan i c, Inr msg)
        | _ \<Rightarrow> None))"

definition sendOpen_begin :: "openRequest \<Rightarrow> string option \<Rightarrow> client \<Rightarrow> client \<times> string option" where
  "sendOpen_begin req pubErr c =
     request_begin (orSessionID req)
       (control_pub (InControlTopic (clID c)) 1 (OutControlTopic (clID c)) (open_msg req)) pubErr c"

definition sendOpen_end :: "string \<Rightarrow> wait_choice \<Rightarrow> client \<Rightarrow> (client \<times> (string + ControlMessage)) option" where
  "sendOpen_end i ch c = request_end i (''open ack timeout for session '' @ i) ch c"

definition ping_msg :: "string \<Rightarrow> int \<Rightarrow> ControlMessage" where
  "ping_msg i ts = zeroMessage\<lparr>cmType := MessageTypePing, cmSessionID := i, cmTimestamp := ts\<rparr>"

definition sendPing_begin :: "string \<Rightarrow> int \<Rightarrow> string option \<Rightarrow> client \<Rightarrow> client \<times> string option" where
  "sendPing_begin i ts pubErr c =
     request_begin i (control_pub (InControlTopic (clID c)) 0 (OutControlTopic (clID c)) (ping_msg i ts)) pubErr c"

text \<open>The round trip time is measured on the client's clock.\<close>

definition sendPing_end :: "string \<Rightarrow> time \<Rightarrow> time \<Rightarrow> wait_choice \<Rightarrow> client \<Rightarrow> (client \<times> (string + time)) option" where
  "sendPing_end i ts now ch c = (case request_end i ''ping timeout'' ch c of
     None \<Rightarrow> None
   | Some (c1, Inl e) \<Rightarrow> Some (c1, Inl e)
   | Some (c1, Inr msg) \<Rightarrow> Some (c1, Inr (now - ts)))"

definition sendKeepalivePing_begin :: "string \<Rightarrow> int \<Rightarrow> string option \<Rightarrow> client \<Rightarrow> client \<times> string option" where
  "sendKeepalivePing_begin i ts pubErr c =
     request_begin i (control_pub (InControlTopic (clID c)) 0 (OutControlTopic (clID c)) (ping_msg i ts)) pubErr c"

definition sendKeepalivePing_end :: "string \<Rightarrow> wait_choice \<Rightarrow> client \<Rightarrow> (client \<times> string option) option" where
  "sendKeepalivePing_end i ch c = (case request_end i ''keepalive ping timeout'' ch c of
     None \<Rightarrow> None
   | Some (c1, Inl e) \<Rightarrow> Some (c1, Some e)
   | Some (c1, Inr msg) \<Rightarrow> Some (c1, None))"

definition sendResize :: "string \<Rightarrow> u16 \<Rightarrow> u16 \<Rightarrow> client \<Rightarrow> client" where
  "sendResize i cols rows c = emit [control_pub (InControlTopic (clID c)) 1 []
     (zeroMessage\<lparr>cmType := MessageTypeResize, cmSessionID := i, cmCols := cols, cmRows := rows\<rparr>)] c"

definition client_sendClose :: "string \<Rightarrow> client \<Rightarrow> client" where
  "client_sendClose i c = emit [control_pub (InControlTopic (clID c)) 1 [] (close_msg i None [])] c"

definition client_sendAck :: "string \<Rightarrow> u64 \<Rightarrow> client \<Rightarrow> client" where
  "client_sendAck i bytes c = emit [control_pub (InControlTopic (clID c)) 1 [] (ack_msg i bytes)] c"

section \<open>A forwarded connection\<close>

text \<open>\<open>conn.Close()\<close> on the connection of a session the client gives up.\<close>

definition drop_conn :: "nat \<Rightarrow> client \<Rightarrow> client" where
  "drop_conn r c = update_ref r (\<lambda>s. s\<lparr>ssConn := ResourceClosed\<rparr>) c"

definition give_up :: "string \<Rightarrow> nat \<Rightarrow> client \<Rightarrow> client" where
  "give_up i r c = drop_conn r (mgr_remove i c)"

definition handleTCPConn_begin :: "time \<Rightarrow> string \<Rightarrow> string \<Rightarrow> string option \<Rightarrow> client \<Rightarrow> client \<times> nat option" where
  "handleTCPConn_begin now i target pubErr c =
     (let s = SetOnClose (NewTCPSession i (InControlTopic (clID c)) (InDataTopic (clID c) i)) in
      case alloc s c of (r, c1) \<Rightarrow>
        (case Add now i r (ndManager c1) of
           Inl err \<Rightarrow> (drop_conn r c1, None)
         | Inr m \<Rightarrow>
             (case sendOpen_begin (tcp_request i target) pubErr (c1\<lparr>ndManager := m\<rparr>) of
                (c2, Some e) \<Rightarrow> (give_up i r c2, None)
              | (c2, None) \<Rightarrow> (c2, Some r))))"

definition start_ref :: "string \<Rightarrow> nat \<Rightarrow> client \<Rightarrow> client" where
  "start_ref i r c = (case ndHeap c r of
     None \<Rightarrow> c
   | Some s \<Rightarrow> (case session_start ShellStarted s of
        (s1, None) \<Rightarrow> update_ref r (\<lambda>_. s1) c
      | (s1, Some e) \<Rightarrow> give_up i r (update_ref r (\<lambda>_. s1) c)))"

definition handleTCPConn_end :: "string \<Rightarrow> nat \<Rightarrow> wait_choice \<Rightarrow> client \<Rightarrow> client option" where
  "handleTCPConn_end i r ch c = (case sendOpen_end i ch c of
     None \<Rightarrow> None
   | Some (c1, Inl err) \<Rightarrow> Some (give_up i r c1)
   | Some (c1, Inr ack) \<Rightarrow>
       if \<not> cmSuccess ack then Some (give_up i r c1) else Some (start_ref i r c1))"

text \<open>
  The same for a SOCKS5 client, whose connection \<open>cn\<close> is first asked for its target, and told how
  the open went.
\<close>

definition handleSOCKS5Conn_begin :: "time \<Rightarrow> string \<Rightarrow> string option \<Rightarrow> conn \<Rightarrow> client
    \<Rightarrow> client \<times> conn \<times> nat option" where
  "handleSOCKS5Conn_begin now i pubErr cn c =
     (case Handshake cn of
        (cn1, Inl err) \<Rightarrow> (c, cn1, None)
      | (cn1, Inr target) \<Rightarrow>
          (let s = SetOnClose (NewTCPSession i (InControlTopic (clID c)) (InDataTopic (clID c) i)) in
           case alloc s c of (r, c1) \<Rightarrow>
             (case Add now i r (ndManager c1) of
                Inl err \<Rightarrow> (drop_conn r c1, fst (SendFailure ReplyGeneralFailure cn1), None)
              | Inr m \<Rightarrow>
                  (case sendOpen_begin (tcp_request i target) pubErr (c1\<lparr>ndManager := m\<rparr>) of
                     (c2, Some e) \<Rightarrow> (give_up i r c2, fst (SendFailure ReplyGeneralFailure cn1), None)
                   | (c2, None) \<Rightarrow> (c2, cn1, Some r)))))"

definition handleSOCKS5Conn_end :: "string \<Rightarrow> nat \<Rightarrow> wait_choice \<Rightarrow> conn \<Rightarrow> client \<Rightarrow> (client \<times> conn) option" where
  "handleSOCKS5Conn_end i r ch cn c = (case sendOpen_end i ch c of
     None \<Rightarrow> None
   | Some (c1, Inl err) \<Rightarrow> Some (give_up i r c1, fst (SendFailure ReplyGeneralFailure cn))
   | Some (c1, Inr ack) \<Rightarrow>
       if \<not> cmSuccess ack then Some (give_up i r c1, fst (SendFailure ReplyConnectionRefused cn))
       else (case SendSuccess NoBind cn of
           (cn1, Some e) \<Rightarrow> Some (give_up i r c1, cn1)
         | (cn1, None) \<Rightarrow> Some (start_ref i r c1, cn1)))"

section \<open>Answers to requests\<close>

lemma client_fields [node_simps]:
  "clID (emit ms c) = clID c" "clAckChans (emit ms c) = clAckChans c" "clCloseChs (emit ms c) = clCloseChs c"
  "clAckChans (mgr_remove i c) = clAckChans c" "clCloseChs (mgr_remove i c) = clCloseChs c"
  "clAckChans (mgr_touch t i c) = clAckChans c" "clCloseChs (mgr_touch t i c) = clCloseChs c"
  "clAckChans (update_ref r f c) = clAckChans c" "clCloseChs (update_ref r f c) = clCloseChs c"
  "clAckChans (close_ref r c) = clAckChans c" "clCloseChs (close_ref r c) = clCloseChs c"
  by (simp_all add: emit_def mgr_remove_def mgr_touch_def update_ref_def close_ref_def
      split: option.split prod.split)

text \<open>The messages that answer a request with id \<open>i\<close>.\<close>

definition answers :: "string \<Rightarrow> payload \<Rightarrow> ControlMessage option" where
  "answers i p = (case payload_json p of
     None \<Rightarrow> None
   | Some j \<Rightarrow> (case Unmarshal j of
       None \<Rightarrow> None
     | Some msg \<Rightarrow>
         if (cmType msg = MessageTypeOpenAck \<or> cmType msg = MessageTypePong) \<and> cmSessionID msg = i
         then Some msg else None))"

lemma handleControl_ack_chan:
  "clAckChans (client_handleControl now p c) i =
     (case (clAckChans c i, answers i p) of
        (Some None, Some msg) \<Rightarrow> Some (Some msg)
      | _ \<Rightarrow> clAckChans c i)"
  by (auto simp: client_handleControl_def answers_def offer_def Let_def node_simps message_type_defs
      split: option.splits)

lemma handleData_ack_chan: "clAckChans (client_handleData now t f c) = clAckChans c"
  by (auto simp: client_handleData_def Let_def node_simps split: sum.split option.split)

fun first_some :: "('a \<Rightarrow> 'b option) \<Rightarrow> 'a list \<Rightarrow> 'b option" where
  "first_some f [] = None"
| "first_some f (x # xs) = (case f x of None \<Rightarrow> first_some f xs | Some y \<Rightarrow> Some y)"

definition handle_all :: "(time \<times> payload) list \<Rightarrow> client \<Rightarrow> client" where
  "handle_all ps c = foldl (\<lambda>c (t, p). client_handleControl t p c) c ps"

lemma handle_all_full: "clAckChans c i = Some (Some msg) \<Longrightarrow> clAckChans (handle_all ps c) i = Some (Some msg)"
  unfolding handle_all_def
  by (induction ps arbitrary: c) (auto simp: handleControl_ack_chan split: option.split)

text \<open>The first answer that arrives while the request waits is the one it gets.\<close>

lemma handle_all_first:
  "clAckChans c i = Some None \<Longrightarrow> clAckChans (handle_all ps c) i = Some (first_some (\<lambda>(t, p). answers i p) ps)"
proof (induction ps arbitrary: c)
  case Nil
  then show ?case by (simp add: handle_all_def)
next
  case (Cons x ps)
  obtain t p where x: "x = (t, p)" by (cases x)
  have step: "handle_all (x # ps) c = handle_all ps (client_handleControl t p c)"
    by (simp add: handle_all_def x)
  have ch: "clAckChans (client_handleControl t p c) i = Some (answers i p)"
    using Cons.prems by (simp add: handleControl_ack_chan split: option.split)
  show ?case
  proof (cases "answers i p")
    case None
    with ch have "clAckChans (client_handleControl t p c) i = Some None" by simp
    from Cons.IH [OF this] show ?thesis using step None x by simp
  next
    case (Some msg)
    with ch have "clAckChans (client_handleControl t p c) i = Some (Some msg)" by simp
    from handle_all_full [OF this] show ?thesis using step Some x by simp
  qed
qed

lemma request_answer:
  assumes "request_begin i msg None c = (c1, None)"
  shows "request_end i tx Answered (handle_all ps c1) =
    (case first_some (\<lambda>(t, p). answers i p) ps of
       None \<Rightarrow> None
     | Some m \<Rightarrow> Some (del_ack_chan i (handle_all ps c1), Inr m))"
proof -
  have "clAckChans c1 i = Some None" using assms by (auto simp: request_begin_def node_simps)
  from handle_all_first [OF this, of ps] show ?thesis by (simp add: request_end_def split: option.split)
qed

text \<open>Whatever ends the wait, the channel is gone.\<close>

lemma request_end_clean: "request_end i tx ch c = Some (c1, r) \<Longrightarrow> clAckChans c1 i = None"
  by (auto simp: request_end_def del_ack_chan_def split: wait_choice.splits option.splits)

lemma request_end_other: "request_end i tx ch c = Some (c1, r) \<Longrightarrow> c1 = del_ack_chan i c"
  by (auto simp: request_end_def split: wait_choice.splits option.splits)

section \<open>A connection opens or is dropped\<close>

definition tcp_refused :: "string \<Rightarrow> nat \<Rightarrow> client \<Rightarrow> bool" where
  "tcp_refused i r c \<longleftrightarrow> mgr_get i c = None \<and> (\<exists>s. ndHeap c r = Some s \<and> ssConn s = ResourceClosed)"

definition tcp_running :: "string \<Rightarrow> nat \<Rightarrow> client \<Rightarrow> bool" where
  "tcp_running i r c \<longleftrightarrow> mgr_get i c = Some r \<and>
     (\<exists>s. ndHeap c r = Some s \<and> ssStarted s \<and> ssConn s = ResourceOpen \<and> \<not> ssClosed s)"

lemma del_ack_node [node_simps]:
  "ndHeap (del_ack_chan i c) = ndHeap c" "ndManager (del_ack_chan i c) = ndManager c"
  "ndOut (del_ack_chan i c) = ndOut c" "ndNext (del_ack_chan i c) = ndNext c"
  by (simp_all add: del_ack_chan_def)

lemma give_up_refused: "ndHeap c r = Some s \<Longrightarrow> tcp_refused i r (give_up i r c)"
  by (simp add: tcp_refused_def give_up_def drop_conn_def node_simps)

lemma start_ref_tcp:
  assumes "ndHeap c r = Some s" and "ssKind s = KTCP"
  shows "start_ref i r c = update_ref r (\<lambda>_. s\<lparr>ssStarted := True\<rparr>) c"
  using assms by (simp add: start_ref_def session_start_def)

lemma handleTCPConn_end_cases:
  assumes "handleTCPConn_end i r ch c = Some c'"
    and "mgr_get i c = Some r" and "ndHeap c r = Some s" and "ssKind s = KTCP" and "ssConn s = ResourceOpen"
    and "\<not> ssClosed s"
  shows "tcp_refused i r c' \<or> tcp_running i r c'" and "clAckChans c' i = None"
    and "tcp_running i r c' \<longleftrightarrow> (\<exists>m. ch = Answered \<and> clAckChans c i = Some (Some m) \<and> cmSuccess m)"
proof -
  obtain c1 res where w: "sendOpen_end i ch c = Some (c1, res)"
    using assms(1) by (auto simp: handleTCPConn_end_def split: option.splits)
  have c1: "c1 = del_ack_chan i c" using w by (auto simp: sendOpen_end_def dest: request_end_other)
  have h: "ndHeap c1 r = Some s" using assms(3) by (simp add: c1 node_simps)
  let ?acc = "\<exists>m. ch = Answered \<and> clAckChans c i = Some (Some m) \<and> cmSuccess m"
  have acc: "?acc \<longleftrightarrow> (\<exists>m. res = Inr m \<and> cmSuccess m)"
    using w by (auto simp: sendOpen_end_def request_end_def split: wait_choice.splits option.splits)
  have c': "c' = (if ?acc then update_ref r (\<lambda>_. s\<lparr>ssStarted := True\<rparr>) c1 else give_up i r c1)"
    using assms(1) w acc start_ref_tcp [OF h assms(4)]
    by (auto simp: handleTCPConn_end_def split: sum.splits if_splits)
  have chan: "clAckChans c1 i = None" by (simp add: c1 del_ack_chan_def)
  show "clAckChans c' i = None"
    using chan by (auto simp: c' give_up_def drop_conn_def node_simps)
  have run: "tcp_running i r c'" if ?acc
    using that h assms c' by (auto simp: tcp_running_def c1 node_simps)
  have ref: "tcp_refused i r c'" if "\<not> ?acc"
    unfolding c' if_not_P [OF that] by (rule give_up_refused [OF h])
  show "tcp_refused i r c' \<or> tcp_running i r c'" using run ref by blast
  have "tcp_refused i r c' \<Longrightarrow> \<not> tcp_running i r c'"
    by (simp add: tcp_running_def tcp_refused_def)
  then show "tcp_running i r c' \<longleftrightarrow> ?acc" using run ref by blast
qed

section \<open>Main properties\<close>

text \<open>A client that waits for the answer to one open request.\<close>

definition waiting_client :: client where
  "waiting_client = (New_client ''dev'')\<lparr>ndHeap := Map.empty(0 \<mapsto> NewTCPSession ''a'' [] []), ndNext := 1,
     ndManager := \<lparr>smSessions = Map.empty(''a'' \<mapsto> 0), smLastSeen = Map.empty(''a'' \<mapsto> 0)\<rparr>,
     clAckChans := Map.empty(''a'' \<mapsto> None)\<rparr>"

text \<open>C27. Of all the messages that arrive while a request waits, it is answered by the first acknowledgement or pong for its id and by nothing else; without one it keeps waiting. When it ends, its channel is gone.\<close>

theorem request_first_answer:
  assumes "request_begin i msg None c = (c1, None)"
  shows "request_end i tx Answered (handle_all ps c1) =
    (case first_some (\<lambda>(t, p). answers i p) ps of
       None \<Rightarrow> None
     | Some m \<Rightarrow> Some (del_ack_chan i (handle_all ps c1), Inr m))"
  using assms by (rule request_answer)

theorem request_first_answer_witness:
  "\<exists>c. request_end ''a'' [] Answered (handle_all [(0, PJson (Marshal (zeroMessage\<lparr>cmType := MessageTypePong, cmSessionID := ''a''\<rparr>)))]
      (fst (request_begin ''a'' (control_pub [] 0 [] zeroMessage) None (New_client ''dev''))))
     = Some (c, Inr (zeroMessage\<lparr>cmType := MessageTypePong, cmSessionID := ''a''\<rparr>))"
proof -
  let ?m = "zeroMessage\<lparr>cmType := MessageTypePong, cmSessionID := ''a''\<rparr>"
  have ok: "wire_ok ?m" by (simp add: wire_ok_def msg_ok_def msg_utf8_def zeroMessage_def int64_ok_def message_type_defs)
  then have a: "answers ''a'' (PJson (Marshal ?m)) = Some ?m"
    using Unmarshal_Marshal [of ?m] by (simp add: answers_def payload_json_def json_parse_Marshal wire_ok_def)
  obtain c1 where c1: "request_begin ''a'' (control_pub [] 0 [] zeroMessage) None (New_client ''dev'') = (c1, None)"
    by (simp add: request_begin_def)
  show ?thesis unfolding c1 using request_first_answer [OF c1] by (simp add: a)
qed

text \<open>C28. A forwarded connection ends up in one of two states: running and registered, exactly when the device acknowledged the open with success; or dropped, its entry removed and its connection closed. No answer channel is left behind.\<close>

theorem tcp_open_outcome:
  assumes "handleTCPConn_end i r ch c = Some c'" and "mgr_get i c = Some r" and "ndHeap c r = Some s"
    and "ssKind s = KTCP" and "ssConn s = ResourceOpen" and "\<not> ssClosed s"
  shows "clAckChans c' i = None \<and>
     (if \<exists>m. ch = Answered \<and> clAckChans c i = Some (Some m) \<and> cmSuccess m
      then mgr_get i c' = Some r \<and> (\<exists>s'. ndHeap c' r = Some s' \<and> ssStarted s' \<and> ssConn s' = ResourceOpen \<and> \<not> ssClosed s')
      else mgr_get i c' = None \<and> (\<exists>s'. ndHeap c' r = Some s' \<and> ssConn s' = ResourceClosed))"
  using handleTCPConn_end_cases [OF assms] unfolding tcp_running_def tcp_refused_def by metis

theorem tcp_open_outcome_witness:
  "\<exists>c'. handleTCPConn_end ''a'' 0 TimeoutFires waiting_client = Some c' \<and> mgr_get ''a'' c' = None"
proof -
  obtain c' where c': "handleTCPConn_end ''a'' 0 TimeoutFires waiting_client = Some c'"
    by (simp add: handleTCPConn_end_def sendOpen_end_def request_end_def)
  have "mgr_get ''a'' waiting_client = Some 0" "ndHeap waiting_client 0 = Some (NewTCPSession ''a'' [] [])"
    by (simp_all add: waiting_client_def mgr_get_eq)
  from tcp_open_outcome [OF c' this] c' show ?thesis by (auto simp: new_session_defs)
qed

end
