(* ===== verification/ClientRuns.thy ===== *)
theory ClientRuns
  imports Client
begin

text \<open>
  The loops of the client that talk to its user (\<open>internal/client/client.go\<close> and
  \<open>client_shell.go\<close>): a remote command, a remote shell, the ping command, and the
  start of the TCP forwards. A loop over a \<open>select\<close> is a function of the list of
  what the \<open>select\<close> receives, one after the other; the result \<open>None\<close> says that it still waits.
\<close>

section \<open>Output of a session\<close>

text \<open>
  The writer's answer to each write (bytes written, error) and the transport's answer to each
  acknowledgement are functions; the output holds the bytes accepted and the messages published.
\<close>

record exec_out =
  eoAck :: sessionAckState
  eoBytes :: "byte list"
  eoSent :: "PubMessage list"

record exec_io =
  ioWrite :: "byte list \<Rightarrow> nat \<times> string option"
  ioPublish :: "PubMessage \<Rightarrow> string option"
  ioDevice :: string
  ioSession :: string

definition new_exec_out :: exec_out where
  "new_exec_out = \<lparr>eoAck = newSessionAckState, eoBytes = [], eoSent = []\<rparr>"

definition ErrShortWrite :: string where "ErrShortWrite = ''short write''"

definition ack_pub :: "exec_io \<Rightarrow> u64 \<Rightarrow> PubMessage" where
  "ack_pub io a = control_pub (InControlTopic (ioDevice io)) 1 [] (ack_msg (ioSession io) a)"

definition writeSessionData :: "exec_io \<Rightarrow> byte list \<Rightarrow> exec_out \<Rightarrow> exec_out \<times> string option" where
  "writeSessionData io data st =
     (if length data = 0 then (st, None)
      else case ioWrite io data of (n, err) \<Rightarrow>
        (let st1 = st\<lparr>eoBytes := eoBytes st @ take n data\<rparr> in
         case err of
           Some e \<Rightarrow> (st1, Some e)
         | None \<Rightarrow>
             if n < length data then (st1, Some ErrShortWrite)
             else (case ackState_record (length data) (eoAck st1) of
                 (a, None) \<Rightarrow> (st1\<lparr>eoAck := a\<rparr>, None)
               | (a, Some ackBytes) \<Rightarrow>
                   (st1\<lparr>eoAck := a, eoSent := eoSent st1 @ [ack_pub io ackBytes]\<rparr>,
                    ioPublish io (ack_pub io ackBytes)))))"

section \<open>A remote command\<close>

datatype exec_input = CtxCancelled | OutData "byte list" | DataChClosed | CloseArrives ControlMessage
  | TimerFires | SessionDone

definition execCloseResult :: "ControlMessage \<Rightarrow> int \<times> string option" where
  "execCloseResult m =
     (case cmExitCode m of
        Some code \<Rightarrow> (code, None)
      | None \<Rightarrow> if cmError m \<noteq> [] then (1, Some (''remote error: '' @ cmError m)) else (0, None))"

text \<open>
  \<open>drainSessionData\<close>: until the timer fires or the channel is closed. Inputs of the other channels
  are not listened to here.
\<close>

fun drainSessionData :: "exec_io \<Rightarrow> exec_input list \<Rightarrow> exec_out \<Rightarrow> exec_out \<times> (string option) option" where
  "drainSessionData io [] st = (st, None)"
| "drainSessionData io (OutData d # ins) st =
     (case writeSessionData io d st of
        (st1, Some e) \<Rightarrow> (st1, Some (Some e))
      | (st1, None) \<Rightarrow> drainSessionData io ins st1)"
| "drainSessionData io (DataChClosed # ins) st = (st, Some None)"
| "drainSessionData io (TimerFires # ins) st = (st, Some None)"
| "drainSessionData io (_ # ins) st = drainSessionData io ins st"

type_synonym exec_result = "(int \<times> string option) option"

definition after_drain :: "exec_out \<times> (string option) option \<Rightarrow> int \<times> string option \<Rightarrow> exec_out \<times> exec_result" where
  "after_drain d result = (case d of
     (st, None) \<Rightarrow> (st, None)
   | (st, Some (Some e)) \<Rightarrow> (st, Some (1, Some e))
   | (st, Some None) \<Rightarrow> (st, Some result))"

fun waitExecCloseAfterCancel :: "exec_io \<Rightarrow> exec_input list \<Rightarrow> exec_out \<Rightarrow> exec_out \<times> exec_result" where
  "waitExecCloseAfterCancel io [] st = (st, None)"
| "waitExecCloseAfterCancel io (OutData d # ins) st =
     (case writeSessionData io d st of
        (st1, Some e) \<Rightarrow> (st1, Some (1, Some e))
      | (st1, None) \<Rightarrow> waitExecCloseAfterCancel io ins st1)"
| "waitExecCloseAfterCancel io (DataChClosed # ins) st = (st, Some (130, None))"
| "waitExecCloseAfterCancel io (CloseArrives m # ins) st =
     after_drain (drainSessionData io ins st)
       (case cmExitCode m of Some code \<Rightarrow> (code, None) | None \<Rightarrow> (0, None))"
| "waitExecCloseAfterCancel io (TimerFires # ins) st = (st, Some (130, None))"
| "waitExecCloseAfterCancel io (_ # ins) st = waitExecCloseAfterCancel io ins st"

definition close_pub :: "exec_io \<Rightarrow> PubMessage" where
  "close_pub io = control_pub (InControlTopic (ioDevice io)) 1 [] (close_msg (ioSession io) None [])"

text \<open>The loop of \<open>RunExec\<close> after a successful open.\<close>

fun RunExec_loop :: "exec_io \<Rightarrow> exec_input list \<Rightarrow> exec_out \<Rightarrow> exec_out \<times> exec_result" where
  "RunExec_loop io [] st = (st, None)"
| "RunExec_loop io (CtxCancelled # ins) st =
     waitExecCloseAfterCancel io ins (st\<lparr>eoSent := eoSent st @ [close_pub io]\<rparr>)"
| "RunExec_loop io (OutData d # ins) st =
     (case writeSessionData io d st of
        (st1, Some e) \<Rightarrow> (st1, Some (1, Some e))
      | (st1, None) \<Rightarrow> RunExec_loop io ins st1)"
| "RunExec_loop io (DataChClosed # ins) st = (st, Some (0, None))"
| "RunExec_loop io (CloseArrives m # ins) st =
     after_drain (drainSessionData io ins st) (execCloseResult m)"
| "RunExec_loop io (_ # ins) st = RunExec_loop io ins st"

text \<open>
  \<open>RunExec\<close> from the answer to the open request on. \<open>opened\<close> is what \<open>sendOpen\<close> returned.
\<close>

definition RunExec_opened :: "exec_io \<Rightarrow> string + ControlMessage \<Rightarrow> exec_input list \<Rightarrow> exec_out \<times> exec_result" where
  "RunExec_opened io opened ins = (case opened of
     Inl err \<Rightarrow> (new_exec_out, Some (1, Some (''open exec session: '' @ err)))
   | Inr ack \<Rightarrow>
       if \<not> cmSuccess ack
       then (new_exec_out, Some (1, Some (''device rejected exec session: '' @ cmError ack)))
       else RunExec_loop io ins new_exec_out)"

text \<open>
  The part of \<open>RunExec\<close> before the request is answered, and its \<open>defer\<close>s. \<open>remaining\<close> is the time
  to the context's deadline; \<open>int(d.Seconds())\<close> truncates a float64, which for the durations in
  question is the quotient truncated towards zero.
\<close>

definition exec_timeout :: "time option \<Rightarrow> int" where
  "exec_timeout remaining = (case remaining of
     None \<Rightarrow> 0
   | Some d \<Rightarrow> if d \<ge> 0 then d div Second else - ((- d) div Second))"

definition exec_request :: "string \<Rightarrow> string \<Rightarrow> time option \<Rightarrow> openRequest" where
  "exec_request i command remaining = \<lparr>orSessionID = i, orMode = SessionModeExec, orTarget = [],
     orCommand = command, orCols = 0, orRows = 0, orTimeout = exec_timeout remaining\<rparr>"

definition client_end_session :: "string \<Rightarrow> nat \<Rightarrow> client \<Rightarrow> client" where
  "client_end_session i r c = mgr_remove i (close_ref r c)"

definition RunExec_begin :: "subscriber \<Rightarrow> time \<Rightarrow> string \<Rightarrow> string \<Rightarrow> time option \<Rightarrow> string option \<Rightarrow> client
    \<Rightarrow> client \<times> (string + nat)" where
  "RunExec_begin sb now i command remaining pubErr c =
     (case client_subscribe sb c of
        (subs, Some err) \<Rightarrow> (c, Inl err)
      | (subs, None) \<Rightarrow> (case alloc (NewExecClientSession i) c of (r, c1) \<Rightarrow>
        (case Add now i r (ndManager c1) of
           Inl err \<Rightarrow> (c1, Inl (tunnel_error_text err))
         | Inr m \<Rightarrow>
             (let c2 = update_ref r (\<lambda>s. fst (session_start ShellStarted s)) (c1\<lparr>ndManager := m\<rparr>);
                  c3 = registerCloseCh i c2 in
              case sendOpen_begin (exec_request i command remaining) pubErr c3 of
                (c4, Some e) \<Rightarrow> (client_end_session i r (unregisterCloseCh i c4), Inl (''open exec session: '' @ e))
              | (c4, None) \<Rightarrow> (c4, Inr r)))))"

definition RunExec_finish :: "string \<Rightarrow> nat \<Rightarrow> client \<Rightarrow> client" where
  "RunExec_finish i r c = client_end_session i r (unregisterCloseCh i c)"

section \<open>A remote shell\<close>

definition shell_request :: "string \<Rightarrow> u16 \<Rightarrow> u16 \<Rightarrow> openRequest" where
  "shell_request i cols rows = \<lparr>orSessionID = i, orMode = SessionModeShell, orTarget = [], orCommand = [],
     orCols = cols, orRows = rows, orTimeout = 0\<rparr>"

text \<open>
  \<open>runShellIO\<close> up to its open request. Unlike \<open>RunExec\<close> it registers its close channel only after the
  answer, and its \<open>defer\<close> for that channel only then.
\<close>

definition runShellIO_begin :: "subscriber \<Rightarrow> time \<Rightarrow> string \<Rightarrow> u16 \<Rightarrow> u16 \<Rightarrow> string option \<Rightarrow> client
    \<Rightarrow> client \<times> (string + nat)" where
  "runShellIO_begin sb now i cols rows pubErr c =
     (case client_subscribe sb c of
        (subs, Some err) \<Rightarrow> (c, Inl err)
      | (subs, None) \<Rightarrow> (case alloc (NewExecClientSession i) c of (r, c1) \<Rightarrow>
        (case Add now i r (ndManager c1) of
           Inl err \<Rightarrow> (c1, Inl (tunnel_error_text err))
         | Inr m \<Rightarrow>
             (let c2 = update_ref r (\<lambda>s. fst (session_start ShellStarted s)) (c1\<lparr>ndManager := m\<rparr>) in
              case sendOpen_begin (shell_request i cols rows) pubErr c2 of
                (c3, Some e) \<Rightarrow> (client_end_session i r c3, Inl (''open shell session: '' @ e))
              | (c3, None) \<Rightarrow> (c3, Inr r)))))"

definition runShellIO_answer :: "string \<Rightarrow> nat \<Rightarrow> wait_choice \<Rightarrow> client \<Rightarrow> (client \<times> (string + unit)) option" where
  "runShellIO_answer i r ch c = (case sendOpen_end i ch c of
     None \<Rightarrow> None
   | Some (c1, Inl e) \<Rightarrow> Some (client_end_session i r c1, Inl (''open shell session: '' @ e))
   | Some (c1, Inr ack) \<Rightarrow>
       if \<not> cmSuccess ack
       then Some (client_end_session i r c1, Inl (''device rejected shell session: '' @ cmError ack))
       else Some (registerCloseCh i c1, Inr ()))"

definition runShellIO_finish :: "string \<Rightarrow> nat \<Rightarrow> client \<Rightarrow> client" where
  "runShellIO_finish i r c = client_end_session i r (unregisterCloseCh i c)"

text \<open>
  What the user types: a pump into a writer of the session's window. It ends with the program.
\<close>

definition stdin_writer :: "string \<Rightarrow> string \<Rightarrow> session \<Rightarrow> SequenceWriter" where
  "stdin_writer deviceID i s = NewSequenceWriter (InDataTopic deviceID i) (swFc (ssWriter s))"

definition crlf :: string where
  "crlf = [char_of (13::nat), char_of (10::nat)]"

text \<open>The result: the error returned, and what goes to the error stream.\<close>

fun runShellIO_loop :: "exec_io \<Rightarrow> exec_input list \<Rightarrow> exec_out \<Rightarrow> exec_out \<times> string \<times> (string option) option" where
  "runShellIO_loop io [] st = (st, [], None)"
| "runShellIO_loop io (CtxCancelled # ins) st = (st, [], Some None)"
| "runShellIO_loop io (SessionDone # ins) st = (st, crlf @ ''Session ended: remote unreachable'' @ crlf, Some None)"
| "runShellIO_loop io (OutData d # ins) st =
     (case writeSessionData io d st of
        (st1, Some e) \<Rightarrow> (st1, [], Some (Some e))
      | (st1, None) \<Rightarrow> runShellIO_loop io ins st1)"
| "runShellIO_loop io (DataChClosed # ins) st = (st, [], Some None)"
| "runShellIO_loop io (CloseArrives m # ins) st =
     (case drainSessionData io ins st of
        (st1, None) \<Rightarrow> (st1, [], None)
      | (st1, Some (Some e)) \<Rightarrow> (st1, [], Some (Some e))
      | (st1, Some None) \<Rightarrow>
          (st1, if cmError m \<noteq> [] then crlf @ ''Remote error: '' @ cmError m @ crlf else [], Some None))"
| "runShellIO_loop io (TimerFires # ins) st = runShellIO_loop io ins st"

definition runShellIO_opened :: "exec_io \<Rightarrow> string + ControlMessage \<Rightarrow> exec_input list
    \<Rightarrow> exec_out \<times> string \<times> (string option) option" where
  "runShellIO_opened io opened ins = (case opened of
     Inl err \<Rightarrow> (new_exec_out, [], Some (Some (''open shell session: '' @ err)))
   | Inr ack \<Rightarrow>
       if \<not> cmSuccess ack
       then (new_exec_out, [], Some (Some (''device rejected shell session: '' @ cmError ack)))
       else runShellIO_loop io ins new_exec_out)"

text \<open>The size of the terminal: the default when it cannot be read.\<close>

definition getTermSizeUnix :: "(int \<times> int) option \<Rightarrow> u16 \<times> u16" where
  "getTermSizeUnix answer = (case answer of None \<Rightarrow> (80, 24) | Some (w, h) \<Rightarrow> (of_int w, of_int h))"

text \<open>\<open>runShell\<close>: the checks of the terminal, before \<open>runShellIO\<close> gets its size.\<close>

definition runShell_begin :: "bool \<Rightarrow> (int \<times> int) option \<Rightarrow> string option \<Rightarrow> string + (u16 \<times> u16)" where
  "runShell_begin isTerminal termSize rawErr =
     (if \<not> isTerminal then Inl ''stdin is not a terminal''
      else case rawErr of
        Some e \<Rightarrow> Inl (''make terminal raw: '' @ e)
      | None \<Rightarrow> Inr (getTermSizeUnix termSize))"

text \<open>\<open>resizeFunc\<close> until the context is done: one message for every change of the window.\<close>

definition resizeFunc :: "string \<Rightarrow> (int \<times> int) option list \<Rightarrow> client \<Rightarrow> client" where
  "resizeFunc i sizes c =
     foldl (\<lambda>c answer. case getTermSizeUnix answer of (cols, rows) \<Rightarrow> sendResize i cols rows c) c sizes"

definition getTermSize :: "u16 \<times> u16" where
  "getTermSize = (80, 24)"

section \<open>Ping statistics\<close>

text \<open>
  The durations are integers here. In Go they have 64 bits: the total, a sum of round trips made one after
  the other, would leave them after 292 years.
\<close>

record pingStats =
  psSent :: nat
  psReceived :: nat
  psMin :: time
  psMax :: time
  psTotal :: time

definition zeroStats :: pingStats where
  "zeroStats = \<lparr>psSent = 0, psReceived = 0, psMin = 0, psMax = 0, psTotal = 0\<rparr>"

definition ping_round :: "time option \<Rightarrow> pingStats \<Rightarrow> pingStats" where
  "ping_round result st0 =
     (let st = st0\<lparr>psSent := psSent st0 + 1\<rparr> in
      case result of
        None \<Rightarrow> st
      | Some rtt \<Rightarrow>
          (let st1 = st\<lparr>psReceived := psReceived st + 1, psTotal := psTotal st + rtt\<rparr>;
               st2 = (if psMin st1 = 0 \<or> rtt < psMin st1 then st1\<lparr>psMin := rtt\<rparr> else st1)
           in (if rtt > psMax st2 then st2\<lparr>psMax := rtt\<rparr> else st2)))"

definition RunPing_stats :: "time option list \<Rightarrow> pingStats" where
  "RunPing_stats results = foldl (\<lambda>st r. ping_round r st) zeroStats results"

text \<open>
  The loop of \<open>RunPing\<close>: at most \<open>pings\<close> (the flag \<open>count\<close>) rounds, and none after the context is done. Each answered
  ping prints its number and time.
\<close>

datatype ping_input = PingCancelled | PingDone "time option"

datatype ping_line = PingTimeout | PingReply nat time

fun RunPing_loop :: "nat \<Rightarrow> nat \<Rightarrow> ping_input list \<Rightarrow> pingStats \<Rightarrow> ping_line list \<times> pingStats" where
  "RunPing_loop i 0 ins st = ([], st)"
| "RunPing_loop i (Suc n) [] st = ([], st)"
| "RunPing_loop i (Suc n) (PingCancelled # ins) st = ([], st)"
| "RunPing_loop i (Suc n) (PingDone result # ins) st =
     (case RunPing_loop (i + 1) n ins (ping_round result st) of (lines, st') \<Rightarrow>
        ((case result of None \<Rightarrow> PingTimeout | Some rtt \<Rightarrow> PingReply i rtt) # lines, st'))"

definition RunPing :: "subscriber \<Rightarrow> client \<Rightarrow> nat \<Rightarrow> ping_input list \<Rightarrow> string + (ping_line list \<times> pingStats)" where
  "RunPing sb c pings ins = (case client_subscribe sb c of
     (subs, Some err) \<Rightarrow> Inl err
   | (subs, None) \<Rightarrow> Inr (RunPing_loop 0 pings ins zeroStats))"

text \<open>The results a run got: those of the rounds before it was cancelled.\<close>

fun ping_results :: "nat \<Rightarrow> ping_input list \<Rightarrow> time option list" where
  "ping_results (Suc n) (PingDone r # ins) = r # ping_results n ins"
| "ping_results _ _ = []"

lemma RunPing_loop_stats:
  "snd (RunPing_loop i n ins st) = foldl (\<lambda>st r. ping_round r st) st (ping_results n ins)
   \<and> length (fst (RunPing_loop i n ins st)) = length (ping_results n ins)"
  by (induction i n ins st rule: RunPing_loop.induct) (auto split: prod.split)

definition average_rtt :: "pingStats \<Rightarrow> time" where
  "average_rtt st = psTotal st div int (psReceived st)"

section \<open>Starting the forwards\<close>

record TCPForward =
  tfListen :: string
  tfTarget :: string

text \<open>
  The listeners opened in order; the first failure closes those before it. The result: the
  listeners that were closed, and the ones that stay open with their targets or the error.
\<close>

fun open_listeners :: "(string \<Rightarrow> string option) \<Rightarrow> TCPForward list \<Rightarrow> string list
    \<Rightarrow> string list \<times> (string + string list)" where
  "open_listeners listen [] opened = ([], Inr opened)"
| "open_listeners listen (f # fs) opened =
     (case listen (tfListen f) of
        Some err \<Rightarrow> (opened, Inl (''listen '' @ tfListen f @ '': '' @ err))
      | None \<Rightarrow> open_listeners listen fs (opened @ [tfListen f]))"

definition RunTCPForwards_start :: "subscriber \<Rightarrow> (string \<Rightarrow> string option) \<Rightarrow> TCPForward list \<Rightarrow> client
    \<Rightarrow> string list \<times> (string + (string \<times> string) list)" where
  "RunTCPForwards_start sb listen forwards c =
     (if forwards = [] then ([], Inl ''no forwards specified'')
      else case client_subscribe sb c of
        (subs, Some e) \<Rightarrow> ([], Inl e)
      | (subs, None) \<Rightarrow> (case open_listeners listen forwards [] of
          (closed, Inl e) \<Rightarrow> (closed, Inl e)
        | (closed, Inr ls) \<Rightarrow> (closed, Inr (zip ls (map tfTarget forwards)))))"

text \<open>
  The accept loops: an error ends the loop only once the context is done (\<open>AcceptFails True\<close>); any
  other is logged and \<open>Accept\<close> called again. The connections handed to a handler, and whether the
  loop ended.
\<close>

datatype 'c accept = Accepts 'c | AcceptFails bool

fun acceptLoop :: "'c accept list \<Rightarrow> 'c list \<times> bool" where
  "acceptLoop [] = ([], False)"
| "acceptLoop (Accepts c # as) = (case acceptLoop as of (cs, over) \<Rightarrow> (c # cs, over))"
| "acceptLoop (AcceptFails ctxDone # as) = (if ctxDone then ([], True) else acceptLoop as)"

text \<open>The end of a run: the sessions are closed when the loops are over.\<close>

definition RunTCPForwards_end :: "(string \<times> nat) list \<Rightarrow> 'c accept list list \<Rightarrow> client \<Rightarrow> client option" where
  "RunTCPForwards_end order accepts c =
     (if list_all (\<lambda>as. snd (acceptLoop as)) accepts then Some (CloseAll order c) else None)"

definition RunSOCKS5_start :: "subscriber \<Rightarrow> (string \<Rightarrow> string option) \<Rightarrow> string \<Rightarrow> client \<Rightarrow> string option" where
  "RunSOCKS5_start sb listen addr c = (case client_subscribe sb c of
     (subs, Some e) \<Rightarrow> Some e
   | (subs, None) \<Rightarrow> wrap ''listen'' (listen addr))"

definition RunSOCKS5_loop :: "(string \<times> nat) list \<Rightarrow> 'c accept list \<Rightarrow> client \<Rightarrow> 'c list \<times> client option" where
  "RunSOCKS5_loop order as c = (case acceptLoop as of (cs, over) \<Rightarrow>
     (cs, if over then Some (CloseAll order c) else None))"

definition RunTCP_forwards :: "string \<Rightarrow> string \<Rightarrow> TCPForward list" where
  "RunTCP_forwards listenAddr target = [\<lparr>tfListen = listenAddr, tfTarget = target\<rparr>]"

section \<open>A writer that accepts everything\<close>

definition io_ok :: "exec_io \<Rightarrow> bool" where
  "io_ok io \<longleftrightarrow> (\<forall>d. ioWrite io d = (length d, None)) \<and> (\<forall>m. ioPublish io m = None)"

lemma writeSessionData_ok:
  assumes "io_ok io"
  shows "\<exists>st'. writeSessionData io d st = (st', None) \<and> eoBytes st' = eoBytes st @ d"
  using assms
  by (auto simp: writeSessionData_def io_ok_def Let_def split: prod.split option.split)

fun input_bytes :: "exec_input list \<Rightarrow> byte list" where
  "input_bytes [] = []"
| "input_bytes (OutData d # ins) = d @ input_bytes ins"
| "input_bytes (_ # ins) = input_bytes ins"

lemma drainSessionData_ok:
  assumes "io_ok io"
  shows "\<exists>st'. drainSessionData io (map OutData ds @ [TimerFires]) st = (st', Some None)
      \<and> eoBytes st' = eoBytes st @ concat ds"
proof (induction ds arbitrary: st)
  case (Cons d ds)
  obtain st1 where "writeSessionData io d st = (st1, None)" "eoBytes st1 = eoBytes st @ d"
    using writeSessionData_ok [OF assms] by blast
  with Cons.IH [of st1] show ?case by auto
qed simp

text \<open>
  A command that runs to its end: what was received before the close message and what the drain
  finds after it is written in order, and the result is the close message's.
\<close>

lemma RunExec_loop_ok:
  assumes "io_ok io"
  shows "\<exists>st'. RunExec_loop io (map OutData ds @ CloseArrives m # map OutData es @ [TimerFires]) st
        = (st', Some (execCloseResult m))
      \<and> eoBytes st' = eoBytes st @ concat ds @ concat es"
proof (induction ds arbitrary: st)
  case Nil
  then show ?case using drainSessionData_ok [OF assms, of es st] by (auto simp: after_drain_def)
next
  case (Cons d ds)
  obtain st1 where "writeSessionData io d st = (st1, None)" "eoBytes st1 = eoBytes st @ d"
    using writeSessionData_ok [OF assms] by blast
  with Cons.IH [of st1] show ?case by auto
qed

text \<open>The bytes written by the loop never contain anything but received data, in order.\<close>

lemma writeSessionData_prefix:
  "writeSessionData io d st = (st', r) \<Longrightarrow> \<exists>k. eoBytes st' = eoBytes st @ take k d \<and> (r = None \<longrightarrow> k \<ge> length d)"
proof (cases "d = []")
  case False
  assume w: "writeSessionData io d st = (st', r)"
  obtain n err where "ioWrite io d = (n, err)" by fastforce
  with w False show ?thesis
    by (intro exI [of _ n]) (auto simp: writeSessionData_def Let_def split: if_splits prod.splits option.splits)
qed (simp add: writeSessionData_def)

lemma drain_prefix:
  "drainSessionData io ins st = (st', r) \<Longrightarrow> \<exists>k. eoBytes st' = eoBytes st @ take k (input_bytes ins)"
proof (induction io ins st arbitrary: st' r rule: drainSessionData.induct)
  case (2 io d ins st)
  obtain st1 e where w: "writeSessionData io d st = (st1, e)" by fastforce
  obtain j where j: "eoBytes st1 = eoBytes st @ take j d" "e = None \<longrightarrow> j \<ge> length d"
    using writeSessionData_prefix [OF w] by blast
  show ?case
  proof (cases e)
    case None
    with "2.IH" [OF w [symmetric] None] "2.prems" w obtain k where
      "eoBytes st' = eoBytes st1 @ take k (input_bytes ins)" by auto
    with j None show ?thesis by (intro exI [of _ "length d + k"]) simp
  next
    case (Some x)
    with "2.prems" w j show ?thesis by (intro exI [of _ "min j (length d)"]) (auto simp: min_def)
  qed
qed (auto intro: exI [of _ 0])

section \<open>Statistics\<close>

text \<open>What the statistics say: counts, total, and the extremes of round trip times that are not zero.\<close>

definition rtts :: "time option list \<Rightarrow> time list" where
  "rtts results = List.map_filter id results"

lemma rtts_simps [simp]: "rtts [] = []" "rtts (rs @ [r]) = rtts rs @ (case r of None \<Rightarrow> [] | Some t \<Rightarrow> [t])"
  by (auto simp: rtts_def List.map_filter_def split: option.split)

lemma RunPing_stats_snoc: "RunPing_stats (rs @ [r]) = ping_round r (RunPing_stats rs)"
  by (simp add: RunPing_stats_def)

lemma ping_round_fields:
  "psSent (ping_round r st) = psSent st + 1"
  "psReceived (ping_round r st) = psReceived st + (if r = None then 0 else 1)"
  "psTotal (ping_round r st) = psTotal st + (case r of None \<Rightarrow> 0 | Some t \<Rightarrow> t)"
  "psMin (ping_round r st) = (case r of None \<Rightarrow> psMin st
     | Some t \<Rightarrow> if psMin st = 0 \<or> t < psMin st then t else psMin st)"
  "psMax (ping_round r st) = (case r of None \<Rightarrow> psMax st | Some t \<Rightarrow> max (psMax st) t)"
  by (auto simp: ping_round_def Let_def max_def split: option.split)

lemma RunPing_stats_counts:
  "psSent (RunPing_stats rs) = length rs \<and> psReceived (RunPing_stats rs) = length (rtts rs)
     \<and> psTotal (RunPing_stats rs) = sum_list (rtts rs)"
proof (induction rs rule: rev_induct)
  case Nil
  then show ?case by (simp add: RunPing_stats_def zeroStats_def)
next
  case (snoc r rs)
  then show ?case by (auto simp: RunPing_stats_snoc ping_round_fields split: option.split)
qed

lemma RunPing_stats_extremes:
  "\<forall>t \<in> set (rtts rs). t > 0 \<Longrightarrow>
     (rtts rs = [] \<longrightarrow> psMin (RunPing_stats rs) = 0 \<and> psMax (RunPing_stats rs) = 0) \<and>
     (rtts rs \<noteq> [] \<longrightarrow> psMin (RunPing_stats rs) = Min (set (rtts rs)) \<and> psMax (RunPing_stats rs) = Max (set (rtts rs)))"
proof (induction rs rule: rev_induct)
  case Nil
  then show ?case by (simp add: RunPing_stats_def zeroStats_def)
next
  case (snoc r rs)
  show ?case
  proof (cases r)
    case None
    with snoc show ?thesis by (simp add: RunPing_stats_snoc ping_round_fields)
  next
    case (Some t)
    with snoc.prems have t: "t > 0" "\<forall>t \<in> set (rtts rs). t > 0" by auto
    show ?thesis
    proof (cases "rtts rs = []")
      case True
      with snoc.IH [OF t(2)] Some t(1) show ?thesis by (simp add: RunPing_stats_snoc ping_round_fields)
    next
      case False
      with snoc.IH [OF t(2)] have ih: "psMin (RunPing_stats rs) = Min (set (rtts rs))"
          "psMax (RunPing_stats rs) = Max (set (rtts rs))" by simp_all
      have "Min (set (rtts rs)) > 0" using False t(2) by simp
      with ih Some have "psMin (RunPing_stats (rs @ [r])) = min t (Min (set (rtts rs)))"
          "psMax (RunPing_stats (rs @ [r])) = max t (Max (set (rtts rs)))"
        by (auto simp: RunPing_stats_snoc ping_round_fields)
      with False Some show ?thesis by simp
    qed
  qed
qed

section \<open>Listeners\<close>

lemma open_listeners_result:
  "open_listeners listen fs opened =
     (case dropWhile (\<lambda>f. listen (tfListen f) = None) fs of
        [] \<Rightarrow> ([], Inr (opened @ map tfListen fs))
      | f # _ \<Rightarrow> (opened @ map tfListen (takeWhile (\<lambda>f. listen (tfListen f) = None) fs),
                 Inl (''listen '' @ tfListen f @ '': '' @ the (listen (tfListen f)))))"
proof (induction listen fs opened rule: open_listeners.induct)
  case (2 listen f fs opened)
  show ?case
  proof (cases "listen (tfListen f)")
    case None
    with 2 show ?thesis
      by (cases "dropWhile (\<lambda>f. listen (tfListen f) = None) fs") (simp_all del: dropWhile_eq_Nil_conv)
  qed simp
qed simp

text \<open>A terminal that takes everything.\<close>

definition happy_io :: exec_io where
  "happy_io = \<lparr>ioWrite = (\<lambda>d. (length d, None)), ioPublish = (\<lambda>_. None), ioDevice = ''dev'', ioSession = ''e''\<rparr>"

lemma RunExec_opened_ok:
  assumes "io_ok io" and "cmSuccess ack"
    and "RunExec_opened io (Inr ack) (map OutData ds @ CloseArrives m # map OutData es @ [TimerFires]) = (out, res)"
  shows "eoBytes out = concat ds @ concat es
     \<and> res = Some (case cmExitCode m of
         Some code \<Rightarrow> (code, None)
       | None \<Rightarrow> if cmError m \<noteq> [] then (1, Some (''remote error: '' @ cmError m)) else (0, None))"
  using RunExec_loop_ok [OF assms(1), of ds m es new_exec_out] assms(2,3)
  by (auto simp: RunExec_opened_def new_exec_out_def execCloseResult_def)

text \<open>After a cancel the error of the close message is lost: the command counts as successful.\<close>

lemma cancel_loses_error:
  assumes "cmSuccess ack" and "cmExitCode m = None" and "cmError m \<noteq> []"
  shows "snd (RunExec_opened io (Inr ack) [CtxCancelled, CloseArrives m, TimerFires]) = Some (0, None)"
    and "execCloseResult m = (1, Some (''remote error: '' @ cmError m))"
  using assms by (simp_all add: RunExec_opened_def after_drain_def execCloseResult_def)

end
