(* ===== verification/Downlink.thy ===== *)
theory Downlink
  imports Tunnel ClientRuns
begin

text \<open>
  Data towards the client: the client's operations as one event type, the client as a peer of a
  tunnel, from the session it registers to the bytes its session takes.
\<close>

section \<open>The client over time\<close>

text \<open>
  The events of a client: a message on one of its topics, the steps of the connections, commands and
  shells it serves, its pings and those of the keepalive, the \<open>CloseAll\<close> when it stops, and the work of the sessions' own goroutines. A
  step that would have to wait does not happen.
\<close>

datatype client_event =
    OnControl time payload
  | OnData time string "byte list"
  | Dials time string string "string option"
  | DialEnds string nat wait_choice
  | SocksDials time string "string option" conn
  | SocksEnds string nat wait_choice conn
  | ExecStarts subscriber time string string "time option" "string option"
  | ExecEnds string nat
  | ShellStarts subscriber time string u16 u16 "string option"
  | ShellAnswered string nat wait_choice
  | ShellEnds string nat
  | Pings string int "string option"
  | PingEnds string time time wait_choice
  | Stops "(string \<times> nat) list"
  | Works nat "session \<Rightarrow> session" "PubMessage list" bool

definition if_ready :: "'c option \<Rightarrow> 'c \<Rightarrow> 'c" where
  "if_ready x c = (case x of None \<Rightarrow> c | Some c' \<Rightarrow> c')"

fun client_handle :: "client_event \<Rightarrow> client \<Rightarrow> client" where
  "client_handle (OnControl now p) c = client_handleControl now p c"
| "client_handle (OnData now topic frame) c = client_handleData now topic frame c"
| "client_handle (Dials now i target e) c = fst (handleTCPConn_begin now i target e c)"
| "client_handle (DialEnds i r ch) c = if_ready (handleTCPConn_end i r ch c) c"
| "client_handle (SocksDials now i e cn) c = fst (handleSOCKS5Conn_begin now i e cn c)"
| "client_handle (SocksEnds i r ch cn) c = if_ready (map_option fst (handleSOCKS5Conn_end i r ch cn c)) c"
| "client_handle (ExecStarts sb now i cmd t e) c = fst (RunExec_begin sb now i cmd t e c)"
| "client_handle (ExecEnds i r) c = RunExec_finish i r c"
| "client_handle (ShellStarts sb now i cols rows e) c = fst (runShellIO_begin sb now i cols rows e c)"
| "client_handle (ShellAnswered i r ch) c = if_ready (map_option fst (runShellIO_answer i r ch c)) c"
| "client_handle (ShellEnds i r) c = runShellIO_finish i r c"
| "client_handle (Pings i ts e) c = fst (sendPing_begin i ts e c)"
| "client_handle (PingEnds i ts now ch) c = if_ready (map_option fst (sendPing_end i ts now ch c)) c"
| "client_handle (Stops order) c = CloseAll order c"
| "client_handle (Works r f ms ends) c = (let c1 = emit ms (update_ref r f c) in if ends then close_ref r c1 else c1)"

fun client_delivers :: "client_event \<Rightarrow> (string \<times> byte list) option" where
  "client_delivers (OnData now topic frame) = Some (topic, frame)"
| "client_delivers _ = None"

text \<open>The answer that makes a request succeed has arrived.\<close>

definition accepted_by :: "string \<Rightarrow> wait_choice \<Rightarrow> client \<Rightarrow> bool" where
  "accepted_by i ch c \<longleftrightarrow> (case (ch, clAckChans c i) of (Answered, Some (Some m)) \<Rightarrow> cmSuccess m | _ \<Rightarrow> False)"

fun client_leaves_open :: "string \<Rightarrow> nat \<Rightarrow> client_event \<Rightarrow> client \<Rightarrow> bool" where
  "client_leaves_open i r (OnControl now p) c = (case read_msg (payload_text p) of
     None \<Rightarrow> True
   | Some msg \<Rightarrow> \<not> (cmType msg = MessageTypeClose \<and> cmSessionID msg = i \<and> clCloseChs c i = None))"
| "client_leaves_open i r (DialEnds j q ch) c = (j = i \<longrightarrow> accepted_by i ch c)"
| "client_leaves_open i r (SocksEnds j q ch cn) c =
     (j = i \<longrightarrow> accepted_by i ch c \<and> snd (SendSuccess NoBind cn) = None)"
| "client_leaves_open i r (ExecEnds j q) c = (j \<noteq> i \<and> q \<noteq> r \<and> \<not> may_release i q c)"
| "client_leaves_open i r (ShellAnswered j q ch) c = (accepted_by j ch c \<or> j \<noteq> i \<and> q \<noteq> r \<and> \<not> may_release i q c)"
| "client_leaves_open i r (ShellEnds j q) c = (j \<noteq> i \<and> q \<noteq> r \<and> \<not> may_release i q c)"
| "client_leaves_open i r (Stops order) c = False"
| "client_leaves_open i r (Works q f ms ends) c = minds_own i r q f ends c"
| "client_leaves_open i r _ c = True"

section \<open>The client keeps a session\<close>

lemma receiving_chans [simp]:
  "receiving i r s (c\<lparr>clAckChans := x\<rparr>) \<longleftrightarrow> receiving i r s c"
  "receiving i r s (c\<lparr>clCloseChs := y\<rparr>) \<longleftrightarrow> receiving i r s c"
  "receiving i r s (registerCloseCh j c) \<longleftrightarrow> receiving i r s c"
  "receiving i r s (unregisterCloseCh j c) \<longleftrightarrow> receiving i r s c"
  "receiving i r s (del_ack_chan j c) \<longleftrightarrow> receiving i r s c"
  by (simp_all add: registerCloseCh_def unregisterCloseCh_def del_ack_chan_def receiving_def node_inv_def)

lemma may_release_chans [simp]:
  "may_release i q (registerCloseCh j c) \<longleftrightarrow> may_release i q c"
  "may_release i q (unregisterCloseCh j c) \<longleftrightarrow> may_release i q c"
  "may_release i q (del_ack_chan j c) \<longleftrightarrow> may_release i q c"
  by (simp_all add: may_release_def registerCloseCh_def unregisterCloseCh_def del_ack_chan_def)

lemma receiving_drop_conn: "receiving i r s c \<Longrightarrow> receiving i r s (drop_conn q c)"
  by (simp add: drop_conn_def receiving_update)

lemma receiving_give_up: "receiving i r s c \<Longrightarrow> j \<noteq> i \<Longrightarrow> receiving i r s (give_up j q c)"
  by (simp add: give_up_def receiving_drop_conn receiving_remove_other)

lemma receiving_request: "receiving i r s c \<Longrightarrow> receiving i r s (fst (sendOpen_begin req e c))"
  by (auto simp: sendOpen_begin_def request_begin_def Let_def split: option.split)

lemma receiving_end_session:
  "receiving i r s c \<Longrightarrow> j \<noteq> i \<Longrightarrow> q \<noteq> r \<Longrightarrow> \<not> may_release i q c \<Longrightarrow> receiving i r s (client_end_session j q c)"
  by (simp add: client_end_session_def receiving_remove_other receiving_close_other)

lemma receiving_start_ref:
  assumes "receiving i r s c"
  shows "receiving i r s (start_ref j q c)"
proof (cases "ndHeap c q")
  case (Some x)
  have "session_start ShellStarted x = (fst (session_start ShellStarted x), None)"
    by (simp add: session_start_def Let_def split: session_kind.split)
  moreover have "ssReorder (fst (session_start ShellStarted x)) = ssReorder x"
      "ssQueue (fst (session_start ShellStarted x)) = ssQueue x"
    by (simp_all add: session_start_def Let_def split: session_kind.split)
  ultimately show ?thesis
    using Some assms node_inv_replace [of c q x "fst (session_start ShellStarted x)"]
    by (auto simp: start_ref_def receiving_def node_simps split: prod.splits)
qed (simp add: start_ref_def assms)

lemma receiving_if_ready:
  "receiving i r s c \<Longrightarrow> (\<And>c'. x = Some c' \<Longrightarrow> receiving i r s c') \<Longrightarrow> receiving i r s (if_ready x c)"
  by (simp add: if_ready_def split: option.split)

lemma sendOpen_end_same: "sendOpen_end i ch c = Some (c', x) \<Longrightarrow> c' = del_ack_chan i c"
  by (auto simp: sendOpen_end_def dest: request_end_other)

lemma sendOpen_end_accepted: "sendOpen_end i ch c = Some (c', x) \<Longrightarrow>
    accepted_by i ch c \<longleftrightarrow> (\<exists>m. x = Inr m \<and> cmSuccess m)"
  by (auto simp: sendOpen_end_def request_end_def accepted_by_def split: wait_choice.splits option.splits)

subsection \<open>Connections\<close>

lemma new_tcp_id [simp]: "ssId (SetOnClose (NewTCPSession j ct dt)) = j" "ssId (NewExecClientSession j) = j"
  by (simp_all add: SetOnClose_def new_session_defs)

lemma receiving_dial:
  assumes "receiving i r s c"
  shows "receiving i r s (fst (handleTCPConn_begin now j target e c))"
proof -
  let ?s = "SetOnClose (NewTCPSession j (InControlTopic (clID c)) (InDataTopic (clID c) j))"
  obtain q c1 where al: "alloc ?s c = (q, c1)" by (cases "alloc ?s c")
  show ?thesis
  proof (cases "Add now j q (ndManager c1)")
    case (Inl err)
    with al receiving_alloc [OF assms al] show ?thesis by (simp add: handleTCPConn_begin_def receiving_drop_conn)
  next
    case (Inr m)
    have add: "receiving i r s (c1\<lparr>ndManager := m\<rparr>)" "j \<noteq> i"
      using receiving_add [OF assms al] Inr by simp_all
    obtain c2 x where op: "sendOpen_begin (tcp_request j target) e (c1\<lparr>ndManager := m\<rparr>) = (c2, x)"
      by (cases "sendOpen_begin (tcp_request j target) e (c1\<lparr>ndManager := m\<rparr>)")
    have "receiving i r s c2" using receiving_request [OF add(1), of "tcp_request j target" e] op by simp
    with al Inr op add(2) show ?thesis
      by (simp add: handleTCPConn_begin_def receiving_give_up split: option.split)
  qed
qed

lemma socks_begin_tcp:
  "fst (handleSOCKS5Conn_begin now i e cn c) = c \<or>
     (\<exists>target. fst (handleSOCKS5Conn_begin now i e cn c) = fst (handleTCPConn_begin now i target e c))"
proof -
  obtain cn1 x where h: "Handshake cn = (cn1, x)" by (cases "Handshake cn")
  show ?thesis
  proof (cases x)
    case (Inr target)
    have "fst (handleSOCKS5Conn_begin now i e cn c) = fst (handleTCPConn_begin now i target e c)"
      using h Inr by (simp add: handleSOCKS5Conn_begin_def handleTCPConn_begin_def Let_def
          split: prod.split sum.split option.split)
    then show ?thesis by blast
  qed (use h in \<open>simp add: handleSOCKS5Conn_begin_def\<close>)
qed

lemma receiving_socks_dial:
  "receiving i r s c \<Longrightarrow> receiving i r s (fst (handleSOCKS5Conn_begin now j e cn c))"
  using socks_begin_tcp [of now j e cn c] receiving_dial by metis

lemma receiving_dial_end:
  assumes "receiving i r s c" and "handleTCPConn_end j q ch c = Some c'" and "j = i \<Longrightarrow> accepted_by i ch c"
  shows "receiving i r s c'"
proof -
  obtain c1 x where w: "sendOpen_end j ch c = Some (c1, x)"
    using assms(2) by (auto simp: handleTCPConn_end_def split: option.splits)
  have "receiving i r s c1" using sendOpen_end_same [OF w] assms(1) by simp
  then show ?thesis
    using assms(2,3) w sendOpen_end_accepted [OF w]
    by (auto simp: handleTCPConn_end_def receiving_start_ref split: sum.splits if_splits intro: receiving_give_up)
qed

lemma receiving_socks_end:
  assumes "receiving i r s c" and "handleSOCKS5Conn_end j q ch cn c = Some (c', cn')"
    and "j = i \<Longrightarrow> accepted_by i ch c \<and> snd (SendSuccess NoBind cn) = None"
  shows "receiving i r s c'"
proof -
  obtain c1 x where w: "sendOpen_end j ch c = Some (c1, x)"
    using assms(2) by (auto simp: handleSOCKS5Conn_end_def split: option.splits)
  have "receiving i r s c1" using sendOpen_end_same [OF w] assms(1) by simp
  then show ?thesis
    using assms(2,3) w sendOpen_end_accepted [OF w]
    by (auto simp: handleSOCKS5Conn_end_def receiving_start_ref split: sum.splits if_splits prod.splits option.splits
        intro: receiving_give_up)
qed

subsection \<open>Commands and shells\<close>

lemma receiving_new_session:
  assumes "receiving i r s c" and "alloc (NewExecClientSession j) c = (q, c1)" and "Add now j q (ndManager c1) = Inr m"
  defines "c2 \<equiv> update_ref q (\<lambda>s. fst (session_start ShellStarted s)) (c1\<lparr>ndManager := m\<rparr>)"
  shows "receiving i r s c2" and "j \<noteq> i" and "q \<noteq> r" and "\<not> may_release i q c2"
proof -
  have add: "receiving i r s (c1\<lparr>ndManager := m\<rparr>)" "q \<noteq> r" "j \<noteq> i"
    using receiving_add [OF assms(1,2)] assms(3) by simp_all
  then show "receiving i r s c2" "j \<noteq> i" "q \<noteq> r" by (auto simp: c2_def intro: receiving_update)
  have "ndHeap c1 q = Some (NewExecClientSession j)" using assms(2) by (auto simp: alloc_def)
  with add(3) show "\<not> may_release i q c2" by (simp add: c2_def may_release_def node_simps)
qed

lemma may_release_request: "may_release i q (fst (sendOpen_begin req e c)) \<longleftrightarrow> may_release i q c"
  by (auto simp: may_release_def sendOpen_begin_def request_begin_def Let_def node_simps split: option.split)

lemma receiving_exec_start:
  assumes "receiving i r s c"
  shows "receiving i r s (fst (RunExec_begin sb now j cmd t e c))"
proof -
  obtain subs x where sub: "client_subscribe sb c = (subs, x)" by (cases "client_subscribe sb c")
  obtain q c1 where al: "alloc (NewExecClientSession j) c = (q, c1)" by (cases "alloc (NewExecClientSession j) c")
  show ?thesis
  proof (cases "x = None \<and> (\<exists>m. Add now j q (ndManager c1) = Inr m)")
    case False
    with sub al receiving_alloc [OF assms al] assms show ?thesis
      by (auto simp: RunExec_begin_def split: option.split sum.split)
  next
    case True
    then obtain m where m: "x = None" "Add now j q (ndManager c1) = Inr m" by blast
    define c2 where "c2 = update_ref q (\<lambda>s. fst (session_start ShellStarted s)) (c1\<lparr>ndManager := m\<rparr>)"
    note new = receiving_new_session [OF assms al m(2), folded c2_def]
    let ?op = "sendOpen_begin (exec_request j cmd t) e (registerCloseCh j c2)"
    have "receiving i r s (fst ?op)" "\<not> may_release i q (fst ?op)"
      using new by (auto simp: may_release_request intro: receiving_request)
    with new sub m al show ?thesis
      by (cases ?op) (auto simp: RunExec_begin_def Let_def c2_def [symmetric] intro!: receiving_end_session split: option.split)
  qed
qed

lemma receiving_shell_start:
  assumes "receiving i r s c"
  shows "receiving i r s (fst (runShellIO_begin sb now j cols rows e c))"
proof -
  obtain subs x where sub: "client_subscribe sb c = (subs, x)" by (cases "client_subscribe sb c")
  obtain q c1 where al: "alloc (NewExecClientSession j) c = (q, c1)" by (cases "alloc (NewExecClientSession j) c")
  show ?thesis
  proof (cases "x = None \<and> (\<exists>m. Add now j q (ndManager c1) = Inr m)")
    case False
    with sub al receiving_alloc [OF assms al] assms show ?thesis
      by (auto simp: runShellIO_begin_def split: option.split sum.split)
  next
    case True
    then obtain m where m: "x = None" "Add now j q (ndManager c1) = Inr m" by blast
    define c2 where "c2 = update_ref q (\<lambda>s. fst (session_start ShellStarted s)) (c1\<lparr>ndManager := m\<rparr>)"
    note new = receiving_new_session [OF assms al m(2), folded c2_def]
    let ?op = "sendOpen_begin (shell_request j cols rows) e c2"
    have "receiving i r s (fst ?op)" "\<not> may_release i q (fst ?op)"
      using new by (auto simp: may_release_request intro: receiving_request)
    with new sub m al show ?thesis
      by (cases ?op) (auto simp: runShellIO_begin_def Let_def c2_def [symmetric] intro!: receiving_end_session split: option.split)
  qed
qed

lemma receiving_shell_answer:
  assumes "receiving i r s c" and "runShellIO_answer j q ch c = Some (c', res)"
    and "accepted_by j ch c \<or> j \<noteq> i \<and> q \<noteq> r \<and> \<not> may_release i q c"
  shows "receiving i r s c'"
proof -
  obtain c1 x where w: "sendOpen_end j ch c = Some (c1, x)"
    using assms(2) by (auto simp: runShellIO_answer_def split: option.splits)
  have "receiving i r s c1" "may_release i q c1 = may_release i q c" using sendOpen_end_same [OF w] assms(1) by simp_all
  then show ?thesis
    using assms(2,3) w sendOpen_end_accepted [OF w]
    by (auto simp: runShellIO_answer_def split: sum.splits if_splits intro: receiving_end_session)
qed

subsection \<open>All events\<close>

lemma receiving_client_control:
  assumes "receiving i r s c" and "client_leaves_open i r (OnControl now p) c"
  shows "receiving i r s (client_handleControl now p c)"
proof (cases "read_msg (payload_text p)")
  case None
  with assms(1) show ?thesis
    by (auto simp: client_handleControl_def read_msg_def payload_json_def split: option.split)
next
  case (Some msg)
  then obtain j where j: "payload_json p = Some j" "Unmarshal j = Some msg"
    by (auto simp: read_msg_def payload_json_def split: option.splits)
  have close: "receiving i r s (mgr_remove (cmSessionID msg) (close_ref q c))"
    if "mgr_get (cmSessionID msg) c = Some q" "cmSessionID msg \<noteq> i" for q
  proof -
    have inv: "node_inv c" "smSessions (ndManager c) i = Some r" "smSessions (ndManager c) (cmSessionID msg) = Some q"
      using assms(1) that(1) by (simp_all add: receiving_def node_simps)
    have "q \<noteq> r" using node_inv_inj [OF inv(1,3)] inv(2) that(2) by blast
    moreover have "\<not> may_release i q c"
      using node_inv_entry [OF inv(1,3)] that(2) by (auto simp: may_release_def)
    ultimately show ?thesis using assms(1) that(2) by (simp add: receiving_remove_other receiving_close_other)
  qed
  have ack: "receiving i r s (update_ref q (session_ack a) (mgr_touch now k c))" for q a k
    using assms(1) by (auto simp: session_ack_def UpdateFlowControl_def intro!: receiving_update receiving_touch)
  show ?thesis
    using assms Some j close ack
    by (cases "cmSessionID msg = i") (auto simp: client_handleControl_def Let_def split: option.split)
qed

lemma sendPing_end_same: "sendPing_end i ts now ch c = Some (c', x) \<Longrightarrow> c' = del_ack_chan i c"
  by (auto simp: sendPing_end_def dest!: request_end_other split: option.splits sum.splits prod.splits)

lemma receiving_pings:
  assumes "receiving i r s c"
  shows "receiving i r s (fst (sendPing_begin j ts e c))"
    and "receiving i r s (if_ready (map_option fst (sendPing_end j ts now ch c)) c)"
  using assms
  by (auto simp: sendPing_begin_def request_begin_def Let_def split: option.split
      intro!: receiving_if_ready dest: sendPing_end_same)

lemma receiving_client:
  assumes "receiving i r s c" and "client_leaves_open i r e c" and "frame_for client_delivers i e = None"
  shows "receiving i r s (client_handle e c)"
proof (cases e)
  case (OnControl now p)
  with assms(1,2) receiving_client_control show ?thesis by simp
next
  case (OnData now topic frame)
  show ?thesis
  proof (cases "ParseTopic topic")
    case (Inr parsed)
    show ?thesis
    proof (cases "mgr_get (ptSessionID parsed) c")
      case (Some q)
      have "q = r \<longrightarrow> ptSessionID parsed = i"
        using Some assms(1) by (auto simp: receiving_def node_simps dest: node_inv_inj)
      with assms Some Inr OnData show ?thesis
        by (auto simp: frame_for_def data_frame_def client_handleData_def Let_def intro!: receiving_touch receiving_update
            split: sum.splits)
    qed (use assms(1) Inr OnData in \<open>simp add: client_handleData_def\<close>)
  qed (use assms(1) OnData in \<open>simp add: client_handleData_def\<close>)
next
  case (DialEnds j q ch)
  with assms(1,2) show ?thesis by (auto intro!: receiving_if_ready intro: receiving_dial_end)
next
  case (SocksEnds j q ch cn)
  with assms(1,2) show ?thesis by (auto intro!: receiving_if_ready intro: receiving_socks_end)
next
  case (ExecEnds j q)
  with assms(1,2) show ?thesis by (simp add: RunExec_finish_def receiving_end_session)
next
  case (ShellAnswered j q ch)
  with assms(1,2) show ?thesis by (auto intro!: receiving_if_ready intro: receiving_shell_answer)
next
  case (ShellEnds j q)
  with assms(1,2) show ?thesis by (simp add: runShellIO_finish_def receiving_end_session)
next
  case (Works q f ms ends)
  with assms(1,2) receiving_work [OF assms(1), of q f ends ms] show ?thesis by simp
qed (use assms(1,2) in \<open>simp_all add: receiving_dial receiving_socks_dial receiving_exec_start receiving_shell_start
    receiving_pings\<close>)

interpretation client_tunnel: tunnel_peer client_handle client_delivers client_leaves_open
proof unfold_locales
  show "receiving i r s d \<Longrightarrow> client_leaves_open i r e d \<Longrightarrow> frame_for client_delivers i e = None \<Longrightarrow>
      receiving i r s (client_handle e d)" for i r s e d
    by (rule receiving_client)
  fix i r s seq p and e :: client_event and d :: client
  assume "receiving i r s d" and "frame_for client_delivers i e = Some (seq, p)"
  then show "\<exists>now. client_handle e d = update_ref r (HandleData seq p) (mgr_touch now i d)"
    by (cases e)
       (auto simp: frame_for_def data_frame_def client_handleData_def receiving_def node_simps split: sum.splits if_splits)
qed

section \<open>A session the client has just registered\<close>

text \<open>Its four ways: a forwarded connection, a SOCKS5 connection, a command, a shell.\<close>

definition client_opens :: "string \<Rightarrow> nat \<Rightarrow> client \<Rightarrow> client \<Rightarrow> bool" where
  "client_opens i r c c0 \<longleftrightarrow>
     (\<exists>now target e. handleTCPConn_begin now i target e c = (c0, Some r))
     \<or> (\<exists>now e cn cn'. handleSOCKS5Conn_begin now i e cn c = (c0, cn', Some r))
     \<or> (\<exists>sb now cmd t e. RunExec_begin sb now i cmd t e c = (c0, Inr r))
     \<or> (\<exists>sb now cols rows e. runShellIO_begin sb now i cols rows e c = (c0, Inr r))"

lemma client_added:
  assumes "node_inv c" and "alloc x c = (r, c1)" and "Add now (ssId x) r (ndManager c1) = Inr m" and "unused x"
  shows "\<exists>s. receiving (ssId x) r s (c1\<lparr>ndManager := m\<rparr>) \<and> unused s"
proof -
  note al = node_inv_alloc [OF assms(1,2)]
  have "receiving (ssId x) r x (c1\<lparr>ndManager := m\<rparr>)"
    using al smSessions_Add [OF assms(3)] node_inv_alloc_add [OF assms(1-3)] by (auto simp: receiving_def)
  with assms(4) show ?thesis by blast
qed

lemma receiving_request_new:
  "\<exists>s. receiving i r s c \<and> unused s \<Longrightarrow> sendOpen_begin req e c = (c', x) \<Longrightarrow> \<exists>s. receiving i r s c' \<and> unused s"
  using receiving_request [of i r _ c req e] by fastforce

lemma client_opens_tcp:
  assumes "node_inv c" and "handleTCPConn_begin now i target e c = (c0, Some r)"
  shows "\<exists>s. receiving i r s c0 \<and> unused s"
proof -
  let ?s = "SetOnClose (NewTCPSession i (InControlTopic (clID c)) (InDataTopic (clID c) i))"
  obtain q c1 where al: "alloc ?s c = (q, c1)" by (cases "alloc ?s c")
  with assms(2) obtain m where m: "Add now i q (ndManager c1) = Inr m"
    by (auto simp: handleTCPConn_begin_def Let_def split: sum.splits)
  with assms(2) al have op: "sendOpen_begin (tcp_request i target) e (c1\<lparr>ndManager := m\<rparr>) = (c0, None)" and q: "q = r"
    by (auto simp: handleTCPConn_begin_def Let_def split: prod.splits option.splits)
  have "unused ?s" by (simp add: unused_def SetOnClose_def new_session_defs)
  with client_added [OF assms(1) al [unfolded q]] m q receiving_request_new [OF _ op] show ?thesis by simp
qed

lemma client_opens_new_session:
  assumes "node_inv c" and "alloc (NewExecClientSession i) c = (r, c1)" and "Add now i r (ndManager c1) = Inr m"
  shows "\<exists>s. receiving i r s (update_ref r (\<lambda>s. fst (session_start ShellStarted s)) (c1\<lparr>ndManager := m\<rparr>)) \<and> unused s"
proof -
  have "unused (NewExecClientSession i)" by (simp add: unused_def new_session_defs)
  with client_added [OF assms(1,2)] assms(3)
  obtain s where s: "receiving i r s (c1\<lparr>ndManager := m\<rparr>)" "unused s" by auto
  have "receiving i r s (update_ref r (\<lambda>s. fst (session_start ShellStarted s)) (c1\<lparr>ndManager := m\<rparr>))"
    by (rule receiving_update [OF s(1)]) (simp_all add: session_start_def Let_def split: session_kind.split)
  with s(2) show ?thesis by blast
qed

lemma client_opens_unused:
  assumes "node_inv c" and "client_opens i r c c0"
  shows "\<exists>s. receiving i r s c0 \<and> unused s"
  using assms(2) unfolding client_opens_def
proof (elim disjE exE)
  fix now target e
  assume "handleTCPConn_begin now i target e c = (c0, Some r)"
  then show ?thesis by (rule client_opens_tcp [OF assms(1)])
next
  fix now e cn cn'
  assume starts: "handleSOCKS5Conn_begin now i e cn c = (c0, cn', Some r)"
  obtain cn1 x where h: "Handshake cn = (cn1, x)" by (cases "Handshake cn")
  with starts obtain target where x: "x = Inr target" by (cases x) (simp_all add: handleSOCKS5Conn_begin_def)
  from starts h x have "handleTCPConn_begin now i target e c = (c0, Some r)"
    by (auto simp: handleSOCKS5Conn_begin_def handleTCPConn_begin_def Let_def split: prod.splits sum.splits option.splits)
  then show ?thesis by (rule client_opens_tcp [OF assms(1)])
next
  fix sb now cmd t e
  assume starts: "RunExec_begin sb now i cmd t e c = (c0, Inr r)"
  obtain q c1 where al: "alloc (NewExecClientSession i) c = (q, c1)" by (cases "alloc (NewExecClientSession i) c")
  with starts obtain m where m: "Add now i q (ndManager c1) = Inr m"
    by (auto simp: RunExec_begin_def split: prod.splits option.splits sum.splits)
  define c2 where "c2 = update_ref q (\<lambda>s. fst (session_start ShellStarted s)) (c1\<lparr>ndManager := m\<rparr>)"
  have op: "sendOpen_begin (exec_request i cmd t) e (registerCloseCh i c2) = (c0, None)" and q: "q = r"
    using starts al m by (auto simp: RunExec_begin_def c2_def Let_def split: prod.splits option.splits)
  have "\<exists>s. receiving i r s (registerCloseCh i c2) \<and> unused s"
    using client_opens_new_session [OF assms(1) al m] q by (simp add: c2_def)
  then show ?thesis by (rule receiving_request_new [OF _ op])
next
  fix sb now cols rows e
  assume starts: "runShellIO_begin sb now i cols rows e c = (c0, Inr r)"
  obtain q c1 where al: "alloc (NewExecClientSession i) c = (q, c1)" by (cases "alloc (NewExecClientSession i) c")
  with starts obtain m where m: "Add now i q (ndManager c1) = Inr m"
    by (auto simp: runShellIO_begin_def split: prod.splits option.splits sum.splits)
  define c2 where "c2 = update_ref q (\<lambda>s. fst (session_start ShellStarted s)) (c1\<lparr>ndManager := m\<rparr>)"
  have op: "sendOpen_begin (shell_request i cols rows) e c2 = (c0, None)" and q: "q = r"
    using starts al m by (auto simp: runShellIO_begin_def c2_def Let_def split: prod.splits option.splits)
  have "\<exists>s. receiving i r s c2 \<and> unused s"
    using client_opens_new_session [OF assms(1) al m] q by (simp add: c2_def)
  then show ?thesis by (rule receiving_request_new [OF _ op])
qed

lemma client_serving:
  assumes "node_inv c" and "client_opens i r c c0"
  shows "serving pl N b {} i r c0 []"
proof -
  obtain s where "receiving i r s c0" "unused s" using client_opens_unused [OF assms] by blast
  moreover from this(2) have "session_inv pl N ReorderBufSize b {} s []"
    by (intro session_inv_new) (simp_all add: unused_def)
  ultimately show ?thesis unfolding serving_def by blast
qed

text \<open>An example: a connection is forwarded, the device accepts, and the frame of a write arrives twice.\<close>

definition example_dial :: client where
  "example_dial = fst (handleTCPConn_begin 0 ''a'' ''h:1'' None (New_client ''dev''))"

definition example_answers :: "client_event feed list" where
  "example_answers = [Net (OnData 1 (OutDataTopic ''dev'' ''a'') (EncodeDataFrame 0 [7, 8])),
     Net (OnData 2 (OutDataTopic ''dev'' ''a'') (EncodeDataFrame 0 [7, 8])), Consume]"

lemma example_dial_eq: "handleTCPConn_begin 0 ''a'' ''h:1'' None (New_client ''dev'') = (example_dial, Some 0)"
    "mgr_get ''a'' example_dial = Some 0"
  by (simp_all add: example_dial_def handleTCPConn_begin_def New_client_def alloc_def Add_def NewSessionManager_def Let_def
      sendOpen_begin_def request_begin_def mgr_get_eq emit_def)

lemma client_inv_new: "node_inv (New_client i)"
  using sm_inv_New by (simp add: node_inv_def New_client_def NewSessionManager_def)

lemma example_answers_result:
  assumes "client_opens ''a'' 0 (New_client ''dev'') c0"
  shows "\<exists>c1 s. feed_peer client_handle 0 example_answers c0 = (c1, [[7, 8]])
    \<and> ndHeap c1 0 = Some s \<and> rbDataCh (fst (ssReorder s)) = []"
proof -
  let ?f = "EncodeDataFrame 0 [7, 8]" and ?t = "OutDataTopic ''dev'' ''a''"
  obtain s where s: "ndHeap c0 0 = Some s" "ssReorder s = (NewReorderBuffer ReorderBufSize, Idle)"
      "ssQueue s = []" "mgr_get ''a'' c0 = Some 0"
    using client_opens_unused [OF client_inv_new assms] by (fastforce simp: receiving_def unused_def node_simps)
  have h: "client_handleData now ?t ?f d = update_ref 0 (HandleData 0 [7, 8]) (mgr_touch now ''a'' d)"
    if "mgr_get ''a'' d = Some 0" for now d
    using that ParseTopic_data [of "''dev''" "''a''" topicOut]
    by (simp add: OutDataTopic_def client_handleData_def Let_def DecodeDataFrame_Encode data_topic_parts_def)
  show ?thesis
    using s
    by (simp add: example_answers_def h node_simps consume_def HandleData_def session_take_def resume_insert_def example_inserts)
qed

text \<open>What the broker brings in the example, to whatever client.\<close>

lemma example_answers_frames:
  "feed_frames client_delivers ''a'' example_answers = [(0, [7, 8]), (0, [7, 8])]"
  using data_frame_on [OF data_topics_of(2), of "''dev''" "''a''"]
  by (simp add: example_answers_def frame_for_def DecodeDataFrame_Encode)

lemma example_answers_open: "stays_open client_handle (client_leaves_open ''a'' 0) 0 example_answers c0"
  by (simp add: example_answers_def split: prod.split)

section \<open>Main properties\<close>

text \<open>C2. What a client's session takes is a prefix of what the device wrote, from the moment the client registers the session, before the open is even answered, and whatever else the client does meanwhile, as long as nothing ends the session. If every frame has come in reach and the channel is empty, it is all of what was written.\<close>

theorem downlink_delivery:
  assumes "run wr_step (fresh_writer topic) wes w" and "length (numbered wes) < 2 ^ 32"
    and "node_inv c" and "client_opens i r c c0"
    and "level dev" and "from_writer client_delivers (OutDataTopic dev) i wes evs"
    and "stays_open client_handle (client_leaves_open i r) r evs c0"
    and "feed_peer client_handle r evs c0 = (c1, taken)"
  shows "(\<exists>rest. written wes = concat taken @ rest)
    \<and> (snd w = WIdle \<and> in_reach ReorderBufSize {} (map (\<lambda>f. unat (fst f)) (feed_frames client_delivers i evs))
         \<and> {0..<length (numbered wes)} \<subseteq> set (map (\<lambda>f. unat (fst f)) (feed_frames client_delivers i evs))
         \<and> (\<forall>s. ndHeap c1 r = Some s \<longrightarrow> rbDataCh (fst (ssReorder s)) = []) \<longrightarrow> written wes = concat taken)"
  by (rule client_tunnel.tunnel_bytes [OF assms(1,2) client_serving [OF assms(3,4)] assms(8,7,6) data_topics_of(2) [OF assms(5)]])

theorem downlink_delivery_witness:
  "\<exists>c1. feed_peer client_handle 0 example_answers example_dial = (c1, [[7, 8]])
     \<and> written (example_writes (OutDataTopic ''dev'' ''a'')) = concat [[7, 8]]"
proof -
  let ?es = "example_writes (OutDataTopic ''dev'' ''a'')"
  have op: "client_opens ''a'' 0 (New_client ''dev'') example_dial"
    using example_dial_eq(1) unfolding client_opens_def by blast
  obtain c1 s where f: "feed_peer client_handle 0 example_answers example_dial = (c1, [[7, 8]])" "ndHeap c1 0 = Some s"
      "rbDataCh (fst (ssReorder s)) = []"
    using example_answers_result [OF op] by blast
  obtain sw where w: "run wr_step (fresh_writer (OutDataTopic ''dev'' ''a'')) ?es (sw, WIdle)"
    using example_writes_run by blast
  have net: "from_writer client_delivers (OutDataTopic ''dev'') ''a'' ?es example_answers"
    by (auto simp: from_writer_def example_answers_def example_writes_def data_pub_def intro!: exI [of _ "''a''"])
  have len: "length (numbered ?es) < 2 ^ 32" by (simp add: example_writes_def)
  from downlink_delivery [OF w len client_inv_new op _ net example_answers_open f(1)] f
  show ?thesis by (simp add: example_answers_frames example_writes_def ReorderBufSize_def)
qed

end
