(* ===== verification/Credit.thy ===== *)
theory Credit
  imports Shutdown Uplink Downlink Loops
begin

text \<open>
  The way back of the credit: the goroutine that takes a session's data at one peer acknowledges totals,
  the other peer handles the acknowledgements among all its other events, and a writer that waits there
  for its window gets it. The session of a command has no such way, which decides how much it can print.
\<close>

section \<open>The sessions of a client over time\<close>

context session_order
begin

lemma evolves_chans [simp]:
  "evolves R r c (c'\<lparr>clAckChans := x\<rparr>) = evolves R r c c'" "evolves R r c (c'\<lparr>clCloseChs := y\<rparr>) = evolves R r c c'"
  "evolves R r c (registerCloseCh j c') = evolves R r c c'" "evolves R r c (unregisterCloseCh j c') = evolves R r c c'"
  "evolves R r c (del_ack_chan j c') = evolves R r c c'"
  by (simp_all add: registerCloseCh_def unregisterCloseCh_def del_ack_chan_def evolves_def)

lemma evolves_give_up: "evolves R r c c' \<Longrightarrow> evolves R r c (give_up j q c')"
  by (auto simp: give_up_def drop_conn_def intro: evolves_update conn)

lemma evolves_request: "evolves R r c c' \<Longrightarrow> evolves R r c (fst (sendOpen_begin req e c'))"
  by (auto simp: sendOpen_begin_def request_begin_def Let_def split: option.split)

lemma evolves_end_session: "evolves R r c c' \<Longrightarrow> evolves R r c (client_end_session j q c')"
  by (simp add: client_end_session_def evolves_close)

lemma evolves_start_ref: "evolves R r c c' \<Longrightarrow> evolves R r c (start_ref j q c')"
proof (cases "ndHeap c' q")
  case (Some x)
  assume c: "evolves R r c c'"
  have "snd (session_start ShellStarted x) = None"
    by (simp add: session_start_def Let_def split: session_kind.split)
  then obtain y where y: "session_start ShellStarted x = (y, None)" by (cases "session_start ShellStarted x") simp
  have "evolves R r c (update_ref q (\<lambda>_. fst (session_start ShellStarted x)) c')"
  proof -
    have "update_ref q (\<lambda>_. fst (session_start ShellStarted x)) c' = update_ref q (\<lambda>s. fst (session_start ShellStarted s)) c'"
      using Some by (simp add: update_ref_def)
    with c show ?thesis by (simp add: evolves_update start)
  qed
  with Some y show ?thesis by (simp add: start_ref_def)
qed (simp add: start_ref_def)

lemma evolves_if_ready: "(\<And>c'. x = Some c' \<Longrightarrow> evolves R r c c') \<Longrightarrow> evolves R r c (if_ready x c)"
  by (simp add: if_ready_def split: option.split)

lemma evolves_dial:
  assumes "node_inv c"
  shows "evolves R r c (fst (handleTCPConn_begin now j target e c))"
proof -
  let ?s = "SetOnClose (NewTCPSession j (InControlTopic (clID c)) (InDataTopic (clID c) j))"
  obtain q c1 where al: "alloc ?s c = (q, c1)" by (cases "alloc ?s c")
  have c1: "evolves R r c c1" by (rule evolves_alloc [OF assms al])
  show ?thesis
  proof (cases "Add now j q (ndManager c1)")
    case (Inl err)
    with al c1 show ?thesis by (auto simp: handleTCPConn_begin_def drop_conn_def intro: evolves_update conn)
  next
    case (Inr m)
    obtain c2 x where op: "sendOpen_begin (tcp_request j target) e (c1\<lparr>ndManager := m\<rparr>) = (c2, x)"
      by (cases "sendOpen_begin (tcp_request j target) e (c1\<lparr>ndManager := m\<rparr>)")
    have "evolves R r c c2" using evolves_request [of r c "c1\<lparr>ndManager := m\<rparr>" "tcp_request j target" e] c1 op by simp
    with al Inr op show ?thesis by (simp add: handleTCPConn_begin_def evolves_give_up split: option.split)
  qed
qed

lemma evolves_dial_end: "handleTCPConn_end j q ch c = Some c' \<Longrightarrow> evolves R r c c'"
  by (auto simp: handleTCPConn_end_def evolves_give_up evolves_start_ref dest!: sendOpen_end_same
      split: option.splits sum.splits if_splits)

lemma evolves_socks_end: "handleSOCKS5Conn_end j q ch cn c = Some (c', cn') \<Longrightarrow> evolves R r c c'"
  by (auto simp: handleSOCKS5Conn_end_def evolves_give_up evolves_start_ref dest!: sendOpen_end_same
      split: option.splits sum.splits if_splits prod.splits)

lemma evolves_exec_start:
  assumes "node_inv c"
  shows "evolves R r c (fst (RunExec_begin sb now j cmd t e c))"
proof -
  obtain subs x where sub: "client_subscribe sb c = (subs, x)" by (cases "client_subscribe sb c")
  obtain q c1 where al: "alloc (NewExecClientSession j) c = (q, c1)" by (cases "alloc (NewExecClientSession j) c")
  have c1: "evolves R r c c1" by (rule evolves_alloc [OF assms al])
  show ?thesis
  proof (cases "Add now j q (ndManager c1)")
    case (Inr m)
    let ?c3 = "registerCloseCh j (update_ref q (\<lambda>s. fst (session_start ShellStarted s)) (c1\<lparr>ndManager := m\<rparr>))"
    obtain c4 y where op: "sendOpen_begin (exec_request j cmd t) e ?c3 = (c4, y)"
      by (cases "sendOpen_begin (exec_request j cmd t) e ?c3")
    have "evolves R r c ?c3" using c1 by (simp add: evolves_update start)
    from evolves_request [OF this, of "exec_request j cmd t" e] op have "evolves R r c c4" by simp
    with sub al Inr op show ?thesis
      by (simp add: RunExec_begin_def Let_def evolves_end_session split: option.split)
  qed (use sub al c1 in \<open>auto simp: RunExec_begin_def split: option.split\<close>)
qed

lemma evolves_shell_start:
  assumes "node_inv c"
  shows "evolves R r c (fst (runShellIO_begin sb now j cols rows e c))"
proof -
  obtain subs x where sub: "client_subscribe sb c = (subs, x)" by (cases "client_subscribe sb c")
  obtain q c1 where al: "alloc (NewExecClientSession j) c = (q, c1)" by (cases "alloc (NewExecClientSession j) c")
  have c1: "evolves R r c c1" by (rule evolves_alloc [OF assms al])
  show ?thesis
  proof (cases "Add now j q (ndManager c1)")
    case (Inr m)
    let ?c2 = "update_ref q (\<lambda>s. fst (session_start ShellStarted s)) (c1\<lparr>ndManager := m\<rparr>)"
    obtain c3 x where op: "sendOpen_begin (shell_request j cols rows) e ?c2 = (c3, x)"
      by (cases "sendOpen_begin (shell_request j cols rows) e ?c2")
    have "evolves R r c ?c2" using c1 by (simp add: evolves_update start)
    from evolves_request [OF this, of "shell_request j cols rows" e] op have "evolves R r c c3" by simp
    with sub al Inr op show ?thesis
      by (simp add: runShellIO_begin_def Let_def evolves_end_session split: option.split)
  qed (use sub al c1 in \<open>auto simp: runShellIO_begin_def split: option.split\<close>)
qed

lemma evolves_shell_answer: "runShellIO_answer j q ch c = Some (c', res) \<Longrightarrow> evolves R r c c'"
  by (auto simp: runShellIO_answer_def evolves_end_session dest!: sendOpen_end_same
      split: option.splits sum.splits if_splits)

lemma evolves_client_control: "evolves R r c (client_handleControl now p c)"
  by (auto simp: client_handleControl_def Let_def intro!: evolves_close evolves_update ack split: option.split)

lemma evolves_client_data: "evolves R r c (client_handleData now topic frame c)"
  by (auto simp: client_handleData_def Let_def intro!: evolves_update data split: option.split sum.split)

lemma client_evolves:
  assumes "node_inv c" and "\<And>f ms ends s. e = Works r f ms ends \<Longrightarrow> R s (f s)"
  shows "evolves R r c (client_handle e c)"
proof (cases e)
  case (SocksDials now i e' cn)
  with socks_begin_tcp [of now i e' cn c] evolves_dial [OF assms(1)] show ?thesis
    by (metis client_handle.simps(5) evolves_refl)
next
  case (DialEnds i q ch)
  then show ?thesis by (auto intro!: evolves_if_ready intro: evolves_dial_end)
next
  case (SocksEnds i q ch cn)
  then show ?thesis by (auto intro!: evolves_if_ready intro: evolves_socks_end)
next
  case (ShellAnswered i q ch)
  then show ?thesis by (auto intro!: evolves_if_ready intro: evolves_shell_answer)
next
  case (Pings i ts e')
  then show ?thesis by (auto simp: sendPing_begin_def request_begin_def Let_def split: option.split)
next
  case (PingEnds i ts now ch)
  then show ?thesis by (auto intro!: evolves_if_ready dest: sendPing_end_same)
next
  case (Works q f ms ends)
  with evolves_work [of q r f c ms ends] assms(2) show ?thesis by simp
qed (simp_all add: evolves_client_control evolves_client_data evolves_dial evolves_exec_start evolves_shell_start
    RunExec_finish_def runShellIO_finish_def evolves_end_session evolves_CloseAll assms(1))

end

section \<open>Credit does not shrink\<close>

text \<open>The window of a session whose writer sends nothing: its acknowledged total can only grow.\<close>

definition fc_of :: "session \<Rightarrow> FlowControl" where
  "fc_of s = swFc (ssWriter s)"

definition credit_grows :: "session \<Rightarrow> session \<Rightarrow> bool" where
  "credit_grows s t \<longleftrightarrow> ssKind t = ssKind s \<and> fcSent (fc_of t) = fcSent (fc_of s)
     \<and> fcWindow (fc_of t) = fcWindow (fc_of s) \<and> fcAcked (fc_of s) \<le> fcAcked (fc_of t)
     \<and> (fcAcked (fc_of s) \<le> fcSent (fc_of s) \<longrightarrow> fcAcked (fc_of t) \<le> fcSent (fc_of s))"

lemma credit_grows_writer: "ssKind t = ssKind s \<Longrightarrow> ssWriter t = ssWriter s \<Longrightarrow> credit_grows s t"
  by (simp add: credit_grows_def fc_of_def)

lemma session_Close_writer: "ssWriter (fst (session_Close s)) = ssWriter s"
  by (cases "ssKind s") (simp_all add: session_Close_def close_defs)

interpretation credit_order: session_order credit_grows
proof unfold_locales
  show "credit_grows s s" for s by (simp add: credit_grows_def)
  show "credit_grows s t \<Longrightarrow> credit_grows t u \<Longrightarrow> credit_grows s u" for s t u
    by (auto simp: credit_grows_def)
  show "credit_grows s (HandleData seq p s)" for s seq p
    by (rule credit_grows_writer) (auto simp: HandleData_def split: prod.split insert_thread.split)
  show "credit_grows s (session_ack a s)" for s a
    by (auto simp: credit_grows_def session_ack_def UpdateFlowControl_def fc_of_def fcAcked_UpdateAck)
  show "credit_grows s (Resize cols rows s)" for s cols rows
    by (rule credit_grows_writer) (auto simp: Resize_def)
  show "credit_grows s (fst (session_start sh s))" for s sh
    by (rule credit_grows_writer) (auto simp: session_start_def Let_def split: session_kind.split shell_start.split)
  show "credit_grows s (s\<lparr>ssConn := c\<rparr>)" for s c
    by (rule credit_grows_writer) simp_all
  show "credit_grows s (fst (session_take s))" for s
    by (rule credit_grows_writer) (auto simp: session_take_def split: prod.split list.split)
  show "credit_grows s (fst (session_Close s))" for s
    by (rule credit_grows_writer) (simp_all add: session_Close_writer)
qed

section \<open>A waiting writer gets its window\<close>

text \<open>
  All that was sent was consumed, and the last total the consumer acknowledged was handled: less than a
  quarter of the window is outstanding, so three quarters may be sent.
\<close>

lemma window_opens:
  assumes "writeTo_loop newSessionAckState cs = (bytes, acks, over)" and "length bytes < 2 ^ 64"
    and "fcSent (fc_of x) = of_nat (length bytes)" and "fcWindow (fc_of x) = FlowControlWindow"
    and "fcAcked (fc_of x) \<le> fcSent (fc_of x)" and "credit_grows x x'"
    and "acks \<noteq> [] \<Longrightarrow> min (last acks) (fcSent (fc_of x)) \<le> fcAcked (fc_of x')" and "unat n \<le> 196608"
  shows "WaitForWindow_round False n (fc_of x') = (fc_of x', WindowOpen)"
proof -
  have inv: "ack_inv 0 newSessionAckState"
    by (simp add: ack_inv_def newSessionAckState_def FlowControlWindow_def)
  have n: "length bytes = chunk_bytes (delivered cs)"
    using writeTo_loop_bytes [of newSessionAckState cs] assms(1) by (simp add: chunk_bytes_def length_concat)
  note loop = writeTo_loop_acks [OF inv, of cs, unfolded assms(1) fst_conv snd_conv]
  have last: "length bytes < (if acks = [] then 0 else unat (last acks)) + 65536" "\<forall>a \<in> set acks. unat a \<le> length bytes"
    using loop assms(2) n by (simp_all add: last_total_def newSessionAckState_def)
  have sent: "unat (fcSent (fc_of x')) = length bytes" "fcSent (fc_of x') = fcSent (fc_of x)"
    using assms(2,3,6) by (simp_all add: credit_grows_def unat_of_nat take_bit_nat_eq_self)
  have le: "fcAcked (fc_of x') \<le> fcSent (fc_of x')" using assms(5,6) sent(2) by (simp add: credit_grows_def)
  have near: "length bytes < unat (fcAcked (fc_of x')) + 65536"
  proof (cases "acks = []")
    case False
    then have "unat (last acks) \<le> length bytes" using last(2) by simp
    then have "last acks \<le> fcSent (fc_of x)" using sent by (simp add: word_le_nat_alt)
    with assms(7) [OF False] have "unat (last acks) \<le> unat (fcAcked (fc_of x'))" by (simp add: min_def word_le_nat_alt)
    with last(1) False show ?thesis by simp
  qed (use last(1) in simp)
  have w: "fcWindow (fc_of x') = FlowControlWindow" using assms(4,6) by (simp add: credit_grows_def)
  have "fc_inv (fc_of x')"
    using near w le sent(1) by (simp add: fc_inv_unat FlowControlWindow_def word_le_nat_alt)
  from CanSend_unat [OF this, of n] assms(8) w near sent(1)
  have "CanSend n (fc_of x')" by (simp add: FlowControlWindow_def)
  then show ?thesis by (simp add: WaitForWindow_round_def)
qed

section \<open>Acknowledgements at a peer\<close>

definition ack_in :: "payload \<Rightarrow> (string \<times> u64) option" where
  "ack_in p = (case read_msg (payload_text p) of
     None \<Rightarrow> None
   | Some msg \<Rightarrow> if cmType msg = MessageTypeAck then Some (cmSessionID msg, cmAckBytes msg) else None)"

text \<open>
  What the return of credit asks of a peer that keeps sessions open: other events only let the credit
  of a waiting writer grow (\<open>waits\<close>: the events that are not its own sending), and an acknowledgement for a
  session reaches it.
\<close>

locale credit_peer = tunnel_peer handle delivers leaves_open
  for handle :: "'e \<Rightarrow> 'a node_scheme \<Rightarrow> 'a node_scheme"
    and delivers :: "'e \<Rightarrow> (string \<times> byte list) option"
    and leaves_open :: "string \<Rightarrow> nat \<Rightarrow> 'e \<Rightarrow> 'a node_scheme \<Rightarrow> bool" +
  fixes waits :: "nat \<Rightarrow> 'e \<Rightarrow> bool"
    and acks :: "'e \<Rightarrow> (string \<times> u64) option"
  assumes grows: "node_inv d \<Longrightarrow> waits r e \<Longrightarrow> evolves credit_grows r d (handle e d)"
    and credits: "receiving i r s d \<Longrightarrow> acks e = Some (i, a) \<Longrightarrow>
      \<exists>now. handle e d = update_ref r (session_ack a) (mgr_touch now i d)"
begin

lemma registered_step:
  assumes "receiving i r s d" and "leaves_open i r e d"
  shows "\<exists>s'. receiving i r s' (handle e d)"
proof (cases "frame_for delivers i e")
  case None
  with keeps [OF assms] show ?thesis by blast
next
  case (Some f)
  then obtain seq p where f: "frame_for delivers i e = Some (seq, p)" by (cases f) auto
  obtain now where h: "handle e d = update_ref r (HandleData seq p) (mgr_touch now i d)"
    using brings [OF assms(1) f] by blast
  have "ssId (HandleData seq p x) = ssId x" for x
    by (simp add: HandleData_def split: prod.split insert_thread.split)
  with assms(1) node_inv_update_ref [OF node_inv_touch, of d "HandleData seq p" r now i] show ?thesis
    unfolding h by (auto simp: receiving_def node_simps)
qed

lemma registered_consume:
  assumes "receiving i r s d" and "ndHeap d r = Some x" and "consume r d = (d', out)"
  shows "\<exists>s'. receiving i r s' d'" and "\<exists>x'. ndHeap d' r = Some x' \<and> credit_grows x x'"
proof -
  obtain x1 t where t: "session_take x = (x1, t)" by (cases "session_take x")
  have x1: "credit_grows x x1" "ssId x1 = ssId x"
    using credit_order.take [of x] t by (auto simp: session_take_def split: prod.splits list.splits)
  have "(\<exists>s'. receiving i r s' d') \<and> (\<exists>x'. ndHeap d' r = Some x' \<and> credit_grows x x')"
  proof (cases t)
    case None
    with assms t show ?thesis by (auto simp: consume_def intro: credit_order.same)
  next
    case (Some p)
    then have d': "d' = update_ref r (\<lambda>_. x1) d" using assms t by (simp add: consume_def)
    then have "receiving i r x1 d'"
      using assms(1,2) node_inv_replace [of d r x x1] x1(2) by (auto simp: receiving_def node_simps)
    with x1(1) assms(2) d' show ?thesis by (auto simp: node_simps)
  qed
  then show "\<exists>s'. receiving i r s' d'" and "\<exists>x'. ndHeap d' r = Some x' \<and> credit_grows x x'" by blast+
qed

lemma credit_run:
  assumes "receiving i r s d" and "ndHeap d r = Some x" and "has_UpdateFlowControl (ssKind x)"
    and "stays_open handle (leaves_open i r) r evs d" and "feed_peer handle r evs d = (d', taken)"
    and "\<forall>e. Net e \<in> set evs \<longrightarrow> waits r e"
  shows "\<exists>x'. ndHeap d' r = Some x' \<and> credit_grows x x'
    \<and> (\<forall>e a. Net e \<in> set evs \<longrightarrow> acks e = Some (i, a) \<longrightarrow> min a (fcSent (fc_of x)) \<le> fcAcked (fc_of x'))"
  using assms
proof (induction evs arbitrary: s d x taken)
  case Nil
  then show ?case by (auto intro: credit_order.same)
next
  case (Cons ev evs)
  show ?case
  proof (cases ev)
    case (Net e)
    have inv: "node_inv d" using Cons.prems(1) by (simp add: receiving_def)
    obtain s1 where s1: "receiving i r s1 (handle e d)"
      using registered_step [OF Cons.prems(1), of e] Cons.prems(4) Net by auto
    obtain x1 where x1: "ndHeap (handle e d) r = Some x1" "credit_grows x x1"
      using evolvesD [OF grows [OF inv] Cons.prems(2), of e] Cons.prems(6) Net by auto
    have kind: "has_UpdateFlowControl (ssKind x1)" using x1(2) Cons.prems(3) by (simp add: credit_grows_def)
    obtain x' where x': "ndHeap d' r = Some x'" "credit_grows x1 x'"
        "\<forall>e a. Net e \<in> set evs \<longrightarrow> acks e = Some (i, a) \<longrightarrow> min a (fcSent (fc_of x1)) \<le> fcAcked (fc_of x')"
      using Cons.IH [OF s1 x1(1) kind, of taken] Cons.prems(4-6) Net by auto
    have here: "min a (fcSent (fc_of x)) \<le> fcAcked (fc_of x')" if a: "acks e = Some (i, a)" for a
    proof -
      obtain now where "handle e d = update_ref r (session_ack a) (mgr_touch now i d)"
        using credits [OF Cons.prems(1) a] by blast
      then have "x1 = session_ack a x" using x1(1) Cons.prems(2) by (simp add: node_simps)
      then have "min a (fcSent (fc_of x)) \<le> fcAcked (fc_of x1)"
        using Cons.prems(3) by (simp add: session_ack_def UpdateFlowControl_def fc_of_def fcAcked_UpdateAck)
      also have "\<dots> \<le> fcAcked (fc_of x')" using x'(2) by (simp add: credit_grows_def)
      finally show ?thesis .
    qed
    have "credit_grows x x'" by (rule credit_order.step [OF x1(2) x'(2)])
    moreover have "fcSent (fc_of x1) = fcSent (fc_of x)" using x1(2) by (simp add: credit_grows_def)
    ultimately show ?thesis using x'(1,3) here Net by auto
  next
    case Consume
    obtain d1 out where c: "consume r d = (d1, out)" by (cases "consume r d")
    obtain s1 x1 where s1: "receiving i r s1 d1" and x1: "ndHeap d1 r = Some x1" "credit_grows x x1"
      using registered_consume [OF Cons.prems(1,2) c] by blast
    have kind: "has_UpdateFlowControl (ssKind x1)" using x1(2) Cons.prems(3) by (simp add: credit_grows_def)
    obtain taken1 where "feed_peer handle r evs d1 = (d', taken1)"
      using Cons.prems(5) Consume c by (auto split: prod.splits)
    from Cons.IH [OF s1 x1(1) kind _ this] Cons.prems(4,6) Consume c obtain x' where x':
        "ndHeap d' r = Some x'" "credit_grows x1 x'"
        "\<forall>e a. Net e \<in> set evs \<longrightarrow> acks e = Some (i, a) \<longrightarrow> min a (fcSent (fc_of x1)) \<le> fcAcked (fc_of x')"
      by auto
    have "credit_grows x x'" by (rule credit_order.step [OF x1(2) x'(2)])
    moreover have "fcSent (fc_of x1) = fcSent (fc_of x)" using x1(2) by (simp add: credit_grows_def)
    ultimately show ?thesis using x'(1,3) Consume by auto
  qed
qed

text \<open>\<open>totals\<close> are what the consumer \<open>q\<close> at the other peer acknowledged.\<close>

lemma window_returns:
  assumes "writeTo_loop newSessionAckState cs = (bytes, totals, over)" and "length bytes < 2 ^ 64"
    and "node_inv d" and "mgr_get i d = Some r" and "ndHeap d r = Some x" and "has_UpdateFlowControl (ssKind x)"
    and "fcSent (fc_of x) = of_nat (length bytes)" and "fcWindow (fc_of x) = FlowControlWindow"
    and "fcAcked (fc_of x) \<le> fcSent (fc_of x)"
    and "stays_open handle (leaves_open i r) r evs d" and "feed_peer handle r evs d = (d', taken)"
    and "\<forall>e. Net e \<in> set evs \<longrightarrow> waits r e"
    and "totals \<noteq> [] \<longrightarrow> (\<exists>e. Net e \<in> set evs \<and> acks e = Some (i, last totals))"
  shows "\<exists>x'. ndHeap d' r = Some x' \<and>
    (\<forall>n. unat n \<le> 196608 \<longrightarrow> WaitForWindow_round False n (fc_of x') = (fc_of x', WindowOpen))"
proof -
  have "receiving i r x d" using assms(3-5) by (simp add: receiving_def mgr_get_eq)
  from credit_run [OF this assms(5,6,10-12)] obtain x' where x': "ndHeap d' r = Some x'" "credit_grows x x'"
      "\<forall>e a. Net e \<in> set evs \<longrightarrow> acks e = Some (i, a) \<longrightarrow> min a (fcSent (fc_of x)) \<le> fcAcked (fc_of x')"
    by blast
  with window_opens [OF assms(1,2,7-9) x'(2)] assms(13) show ?thesis by blast
qed

end

subsection \<open>The client and the device\<close>

definition own_sending :: "nat \<Rightarrow> nat \<Rightarrow> (session \<Rightarrow> session) \<Rightarrow> bool" where
  "own_sending r q f \<longleftrightarrow> q = r \<and> \<not> (\<forall>s. ssKind (f s) = ssKind s \<and> ssWriter (f s) = ssWriter s)"

fun client_waits :: "nat \<Rightarrow> client_event \<Rightarrow> bool" where
  "client_waits r (Works q f ms ends) \<longleftrightarrow> \<not> own_sending r q f"
| "client_waits r _ \<longleftrightarrow> True"

fun client_acks :: "client_event \<Rightarrow> (string \<times> u64) option" where
  "client_acks (OnControl now p) = ack_in p"
| "client_acks _ = None"

fun device_waits :: "nat \<Rightarrow> device_event \<Rightarrow> bool" where
  "device_waits r (Work q f ms ends) \<longleftrightarrow> \<not> own_sending r q f"
| "device_waits r _ \<longleftrightarrow> True"

fun device_acks :: "device_event \<Rightarrow> (string \<times> u64) option" where
  "device_acks (InControl now dial sh p) = ack_in p"
| "device_acks _ = None"

lemma ack_in_read:
  assumes "ack_in p = Some (i, a)"
  obtains j msg where "payload_json p = Some j" "Unmarshal j = Some msg" "cmType msg = MessageTypeAck"
    "cmSessionID msg = i" "cmAckBytes msg = a"
  using assms unfolding ack_in_def payload_read_msg [symmetric] by (auto split: option.splits if_splits)

lemma ack_in_sent:
  assumes "valid_utf8 (ssId s)"
  shows "ack_in (pmPayload (session_sendAck s a)) = Some (ssId s, a)"
proof -
  have "wire_ok (ack_msg (ssId s) a)"
    using assms by (simp add: ack_msg_def wire_ok_def msg_ok_def msg_utf8_def zeroMessage_def int64_ok_def message_type_defs)
  then have "pub_control (session_sendAck s a) = Some (ack_msg (ssId s) a)"
    by (simp add: session_sendAck_def pub_control_control_pub)
  then have "read_msg (payload_text (pmPayload (session_sendAck s a))) = Some (ack_msg (ssId s) a)"
    by (simp add: pub_control_def payload_read_msg)
  then show ?thesis by (simp add: ack_in_def ack_msg_def)
qed

interpretation client_credit: credit_peer client_handle client_delivers client_leaves_open client_waits client_acks
proof unfold_locales
  fix c :: client and r e
  assume "node_inv c" and "client_waits r e"
  then show "evolves credit_grows r c (client_handle e c)"
    by (intro credit_order.client_evolves) (auto simp: own_sending_def intro: credit_grows_writer)
next
  fix i r s a e and c :: client
  assume reg: "receiving i r s c" and ack: "client_acks e = Some (i, a)"
  then obtain now p where e: "e = OnControl now p" "ack_in p = Some (i, a)" by (cases e) auto
  obtain j msg where "payload_json p = Some j" "Unmarshal j = Some msg" "cmType msg = MessageTypeAck"
      "cmSessionID msg = i" "cmAckBytes msg = a"
    by (rule ack_in_read [OF e(2)])
  with reg e(1) show "\<exists>now. client_handle e c = update_ref r (session_ack a) (mgr_touch now i c)"
    by (auto simp: client_handleControl_def receiving_def node_simps message_type_defs)
qed

interpretation device_credit: credit_peer device_handle device_delivers device_leaves_open device_waits device_acks
proof unfold_locales
  fix d :: device and r e
  assume "node_inv d" and "device_waits r e"
  then show "evolves credit_grows r d (device_handle e d)"
    by (intro credit_order.device_evolves) (auto simp: own_sending_def intro: credit_grows_writer)
next
  fix i r s a e and d :: device
  assume reg: "receiving i r s d" and ack: "device_acks e = Some (i, a)"
  then obtain now dial sh p where e: "e = InControl now dial sh p" "ack_in p = Some (i, a)" by (cases e) auto
  obtain j msg where "payload_json p = Some j" "Unmarshal j = Some msg" "cmType msg = MessageTypeAck"
      "cmSessionID msg = i" "cmAckBytes msg = a"
    by (rule ack_in_read [OF e(2)])
  with reg e(1) show "\<exists>now. device_handle e d = update_ref r (session_ack a) (mgr_touch now i d)"
    by (auto simp: handleControl_def handleAck_def receiving_def node_simps message_type_defs)
qed

lemma downlink_credit:
  assumes "writeTo_loop newSessionAckState cs = (bytes, totals, over)" and "length bytes < 2 ^ 64"
    and "ssId q = i" and "valid_utf8 i"
    and "node_inv d" and "mgr_get i d = Some r" and "ndHeap d r = Some x" and "has_UpdateFlowControl (ssKind x)"
    and "fcSent (fc_of x) = of_nat (length bytes)" and "fcWindow (fc_of x) = FlowControlWindow"
    and "fcAcked (fc_of x) \<le> fcSent (fc_of x)"
    and "stays_open device_handle (device_leaves_open i r) r evs d" and "feed_peer device_handle r evs d = (d', taken)"
    and "\<forall>e. Net e \<in> set evs \<longrightarrow> device_waits r e"
    and "totals \<noteq> [] \<longrightarrow> (\<exists>now dial sh. Net (InControl now dial sh (pmPayload (session_sendAck q (last totals)))) \<in> set evs)"
  shows "\<exists>x'. ndHeap d' r = Some x' \<and>
    (\<forall>n. unat n \<le> 196608 \<longrightarrow> WaitForWindow_round False n (fc_of x') = (fc_of x', WindowOpen))"
proof -
  have "ack_in (pmPayload (session_sendAck q (last totals))) = Some (i, last totals)"
    using ack_in_sent [of q] assms(3,4) by simp
  with assms(15) have "totals \<noteq> [] \<longrightarrow> (\<exists>e. Net e \<in> set evs \<and> device_acks e = Some (i, last totals))" by fastforce
  from device_credit.window_returns [OF assms(1,2,5-14) this] show ?thesis .
qed

section \<open>No credit for a command\<close>

text \<open>
  The type switch of \<open>handleAck\<close> has no case for a command's session. So nothing that a device handles
  touches the writer of such a session, and the window it starts with is all it ever has.
\<close>

interpretation command_order: session_order "\<lambda>s t. ssKind s = KExec \<longrightarrow> ssKind t = KExec \<and> ssWriter t = ssWriter s"
proof unfold_locales
  show "ssKind s = KExec \<longrightarrow> ssKind (fst (session_start sh s)) = KExec \<and> ssWriter (fst (session_start sh s)) = ssWriter s"
    for s sh by (simp add: session_start_def Let_def)
  show "ssKind s = KExec \<longrightarrow> ssKind (fst (session_take s)) = KExec \<and> ssWriter (fst (session_take s)) = ssWriter s" for s
    by (simp add: session_take_def split: prod.split list.split)
  show "ssKind s = KExec \<longrightarrow> ssKind (session_ack a s) = KExec \<and> ssWriter (session_ack a s) = ssWriter s" for s a
    by (simp add: session_ack_def)
qed (auto simp: HandleData_def Resize_def session_Close_fields session_Close_writer split: prod.split insert_thread.split)

definition not_work_of :: "nat \<Rightarrow> device_event \<Rightarrow> bool" where
  "not_work_of r e \<longleftrightarrow> (case e of Work q f ms ends \<Rightarrow> q \<noteq> r | _ \<Rightarrow> True)"

lemma command_writer_stays:
  assumes "run device_step d es d'" and "device_inv d" and "\<forall>l \<in> set es. not_work_of r (fst l)"
    and "ndHeap d r = Some s" and "ssKind s = KExec"
  shows "device_inv d' \<and> (\<exists>t. ndHeap d' r = Some t \<and> ssKind t = KExec \<and> ssWriter t = ssWriter s)"
  using assms
proof (induction rule: run.induct)
  case (run_snoc es t l u)
  obtain e where l: "l = (e, step_output e t)" "u = device_handle e t" "possible e t"
    using run_snoc.hyps(2) by (auto elim: device_stepE)
  obtain x where x: "device_inv t" "ndHeap t r = Some x" "ssKind x = KExec" "ssWriter x = ssWriter s"
    using run_snoc.IH run_snoc.prems by auto
  have inv: "node_inv t" using x(1) by (simp add: device_inv_def)
  have "evolves (\<lambda>s t. ssKind s = KExec \<longrightarrow> ssKind t = KExec \<and> ssWriter t = ssWriter s) r t (device_handle e t)"
    by (rule command_order.device_evolves [OF inv]) (use run_snoc.prems(2) l(1) in \<open>auto simp: not_work_of_def\<close>)
  from evolvesD [OF this x(2)] x l device_inv_handle show ?case by auto
qed auto

text \<open>A client whose writer has sent a quarter of its window.\<close>

definition example_sender :: session where
  "example_sender = (NewTCPSession ''a'' [] [])\<lparr>ssWriter :=
     (NewSequenceWriter [] (NewFlowControl FlowControlWindow))\<lparr>swFc := (NewFlowControl FlowControlWindow)\<lparr>fcSent := 65536\<rparr>\<rparr>\<rparr>"

definition example_waiting :: client where
  "example_waiting = (New_client ''dev'')\<lparr>ndHeap := [0 \<mapsto> example_sender], ndNext := 1,
     ndManager := \<lparr>smSessions = [''a'' \<mapsto> 0], smLastSeen = [''a'' \<mapsto> 0]\<rparr>\<rparr>"

text \<open>A command that prints blocks of 32 KB and exits.\<close>

definition example_print :: "nat \<Rightarrow> exec_env" where
  "example_print n = \<lparr>exStdoutErr = None, exStderrErr = None, exStartErr = None, exPid = 7,
     exReads = map (\<lambda>d. (d, None)) (replicate n (replicate 32768 0)) @ [([], Some ''EOF'')], exWait = Some WaitOk\<rparr>"

section \<open>Main properties\<close>

text \<open>C5. When the device has consumed all that a client's session sent, and its last acknowledgement is among the events the client handles, in whatever company and order, then the client's writer does not wait any longer, for any payload of up to 192 KB.\<close>

theorem uplink_credit:
  assumes "writeTo_loop newSessionAckState cs = (bytes, totals, over)" and "length bytes < 2 ^ 64"
    and "ssId q = i" and "valid_utf8 i"
    and "node_inv c" and "mgr_get i c = Some r" and "ndHeap c r = Some x" and "has_UpdateFlowControl (ssKind x)"
    and "fcSent (fc_of x) = of_nat (length bytes)" and "fcWindow (fc_of x) = FlowControlWindow"
    and "fcAcked (fc_of x) \<le> fcSent (fc_of x)"
    and "stays_open client_handle (client_leaves_open i r) r evs c" and "feed_peer client_handle r evs c = (c', taken)"
    and "\<forall>e. Net e \<in> set evs \<longrightarrow> client_waits r e"
    and "totals \<noteq> [] \<longrightarrow> (\<exists>now. Net (OnControl now (pmPayload (session_sendAck q (last totals)))) \<in> set evs)"
  shows "\<exists>x'. ndHeap c' r = Some x' \<and>
    (\<forall>n. unat n \<le> 196608 \<longrightarrow> WaitForWindow_round False n (fc_of x') = (fc_of x', WindowOpen))"
proof -
  have "ack_in (pmPayload (session_sendAck q (last totals))) = Some (i, last totals)"
    using ack_in_sent [of q] assms(3,4) by simp
  with assms(15) have "totals \<noteq> [] \<longrightarrow> (\<exists>e. Net e \<in> set evs \<and> client_acks e = Some (i, last totals))" by fastforce
  from client_credit.window_returns [OF assms(1,2,5-14) this] show ?thesis .
qed

theorem uplink_credit_witness:
  "\<exists>c' x'. feed_peer client_handle 0
       [Net (OnControl 1 (pmPayload (session_sendAck (NewTCPSession ''a'' [] []) 65536)))] example_waiting = (c', [])
     \<and> ndHeap c' 0 = Some x' \<and> WaitForWindow_round False 196608 (fc_of x') = (fc_of x', WindowOpen)"
proof -
  let ?q = "NewTCPSession ''a'' [] []"
  let ?e = "OnControl 1 (pmPayload (session_sendAck ?q 65536))"
  have q: "ssId ?q = ''a''" "valid_utf8 ''a''" by (simp_all add: new_session_defs)
  have loop: "writeTo_loop newSessionAckState [DataArrives (replicate 65536 0) True] = (replicate 65536 0, [65536], False)"
    by (simp add: ackState_record_def newSessionAckState_def FlowControlWindow_def)
  have inv: "node_inv example_waiting"
    by (auto simp: node_inv_def example_waiting_def New_client_def sm_inv_def example_sender_def new_session_defs)
  have reg: "mgr_get ''a'' example_waiting = Some 0" "ndHeap example_waiting 0 = Some example_sender"
    by (simp_all add: mgr_get_eq example_waiting_def)
  have x: "has_UpdateFlowControl (ssKind example_sender)" "fcSent (fc_of example_sender) = of_nat (length (replicate 65536 (0 :: byte)))"
      "fcWindow (fc_of example_sender) = FlowControlWindow" "fcAcked (fc_of example_sender) \<le> fcSent (fc_of example_sender)"
    by (simp_all add: example_sender_def new_session_defs fc_of_def NewFlowControl_def)
  have msg: "ack_in (pmPayload (session_sendAck ?q 65536)) = Some (''a'', 65536)"
    using ack_in_sent [of ?q 65536] q by simp
  have stays: "stays_open client_handle (client_leaves_open ''a'' 0) 0 [Net ?e] example_waiting"
    using msg by (auto simp: ack_in_def message_type_defs split: option.splits if_splits)
  have feed: "feed_peer client_handle 0 [Net ?e] example_waiting = (client_handle ?e example_waiting, [])" by simp
  from uplink_credit [OF loop _ q inv reg x stays feed] feed show ?thesis by fastforce
qed

text \<open>C15. Acknowledgements, and everything else a device handles, leave the window of a command's session as it is; so a command with a broker that accepts everything gets to its close message, behind all of its output, exactly if the output has at most 256 KB. With more, the session stops in the middle of the output for ever and no status is sent.\<close>

theorem exec_window:
  assumes "run device_step d es d'" and "device_inv d" and "\<forall>l \<in> set es. not_work_of r (fst l)"
    and "ndHeap d r = Some s" and "ssKind s = KExec" and "\<not> ssCancelled s"
    and "ssWriter s = NewSequenceWriter topic (NewFlowControl FlowControlWindow)"
    and "command_prints env ds" and "length (concat ds) < 2 ^ 64"
    and "exec_run (\<lambda>_. True) env s = (s', out, ended)"
  shows "(\<exists>t. ndHeap d' r = Some t \<and> ssWriter t = ssWriter s)
    \<and> (if length (concat ds) \<le> 262144
       then ended \<noteq> None \<and> (\<exists>code err. out = number_from topic 0 (concat (map chunks ds)) @ [exec_sendClose s code err])
       else ended = None \<and> (\<forall>m \<in> set out. \<exists>b. pmPayload m = PData b))"
  using command_writer_stays [OF assms(1-5)] exec_run_fits [OF assms(8) _ assms(6,7,10,5)]
    exec_run_stalls [OF assms(8) _ assms(9,6,7,10)] by auto

theorem exec_window_witness:
  "snd (snd (exec_run (\<lambda>_. True) (example_print 8) (NewExecSession ''e'' ''yes'' [] ''t''))) \<noteq> None
   \<and> snd (snd (exec_run (\<lambda>_. True) (example_print 9) (NewExecSession ''e'' ''yes'' [] ''t''))) = None"
proof -
  let ?s = "NewExecSession ''e'' ''yes'' [] ''t''"
  let ?d = "(fresh_device ''dev'' [] [])\<lparr>ndHeap := [0 \<mapsto> ?s], ndNext := 1\<rparr>"
  have d: "device_inv ?d" "ndHeap ?d 0 = Some ?s"
    by (auto simp: device_inv_def node_inv_def registered_open_def fresh_device_eq NewSessionManager_def sm_inv_def)
  have ends: "if n * 32768 \<le> 262144 then snd (snd (exec_run (\<lambda>_. True) (example_print n) ?s)) \<noteq> None
      else snd (snd (exec_run (\<lambda>_. True) (example_print n) ?s)) = None" if "n < 10" for n
  proof -
    let ?ds = "replicate n (replicate 32768 (0 :: byte))"
    have l: "length (concat ?ds) = n * 32768" by (simp add: length_concat sum_list_replicate)
    have p: "command_prints (example_print n) ?ds" by (simp add: command_prints_def example_print_def)
    obtain s' out ended where r: "exec_run (\<lambda>_. True) (example_print n) ?s = (s', out, ended)"
      by (cases "exec_run (\<lambda>_. True) (example_print n) ?s")
    have "if n * 32768 \<le> 262144 then ended \<noteq> None else ended = None"
      using exec_window [OF run_nil d(1) _ d(2) _ _ _ p _ r, of "''t''"] that unfolding l
      by (auto simp: new_session_defs split: if_splits)
    with r show ?thesis by simp
  qed
  show ?thesis using ends [of 8] ends [of 9] by simp
qed

end
