(* ===== verification/Agreement.thy ===== *)
theory Agreement
  imports Downlink Device
begin

text \<open>
  A client and a device that agree: when a request of the client has succeeded, the device has opened
  the session that was asked for. The device is any run of its own, with whatever other clients; the
  client is any run of its own; what they share is that the client hears on its control topic what
  the device has published there.
\<close>

section \<open>The invariant of the client\<close>

lemma node_inv_drop_conn: "node_inv c \<Longrightarrow> node_inv (drop_conn r c)"
  by (simp add: drop_conn_def node_inv_update_ref)

lemma node_inv_give_up: "node_inv c \<Longrightarrow> node_inv (give_up i r c)"
  by (simp add: give_up_def node_inv_drop_conn node_inv_remove)

lemma node_inv_chans [simp]:
  "node_inv (registerCloseCh j c) \<longleftrightarrow> node_inv c" "node_inv (unregisterCloseCh j c) \<longleftrightarrow> node_inv c"
  "node_inv (del_ack_chan j c) \<longleftrightarrow> node_inv c"
  "node_inv (c\<lparr>clAckChans := x\<rparr>) \<longleftrightarrow> node_inv c" "node_inv (c\<lparr>clCloseChs := y\<rparr>) \<longleftrightarrow> node_inv c"
  by (simp_all add: registerCloseCh_def unregisterCloseCh_def del_ack_chan_def node_inv_def)

lemma node_inv_request: "node_inv c \<Longrightarrow> request_begin i m e c = (c', x) \<Longrightarrow> node_inv c'"
  by (auto simp: request_begin_def Let_def split: option.splits)

lemma node_inv_sendOpen: "node_inv c \<Longrightarrow> sendOpen_begin req e c = (c', x) \<Longrightarrow> node_inv c'"
  unfolding sendOpen_begin_def by (rule node_inv_request)

lemma node_inv_end_session: "node_inv c \<Longrightarrow> node_inv (client_end_session i r c)"
  by (simp add: client_end_session_def node_inv_remove node_inv_close_ref)

lemma session_start_id [simp]: "ssId (fst (session_start sh s)) = ssId s"
  by simp

lemma node_inv_start_ref: "node_inv c \<Longrightarrow> node_inv (start_ref i r c)"
  by (auto simp: start_ref_def split: option.split prod.split
      intro!: node_inv_give_up node_inv_replace dest: session_start_id [THEN trans])
     (metis fst_conv session_start_id node_inv_replace)+

lemma node_inv_tcp_begin:
  assumes "node_inv c"
  shows "node_inv (fst (handleTCPConn_begin now i target e c))"
proof -
  let ?s = "SetOnClose (NewTCPSession i (InControlTopic (clID c)) (InDataTopic (clID c) i))"
  obtain q c1 where al: "alloc ?s c = (q, c1)" by (cases "alloc ?s c")
  note inv = node_inv_alloc(1) [OF assms al] node_inv_alloc_add [OF assms al]
  show ?thesis
    using al inv by (auto simp: handleTCPConn_begin_def Let_def split: sum.split prod.split option.split
        intro!: node_inv_drop_conn node_inv_give_up intro: node_inv_sendOpen)
qed

lemma node_inv_exec_begin:
  assumes "node_inv c"
  shows "node_inv (fst (RunExec_begin sb now i cmd t e c))" "node_inv (fst (runShellIO_begin sb now i cols rows e c))"
proof -
  obtain q c1 where al: "alloc (NewExecClientSession i) c = (q, c1)" by (cases "alloc (NewExecClientSession i) c")
  note inv = node_inv_alloc(1) [OF assms al] node_inv_alloc_add [OF assms al]
  show "node_inv (fst (RunExec_begin sb now i cmd t e c))" "node_inv (fst (runShellIO_begin sb now i cols rows e c))"
    using al inv assms
    by (auto simp: RunExec_begin_def runShellIO_begin_def Let_def split: sum.split prod.split option.split
        intro!: node_inv_end_session node_inv_update_ref elim!: node_inv_sendOpen [rotated])
qed

fun client_possible :: "client_event \<Rightarrow> bool" where
  "client_possible (Works r f ms ends) \<longleftrightarrow> (\<forall>s. ssId (f s) = ssId s)"
| "client_possible e \<longleftrightarrow> True"

lemma node_inv_if_ready: "node_inv c \<Longrightarrow> (\<And>c'. x = Some c' \<Longrightarrow> node_inv c') \<Longrightarrow> node_inv (if_ready x c)"
  by (simp add: if_ready_def split: option.split)

lemma node_inv_ends:
  assumes "node_inv c"
  shows "handleTCPConn_end i r ch c = Some c' \<Longrightarrow> node_inv c'"
    and "handleSOCKS5Conn_end i r ch cn c = Some (c', cn') \<Longrightarrow> node_inv c'"
    and "runShellIO_answer i r ch c = Some (c', res) \<Longrightarrow> node_inv c'"
    and "sendPing_end i ts now ch c = Some (c', t) \<Longrightarrow> node_inv c'"
  using assms
  by (auto simp: handleTCPConn_end_def handleSOCKS5Conn_end_def runShellIO_answer_def
      split: option.splits sum.splits if_splits prod.splits dest!: sendOpen_end_same sendPing_end_same
      intro!: node_inv_give_up node_inv_start_ref node_inv_end_session)

lemma node_inv_client_control: "node_inv c \<Longrightarrow> node_inv (client_handleControl now p c)"
  by (auto simp: client_handleControl_def Let_def session_ack_def UpdateFlowControl_def
      intro!: node_inv_remove node_inv_close_ref node_inv_update_ref node_inv_touch split: option.split)

lemma node_inv_client_data: "node_inv c \<Longrightarrow> node_inv (client_handleData now t f c)"
  by (auto simp: client_handleData_def Let_def intro!: node_inv_update_ref node_inv_touch split: option.split sum.split)

lemma node_inv_client:
  assumes "node_inv c" and "client_possible e"
  shows "node_inv (client_handle e c)"
proof (cases e)
  case (SocksDials now i err cn)
  then show ?thesis
    using socks_begin_tcp [of now i err cn c] node_inv_tcp_begin [OF assms(1)] assms(1) by (metis client_handle.simps(5))
next
  case (Pings i ts err)
  then show ?thesis
    using node_inv_request [OF assms(1)] by (simp add: sendPing_begin_def) (metis prod.collapse)
next
  case (Works r f ms ends)
  with assms show ?thesis by (auto simp: Let_def intro!: node_inv_close_ref node_inv_update_ref)
qed (use assms in \<open>auto simp: node_inv_client_control node_inv_client_data node_inv_tcp_begin node_inv_exec_begin
      RunExec_finish_def runShellIO_finish_def intro!: node_inv_end_session node_inv_CloseAll node_inv_if_ready
      dest: node_inv_ends\<close>)

section \<open>The answer a request gets\<close>

text \<open>The id an operation of the client waits for an answer under. The ids are fresh UUIDs.\<close>

fun event_id :: "client_event \<Rightarrow> string option" where
  "event_id (Dials now i target e) = Some i"
| "event_id (DialEnds i r ch) = Some i"
| "event_id (SocksDials now i e cn) = Some i"
| "event_id (SocksEnds i r ch cn) = Some i"
| "event_id (ExecStarts sb now i cmd t e) = Some i"
| "event_id (ShellStarts sb now i cols rows e) = Some i"
| "event_id (ShellAnswered i r ch) = Some i"
| "event_id (Pings i ts e) = Some i"
| "event_id (PingEnds i ts now ch) = Some i"
| "event_id _ = None"

definition client_run :: "client_event list \<Rightarrow> client \<Rightarrow> client" where
  "client_run evs c = foldl (\<lambda>c e. client_handle e c) c evs"

lemma client_run_simps [simp]: "client_run [] c = c" "client_run (e # evs) c = client_run evs (client_handle e c)"
  by (simp_all add: client_run_def)

lemma chan_node_ops [simp]:
  "clAckChans (drop_conn r c) = clAckChans c" "clAckChans (give_up j r c) = clAckChans c"
  "clAckChans (registerCloseCh j c) = clAckChans c" "clAckChans (unregisterCloseCh j c) = clAckChans c"
  "clAckChans (client_end_session j r c) = clAckChans c" "clAckChans (start_ref j r c) = clAckChans c"
  by (simp_all add: drop_conn_def give_up_def registerCloseCh_def unregisterCloseCh_def client_end_session_def
      start_ref_def node_simps split: option.split prod.split)

lemma chan_alloc: "alloc s c = (r, c1) \<Longrightarrow> clAckChans c1 = clAckChans c"
  by (auto simp: alloc_def)

lemma chan_del [simp]: "j \<noteq> i \<Longrightarrow> clAckChans (del_ack_chan j c) i = clAckChans c i"
  by (simp add: del_ack_chan_def)

lemma chan_request: "request_begin j m e c = (c', x) \<Longrightarrow> j \<noteq> i \<Longrightarrow> clAckChans c' i = clAckChans c i"
  by (auto simp: request_begin_def Let_def node_simps split: option.splits)

lemma chan_sendOpen: "sendOpen_begin req e c = (c', x) \<Longrightarrow> orSessionID req \<noteq> i \<Longrightarrow> clAckChans c' i = clAckChans c i"
  unfolding sendOpen_begin_def by (rule chan_request)

lemma chan_begins:
  assumes "j \<noteq> i"
  shows "clAckChans (fst (handleTCPConn_begin now j target e c)) i = clAckChans c i"
    and "clAckChans (fst (RunExec_begin sb now j cmd t e c)) i = clAckChans c i"
    and "clAckChans (fst (runShellIO_begin sb now j cols rows e c)) i = clAckChans c i"
  using assms
  by (auto simp: handleTCPConn_begin_def RunExec_begin_def runShellIO_begin_def Let_def tcp_request_def exec_request_def
      shell_request_def node_simps split: sum.split prod.split option.split dest!: chan_sendOpen [where i = i] chan_alloc)

lemma chan_ends:
  assumes "j \<noteq> i"
  shows "handleTCPConn_end j r ch c = Some c' \<Longrightarrow> clAckChans c' i = clAckChans c i"
    and "handleSOCKS5Conn_end j r ch cn c = Some (c', cn') \<Longrightarrow> clAckChans c' i = clAckChans c i"
    and "runShellIO_answer j r ch c = Some (c', res) \<Longrightarrow> clAckChans c' i = clAckChans c i"
    and "sendPing_end j ts now ch c = Some (c', t) \<Longrightarrow> clAckChans c' i = clAckChans c i"
  using assms
  by (auto simp: handleTCPConn_end_def handleSOCKS5Conn_end_def runShellIO_answer_def
      split: option.splits sum.splits if_splits prod.splits dest!: sendOpen_end_same sendPing_end_same)

lemma chan_if_ready: "(\<And>c'. x = Some c' \<Longrightarrow> clAckChans c' i = clAckChans c i) \<Longrightarrow>
    clAckChans (if_ready x c) i = clAckChans c i"
  by (simp add: if_ready_def split: option.split)

lemma chan_close_each: "clAckChans (close_each order c) = clAckChans c"
  unfolding close_each_def by (induction order arbitrary: c) (auto simp: node_simps)

lemma chan_step:
  assumes "event_id e \<noteq> Some i"
  shows "clAckChans (client_handle e c) i = (case e of
      OnControl now p \<Rightarrow> (case (clAckChans c i, answers i p) of (Some None, Some m) \<Rightarrow> Some (Some m) | _ \<Rightarrow> clAckChans c i)
    | _ \<Rightarrow> clAckChans c i)"
proof (cases e)
  case (OnControl now p)
  then show ?thesis by (simp add: handleControl_ack_chan)
next
  case (SocksDials now j err cn)
  then have "j \<noteq> i" using assms by simp
  from chan_begins(1) [OF this] SocksDials show ?thesis
    using socks_begin_tcp [of now j err cn c] by auto
next
  case (Pings j ts err)
  then have "j \<noteq> i" using assms by simp
  from Pings chan_request [OF _ this] show ?thesis by (auto simp: sendPing_begin_def) (metis prod.collapse)
next
  case (Stops order)
  then show ?thesis by (simp add: CloseAll_def Let_def chan_close_each)
qed (use assms in \<open>auto simp: handleData_ack_chan chan_begins RunExec_finish_def runShellIO_finish_def node_simps Let_def
      intro!: chan_if_ready dest: chan_ends\<close>)

text \<open>What is in the channel at the end came in a control message.\<close>

lemma chan_run:
  assumes "\<forall>e \<in> set evs. event_id e \<noteq> Some i" and "clAckChans (client_run evs c) i = Some (Some m)"
    and "clAckChans c i = Some None"
  shows "\<exists>now p. OnControl now p \<in> set evs \<and> answers i p = Some m"
proof -
  have "clAckChans c i = Some (Some m) \<or> (\<exists>now p. OnControl now p \<in> set evs \<and> answers i p = Some m)"
    using assms(1,2)
  proof (induction evs arbitrary: c)
    case (Cons e evs)
    from Cons.IH [of "client_handle e c"] Cons.prems
    consider "clAckChans (client_handle e c) i = Some (Some m)" | "\<exists>now p. OnControl now p \<in> set evs \<and> answers i p = Some m"
      by auto
    then show ?case
    proof cases
      case 1
      have "event_id e \<noteq> Some i" using Cons.prems(1) by simp
      from 1 chan_step [OF this, of c] show ?thesis
        by (cases e) (auto split: option.splits)
    qed auto
  qed simp
  with assms(3) show ?thesis by simp
qed

section \<open>What a device says\<close>

text \<open>
  A message that announces no success, if it is one of the control topic. The goroutines of the
  sessions publish such messages only: data frames, acknowledgements, close messages.
\<close>

definition quiet :: "string \<Rightarrow> PubMessage \<Rightarrow> bool" where
  "quiet dev x \<longleftrightarrow> (pmTopic x = OutControlTopic dev \<longrightarrow>
     (\<exists>m. pmPayload x = PJson (Marshal m) \<and> msg_ok m \<and> \<not> cmSuccess m))"

fun sends_own :: "string \<Rightarrow> device_event \<Rightarrow> bool" where
  "sends_own dev (Work r f ms ends) \<longleftrightarrow> (\<forall>x \<in> set ms. quiet dev x)"
| "sends_own dev e \<longleftrightarrow> True"

text \<open>The event is an open request that the device accepts: the session runs, its target answered.\<close>

definition opens_here :: "device_event \<Rightarrow> device \<Rightarrow> ControlMessage \<Rightarrow> bool" where
  "opens_here e d msg \<longleftrightarrow> (\<exists>now dial sh p. e = InControl now dial sh p \<and> read_msg (payload_text p) = Some msg
     \<and> cmType msg = MessageTypeOpen \<and> open_accepted msg d (device_handle e d)
     \<and> (cmMode msg = SessionModeTCP \<longrightarrow> dial (cmTarget msg) = None))"

lemma quiet_control: "msg_ok m \<Longrightarrow> \<not> cmSuccess m \<Longrightarrow> quiet dev (control_pub t q r m)"
  by (auto simp: quiet_def control_pub_def)

lemma quiet_simple [simp]:
  "quiet dev (sendCloseMsg s)" "quiet dev (reject_pub d i)"
  "quiet dev (control_pub t q r (open_ack_msg i False e))"
  "int64_ok ts \<Longrightarrow> quiet dev (control_pub t q r (pong_msg i ts v a))"
  unfolding sendCloseMsg_def reject_pub_def
  by (rule quiet_control; simp add: msg_ok_def close_msg_def reject_msg_def open_ack_msg_def pong_msg_def
      zeroMessage_def int64_ok_def)+

definition says :: "device \<Rightarrow> (PubMessage \<Rightarrow> bool) \<Rightarrow> device \<Rightarrow> bool" where
  "says d P d' \<longleftrightarrow> (\<exists>ms. ndOut d' = ndOut d @ ms \<and> (\<forall>x \<in> set ms. P x))"

lemma says_same: "ndOut d' = ndOut d \<Longrightarrow> says d P d'"
  by (simp add: says_def)

lemma says_trans: "says d P d1 \<Longrightarrow> says d1 P d2 \<Longrightarrow> says d P d2"
  by (fastforce simp: says_def)

lemma says_close_ref: "says d (quiet dev) (close_ref r d)"
  by (auto simp: says_def node_simps split: option.split)

lemma says_close_each: "says d (quiet dev) (close_each order d)"
  unfolding close_each_def
proof (induction order arbitrary: d)
  case (Cons x order)
  obtain i r where x: "x = (i, r)" by (cases x)
  show ?case using says_trans [OF says_close_ref Cons.IH] by (simp add: x)
qed (simp add: says_same)

lemma says_cleanup: "says d (quiet dev) (node_cleanup now order d)"
  using says_close_each [of "d\<lparr>ndManager := m\<rparr>" dev order for m] by (simp add: node_cleanup_def says_def)

lemma says_CloseAll: "says d (quiet dev) (CloseAll order d)"
  using says_close_each [of d dev order] by (simp add: CloseAll_def Let_def says_def)

lemma says_reject: "says d (quiet dev) (sendUnknownSessionReject now i d)"
  by (auto simp: sendUnknownSessionReject_def says_def node_simps)

lemma opened_target:
  assumes "open_accepted msg d (handleOpen now dial sh msg d)" and "cmMode msg = SessionModeTCP"
  shows "dial (cmTarget msg) = None"
proof (rule ccontr)
  assume "dial (cmTarget msg) \<noteq> None"
  then obtain e where "build_session dial msg d = Inl e" using assms(2) by (auto simp: build_session_def)
  then have "smSessions (ndManager (handleOpen now dial sh msg d)) = smSessions (ndManager d)"
    by (simp add: handleOpen_def Let_def sendOpenAck_def node_simps)
  with assms(1) show False unfolding open_accepted_def by (metis fun_upd_same option.distinct(1))
qed

text \<open>All that a step adds: quiet messages, or the acknowledgement of a session it opens.\<close>

definition fair_word :: "device_event \<Rightarrow> device \<Rightarrow> PubMessage \<Rightarrow> bool" where
  "fair_word e d x \<longleftrightarrow> quiet (dvID d) x \<or> (\<exists>msg. opens_here e d msg
     \<and> x = control_pub (OutControlTopic (dvID d)) 1 [] (open_ack_msg (cmSessionID msg) True []))"

lemma says_fair: "says d (quiet (dvID d)) d' \<Longrightarrow> says d (fair_word e d) d'"
  by (auto simp: says_def fair_word_def)

lemma device_says:
  assumes inv: "device_inv d" and own: "sends_own (dvID d) e"
  shows "says d (fair_word e d) (device_handle e d)"
proof (cases e)
  case (InControl now dial sh p)
  show ?thesis
  proof (cases "read_msg (payload_text p)")
    case None
    then have "handleControl now dial sh p d = d"
      by (auto simp: handleControl_def read_msg_def payload_json_def split: option.splits)
    with InControl show ?thesis by (simp add: says_same)
  next
    case (Some msg)
    then obtain j where j: "payload_json p = Some j" "Unmarshal j = Some msg"
      by (auto simp: read_msg_def payload_json_def split: option.splits)
    have ts: "int64_ok (cmTimestamp msg)" using read_msg_ok [OF Some] by (simp add: wire_ok_def msg_ok_def)
    show ?thesis
    proof (cases "cmType msg = MessageTypeOpen")
      case True
      then have h: "device_handle e d = handleOpen now dial sh msg d" using InControl j by (simp add: handleControl_def)
      have "node_inv d" using inv by (simp add: device_inv_def)
      from handleOpen_result [OF this refl, of now dial sh msg]
      consider err where "open_refused msg err d (device_handle e d)" | "open_accepted msg d (device_handle e d)"
        unfolding h by blast
      then show ?thesis
      proof cases
        case 1
        then show ?thesis by (intro says_fair) (auto simp: says_def open_refused_def)
      next
        case 2
        with True InControl Some opened_target [of msg d now dial sh] have "opens_here e d msg"
          unfolding opens_here_def h by auto
        with 2 show ?thesis by (auto simp: says_def open_accepted_def fair_word_def)
      qed
    next
      case False
      have "says d (quiet (dvID d)) (handleControl now dial sh p d)"
        using j ts False
        by (auto simp: handleControl_def handleClose_def handleResize_def handlePing_def handleAck_def node_simps
            intro: says_same says_reject split: option.split)
           (auto simp: says_def node_simps split: option.split)
      with InControl show ?thesis by (simp add: says_fair)
    qed
  qed
next
  case (InData now topic frame)
  then show ?thesis
    by (auto simp: handleData_def Let_def node_simps intro!: says_fair intro: says_same says_reject
        split: sum.split option.split)
next
  case (Stale now order)
  with says_cleanup show ?thesis by (simp add: says_fair)
next
  case (CloseAllSessions order)
  with says_CloseAll show ?thesis by (simp add: says_fair)
next
  case (Work r f ms ends)
  have "says d (quiet (dvID d)) (emit ms (update_ref r f d))"
    using own Work by (simp add: says_def node_simps)
  with Work says_trans [OF this says_close_ref] show ?thesis by (auto simp: Let_def intro!: says_fair)
qed

text \<open>Over a run: everything said on the control topic is quiet or speaks of a session that was opened.\<close>

definition opened_in :: "device \<Rightarrow> (device_event \<times> PubMessage list) list \<Rightarrow> ControlMessage \<Rightarrow> bool" where
  "opened_in d0 es msg \<longleftrightarrow> (\<exists>es1 e x es2 d. es = es1 @ (e, x) # es2 \<and> run device_step d0 es1 d \<and> opens_here e d msg)"

lemma opened_in_later: "opened_in d0 es msg \<Longrightarrow> opened_in d0 (es @ fs) msg"
  by (force simp: opened_in_def)

definition fair_history :: "string \<Rightarrow> device \<Rightarrow> (device_event \<times> PubMessage list) list \<Rightarrow> PubMessage \<Rightarrow> bool" where
  "fair_history dev d0 es x \<longleftrightarrow> quiet dev x \<or> (\<exists>msg. opened_in d0 es msg
     \<and> x = control_pub (OutControlTopic dev) 1 [] (open_ack_msg (cmSessionID msg) True []))"

lemma dvID_close_each: "dvID (close_each order d) = dvID d"
  unfolding close_each_def by (induction order arbitrary: d) (auto simp: node_simps)

lemma dvID_handleOpen: "dvID (handleOpen now dial sh msg d) = dvID d"
  by (simp add: handleOpen_def Let_def sendOpenAck_def node_simps split: sum.split option.split prod.split)

lemma dvID_parts [simp]:
  "dvID (sendUnknownSessionReject now i d) = dvID d" "dvID (handleClose msg d) = dvID d"
  "dvID (handleResize msg d) = dvID d" "dvID (handlePing msg d) = dvID d"
  by (simp_all add: sendUnknownSessionReject_def handleClose_def handleResize_def handlePing_def node_simps split: option.split)

lemma dvID_handleAck [simp]: "dvID (handleAck now msg d) = dvID d"
  by (simp add: handleAck_def node_simps split: option.split)

lemma dvID_handle: "dvID (device_handle e d) = dvID d"
  by (cases e)
     (simp_all add: handleControl_def dvID_handleOpen handleData_def Let_def node_simps node_cleanup_def CloseAll_def
       dvID_close_each split: sum.split option.split)

lemma device_history:
  assumes "run device_step d0 es d" and "ndOut d0 = []" and "\<forall>l \<in> set es. sends_own (dvID d0) (fst l)" and "device_inv d0"
  shows "dvID d = dvID d0 \<and> device_inv d \<and> (\<forall>x \<in> set (ndOut d). fair_history (dvID d0) d0 es x)"
  using assms
proof (induction rule: run.induct)
  case (run_snoc es t l u)
  obtain e where l: "l = (e, step_output e t)" "u = device_handle e t" "possible e t"
    using run_snoc.hyps(2) by (auto elim: device_stepE)
  have t: "dvID t = dvID d0" "device_inv t" "\<forall>x \<in> set (ndOut t). fair_history (dvID d0) d0 es x"
    using run_snoc.IH run_snoc.prems by simp_all
  have "sends_own (dvID t) e" using run_snoc.prems(2) t(1) l(1) by simp
  from device_says [OF t(2) this] obtain ms where ms: "ndOut u = ndOut t @ ms" "\<forall>x \<in> set ms. fair_word e t x"
    unfolding says_def l(2) by blast
  have old: "fair_history (dvID d0) d0 (es @ [l]) x" if "x \<in> set (ndOut t)" for x
    using t(3) that opened_in_later unfolding fair_history_def by blast
  have "opened_in d0 (es @ [l]) msg" if "opens_here e t msg" for msg
    using run_snoc.hyps(1) that l(1) unfolding opened_in_def by blast
  then have new: "fair_history (dvID d0) d0 (es @ [l]) x" if "x \<in> set ms" for x
    using ms(2) that t(1) unfolding fair_history_def fair_word_def by auto
  show ?case using ms(1) old new t l dvID_handle device_inv_handle by auto
qed simp

section \<open>What the client concludes\<close>

text \<open>A success that is read on the control topic comes from a session that was opened.\<close>

lemma success_read:
  assumes "fair_history dev d0 es x" and "pmTopic x = OutControlTopic dev"
    and "read_msg (payload_text (pmPayload x)) = Some m" and "cmSuccess m"
  shows "\<exists>msg. opened_in d0 es msg \<and> cmSessionID msg = cmSessionID m"
proof -
  have read: "read_msg (payload_text (PJson (Marshal m'))) = Some (msg_repair m')" if "msg_ok m'" for m'
    using read_msg_text [OF that] by (simp add: msg_text_def)
  have "\<not> quiet dev x"
  proof
    assume "quiet dev x"
    then obtain m' where m': "pmPayload x = PJson (Marshal m')" "msg_ok m'" "\<not> cmSuccess m'"
      using assms(2) by (auto simp: quiet_def)
    with read [OF m'(2)] assms(3,4) show False by (auto simp: msg_repair_def)
  qed
  with assms(1) obtain msg where msg: "opened_in d0 es msg"
      "x = control_pub (OutControlTopic dev) 1 [] (open_ack_msg (cmSessionID msg) True [])"
    by (auto simp: fair_history_def)
  then obtain p where "read_msg (payload_text p) = Some msg"
    unfolding opened_in_def opens_here_def by blast
  then have v: "valid_utf8 (cmSessionID msg)"
    using read_msg_ok by (auto simp: wire_ok_def msg_utf8_def)
  have "msg_ok (open_ack_msg (cmSessionID msg) True [])"
    by (simp add: msg_ok_def open_ack_msg_def zeroMessage_def int64_ok_def)
  with read [OF this] msg(2) assms(3) v have "cmSessionID m = cmSessionID msg"
    by (auto simp: control_pub_def msg_repair_def open_ack_msg_def utf8_repair_valid)
  with msg(1) show ?thesis by auto
qed

lemma answers_read: "answers i p = Some m \<Longrightarrow> read_msg (payload_text p) = Some m \<and> cmSessionID m = i"
  by (auto simp: answers_def read_msg_def payload_json_def split: option.splits if_splits)

text \<open>Only this client asks for the session id, and it asks for this.\<close>

definition only_asks :: "openRequest \<Rightarrow> device_event \<Rightarrow> bool" where
  "only_asks req e \<longleftrightarrow> (\<forall>now dial sh p msg. e = InControl now dial sh p \<longrightarrow> read_msg (payload_text p) = Some msg \<longrightarrow>
     cmType msg = MessageTypeOpen \<longrightarrow> cmSessionID msg = orSessionID req \<longrightarrow> msg = open_msg req)"

lemma request_success:
  assumes dev: "run device_step d0 des d" "ndOut d0 = []" "\<forall>l \<in> set des. sends_own (dvID d0) (fst l)" "device_inv d0"
    and cl: "sendOpen_begin req None c = (c0, None)" "\<forall>e \<in> set evs. event_id e \<noteq> Some (orSessionID req)"
    and net: "\<forall>now p. OnControl now p \<in> set evs \<longrightarrow> (\<exists>x \<in> set (ndOut d). pmTopic x = OutControlTopic (dvID d0) \<and> pmPayload x = p)"
    and ok: "sendOpen_end (orSessionID req) ch (client_run evs c0) = Some (c2, Inr ack)" "cmSuccess ack"
    and asks: "\<forall>l \<in> set des. only_asks req (fst l)"
  shows "opened_in d0 des (open_msg req)"
proof -
  let ?i = "orSessionID req"
  have start: "clAckChans c0 ?i = Some None"
    using cl(1) by (auto simp: sendOpen_begin_def request_begin_def node_simps)
  have chan: "clAckChans (client_run evs c0) ?i = Some (Some ack)"
    using ok(1) by (auto simp: sendOpen_end_def request_end_def split: wait_choice.splits option.splits)
  obtain now p where p: "OnControl now p \<in> set evs" "answers ?i p = Some ack"
    using chan_run [OF cl(2) chan start] by blast
  with net obtain x where x: "x \<in> set (ndOut d)" "pmTopic x = OutControlTopic (dvID d0)" "pmPayload x = p" by blast
  have "fair_history (dvID d0) d0 des x" using device_history [OF dev] x(1) by blast
  from success_read [OF this x(2)] answers_read [OF p(2)] x(3) ok(2)
  obtain msg where msg: "opened_in d0 des msg" "cmSessionID msg = ?i" by auto
  then obtain l where l: "l \<in> set des" "\<exists>d1. opens_here (fst l) d1 msg" unfolding opened_in_def by force
  with asks msg(2) have "msg = open_msg req" unfolding only_asks_def opens_here_def by blast
  with msg(1) show ?thesis by simp
qed

text \<open>An example: one open request, the device's acknowledgement, the client that waits for it.\<close>

definition example_request :: openRequest where
  "example_request = tcp_request ''a'' ''h:1''"

definition example_ack :: PubMessage where
  "example_ack = control_pub (OutControlTopic ''dev'') 1 [] (open_ack_msg ''a'' True [])"

lemma example_request_msg: "open_msg example_request = example_open" "orSessionID example_request = ''a''"
  by (simp_all add: example_request_def open_msg_def tcp_request_def example_open_def zeroMessage_def)

lemma example_ack_sent: "example_ack \<in> set (ndOut example_device)"
  by (simp add: example_device_eq example_ack_def handleOpen_def Let_def example_open_fields build_session_def
      session_mode_defs alloc_def fresh_device_eq NewSessionManager_def Add_def sendOpenAck_def node_simps
      session_start_def SetOnClose_def new_session_defs)

lemma example_ack_answers: "answers ''a'' (pmPayload example_ack) = Some (open_ack_msg ''a'' True [])"
proof -
  let ?m = "open_ack_msg ''a'' True []"
  have ok: "wire_ok ?m"
    by (simp add: wire_ok_def msg_ok_def msg_utf8_def open_ack_msg_def zeroMessage_def int64_ok_def message_type_defs)
  have "cmType ?m = MessageTypeOpenAck" "cmSessionID ?m = ''a''" by (simp_all add: open_ack_msg_def)
  with payload_control_pub [OF ok] Unmarshal_Marshal [of ?m] ok show ?thesis
    unfolding example_ack_def by (simp add: answers_def wire_ok_def)
qed

section \<open>Main properties\<close>

text \<open>C4. Agreement on opens: when an open request of a client has succeeded, the device has taken exactly this request at some earlier moment, registered and started a session of that id and mode, and, for a TCP session, dialled the target that was asked for with success. No duplicate, late or unrelated message, and no pong, can make the client believe in a session that was never opened.\<close>

theorem open_agreement:
  assumes "run device_step (fresh_device dev v a) des d" and "\<forall>l \<in> set des. sends_own dev (fst l)"
    and "sendOpen_begin req None c = (c0, None)" and "\<forall>e \<in> set evs. event_id e \<noteq> Some (orSessionID req)"
    and "\<forall>now p. OnControl now p \<in> set evs \<longrightarrow> (\<exists>x \<in> set (ndOut d). pmTopic x = OutControlTopic dev \<and> pmPayload x = p)"
    and "sendOpen_end (orSessionID req) ch (client_run evs c0) = Some (c2, Inr ack)" and "cmSuccess ack"
    and "\<forall>l \<in> set des. only_asks req (fst l)"
  shows "\<exists>des1 now dial sh p x des2 d1 d2 q s. des = des1 @ (InControl now dial sh p, x) # des2
     \<and> run device_step (fresh_device dev v a) des1 d1 \<and> read_msg (payload_text p) = Some (open_msg req)
     \<and> d2 = handleControl now dial sh p d1
     \<and> mgr_get (orSessionID req) d1 = None \<and> mgr_get (orSessionID req) d2 = Some q
     \<and> ndHeap d2 q = Some s \<and> kind_mode (ssKind s) = orMode req \<and> ssStarted s \<and> \<not> ssClosed s
     \<and> (orMode req = SessionModeTCP \<longrightarrow> dial (orTarget req) = None)"
proof -
  have "opened_in (fresh_device dev v a) des (open_msg req)"
    by (rule request_success [OF assms(1) _ _ device_inv_fresh assms(3,4) _ assms(6,7,8)])
       (use assms(2,5) in \<open>simp_all add: fresh_device_eq\<close>)
  then obtain des1 e x des2 d1 where o: "des = des1 @ (e, x) # des2" "run device_step (fresh_device dev v a) des1 d1"
      "opens_here e d1 (open_msg req)"
    unfolding opened_in_def by blast
  then obtain now dial sh p where e: "e = InControl now dial sh p" "read_msg (payload_text p) = Some (open_msg req)"
      "open_accepted (open_msg req) d1 (handleControl now dial sh p d1)"
      "cmMode (open_msg req) = SessionModeTCP \<longrightarrow> dial (cmTarget (open_msg req)) = None"
    unfolding opens_here_def by auto
  have req: "cmSessionID (open_msg req) = orSessionID req" "cmMode (open_msg req) = orMode req"
      "cmTarget (open_msg req) = orTarget req"
    by (simp_all add: open_msg_def zeroMessage_def)
  from e(3) obtain q s where "mgr_get (orSessionID req) d1 = None"
      "mgr_get (orSessionID req) (handleControl now dial sh p d1) = Some q"
      "ndHeap (handleControl now dial sh p d1) q = Some s" "kind_mode (ssKind s) = orMode req" "ssStarted s" "\<not> ssClosed s"
    unfolding open_accepted_def req mgr_get_eq by auto
  with o e req show ?thesis by (metis (no_types, lifting))
qed

theorem open_agreement_witness:
  "\<exists>d1 now dial sh p q. run device_step (fresh_device ''dev'' [] []) [] d1 \<and> mgr_get ''a'' d1 = None
     \<and> mgr_get ''a'' (handleControl now dial sh p d1) = Some q \<and> dial ''h:1'' = None"
proof -
  let ?e = "InControl 0 (\<lambda>_. None) ShellStarted (PJson (Marshal example_open))"
  let ?evs = "[OnControl 1 (pmPayload example_ack)]"
  obtain c0 where c0: "sendOpen_begin example_request None (New_client ''dev'') = (c0, None)"
    by (simp add: sendOpen_begin_def request_begin_def)
  then have "clAckChans c0 ''a'' = Some None"
    by (auto simp: sendOpen_begin_def request_begin_def example_request_msg node_simps)
  then have "clAckChans (client_run ?evs c0) ''a'' = Some (Some (open_ack_msg ''a'' True []))"
    by (simp add: handleControl_ack_chan example_ack_answers)
  then obtain c2 where c2: "sendOpen_end (orSessionID example_request) Answered (client_run ?evs c0)
      = Some (c2, Inr (open_ack_msg ''a'' True []))"
    by (simp add: sendOpen_end_def request_end_def example_request_msg)
  obtain out where run: "run device_step (fresh_device ''dev'' [] []) [(?e, out)] example_device"
    using example_device_run by blast
  have asks: "\<forall>l \<in> set [(?e, out)]. only_asks example_request (fst l)"
    using example_open_read by (simp add: only_asks_def example_request_msg payload_read_msg [symmetric])
  have heard: "\<forall>now p. OnControl now p \<in> set ?evs \<longrightarrow>
      (\<exists>x \<in> set (ndOut example_device). pmTopic x = OutControlTopic ''dev'' \<and> pmPayload x = p)"
    using example_ack_sent by (intro allI impI bexI [of _ example_ack]) (simp_all add: example_ack_def control_pub_def)
  have own: "\<forall>l \<in> set [(?e, out)]. sends_own ''dev'' (fst l)" by simp
  have ids: "\<forall>e \<in> set ?evs. event_id e \<noteq> Some (orSessionID example_request)" by simp
  have ack: "cmSuccess (open_ack_msg ''a'' True [])" by (simp add: open_ack_msg_def)
  from open_agreement [OF run own c0 ids heard c2 ack asks]
  obtain des1 now dial sh p x des2 d1 d2 q where
    o: "[(?e, out)] = des1 @ (InControl now dial sh p, x) # des2" "run device_step (fresh_device ''dev'' [] []) des1 d1"
      "mgr_get (orSessionID example_request) d1 = None"
      "d2 = handleControl now dial sh p d1" "mgr_get (orSessionID example_request) d2 = Some q"
      "orMode example_request = SessionModeTCP \<longrightarrow> dial (orTarget example_request) = None"
    by blast
  from o(1) have "des1 = []" by (cases des1) auto
  moreover have "dial ''h:1'' = None" using o(6) by (simp add: example_request_def tcp_request_def)
  ultimately show ?thesis using o(2-5) unfolding example_request_msg(2) by blast
qed

end
