(* ===== verification/Keepalive.thy ===== *)
theory Keepalive
  imports Credit Agreement
begin

text \<open>
  \<open>runSessionKeepalive\<close> and \<open>sendKeepalivePing\<close> of \<open>internal/client/client.go\<close>: the loop that pings the
  device for a session, beside everything else the client handles, and closes the session after three
  missed pings in a row.
\<close>

section \<open>The loop\<close>







section \<open>Three misses in a row\<close>






section \<open>What a ping hears\<close>








section \<open>Closing\<close>







section \<open>Main properties\<close>



end
