(* ===== verification/Exchange.thy ===== *)
theory Exchange
  imports ClientRuns Loops
begin

text \<open>
  Messages between a client and a device: a ping and its answer, an open request and its
  acknowledgement, the exit status of a command.
\<close>

section \<open>A client and a device\<close>

lemma client_hears:
  assumes "wire_ok m"
  shows "client_handleControl now (pmPayload (control_pub t q r m)) c =
     (let i = cmSessionID m in
      if cmType m = MessageTypeOpenAck \<or> cmType m = MessageTypePong then
        c\<lparr>clAckChans := offer i m (clAckChans c)\<rparr>
      else if cmType m = MessageTypeClose then
        (if clCloseChs c i \<noteq> None then c\<lparr>clCloseChs := offer i m (clCloseChs c)\<rparr>
         else (case mgr_get i c of None \<Rightarrow> c | Some r \<Rightarrow> mgr_remove i (close_ref r c)))
      else if cmType m = MessageTypeAck then
        (case mgr_get i c of None \<Rightarrow> c | Some r \<Rightarrow> update_ref r (session_ack (cmAckBytes m)) (mgr_touch now i c))
      else c)"
  using Unmarshal_Marshal assms payload_control_pub [OF assms] by (simp add: client_handleControl_def wire_ok_def)

lemma device_hears:
  assumes "wire_ok m"
  shows "handleControl now dial sh (pmPayload (control_pub t q r m)) d =
     (if cmType m = MessageTypeOpen then handleOpen now dial sh m d
      else if cmType m = MessageTypeClose then handleClose m d
      else if cmType m = MessageTypeResize then handleResize m d
      else if cmType m = MessageTypePing then handlePing m d
      else if cmType m = MessageTypeAck then handleAck now m d
      else d)"
  using Unmarshal_Marshal assms payload_control_pub [OF assms] by (simp add: handleControl_def wire_ok_def)

lemma wire_ok_simple [simp]:
  "wire_ok (open_ack_msg i b e) \<longleftrightarrow> valid_utf8 i \<and> valid_utf8 e"
  "wire_ok (close_msg i None e) \<longleftrightarrow> valid_utf8 i \<and> valid_utf8 e"
  "wire_ok (close_msg i (Some c) e) \<longleftrightarrow> int64_ok c \<and> valid_utf8 i \<and> valid_utf8 e"
  "wire_ok (ping_msg i ts) \<longleftrightarrow> int64_ok ts \<and> valid_utf8 i"
  "wire_ok (pong_msg i ts v ar) \<longleftrightarrow> int64_ok ts \<and> valid_utf8 i \<and> valid_utf8 v \<and> valid_utf8 ar"
  "wire_ok (open_msg (tcp_request i target)) \<longleftrightarrow> valid_utf8 i \<and> valid_utf8 target"
  by (auto simp: wire_ok_def msg_ok_def msg_utf8_def open_ack_msg_def close_msg_def open_msg_def tcp_request_def
      ping_msg_def pong_msg_def zeroMessage_def int64_ok_def message_type_defs session_mode_defs
      utf8_size_ascii)

text \<open>A ping, its answer and the answer's way back.\<close>

lemma ping_round_trip:
  fixes c :: client and d :: device and i :: string and ts :: int
  assumes "int64_ok ts" and "sendPing_begin i ts None c = (c1, e)"
    and "valid_utf8 i" and "valid_utf8 (dvVersion d)" and "valid_utf8 (dvArch d)"
  defines "ping \<equiv> control_pub (InControlTopic (clID c)) 0 (OutControlTopic (clID c)) (ping_msg i ts)"
    and "pong \<equiv> control_pub (OutControlTopic (dvID d)) 0 [] (pong_msg i ts (dvVersion d) (dvArch d))"
  shows "ndOut c1 = ndOut c @ [ping]"
    and "handleControl now dial sh (pmPayload ping) d = emit [pong] d"
    and "sendPing_end i t0 t1 Answered (client_handleControl t (pmPayload pong) c1)
      = Some (del_ack_chan i (client_handleControl t (pmPayload pong) c1), Inr (t1 - t0))"
proof -
  have c1: "ndOut c1 = ndOut c @ [ping]" "clAckChans c1 i = Some None"
    using assms(2) by (auto simp: sendPing_begin_def request_begin_def ping_def node_simps)
  then show "ndOut c1 = ndOut c @ [ping]" by simp
  show "handleControl now dial sh (pmPayload ping) d = emit [pong] d"
  proof -
    have m: "wire_ok (ping_msg i ts)" "cmType (ping_msg i ts) = MessageTypePing"
        "cmSessionID (ping_msg i ts) = i" "cmTimestamp (ping_msg i ts) = ts"
      using assms(1,3) by (simp, simp_all add: ping_msg_def zeroMessage_def)
    show ?thesis
      unfolding ping_def pong_def using m by (simp add: device_hears handlePing_def message_type_defs)
  qed
  show "sendPing_end i t0 t1 Answered (client_handleControl t (pmPayload pong) c1)
      = Some (del_ack_chan i (client_handleControl t (pmPayload pong) c1), Inr (t1 - t0))"
  proof -
    have "answers i (pmPayload pong) = Some (pong_msg i ts (dvVersion d) (dvArch d))"
    proof -
      let ?m = "pong_msg i ts (dvVersion d) (dvArch d)"
      have ok: "wire_ok ?m" using assms(1,3,4,5) by simp
      have "cmType ?m = MessageTypePong" "cmSessionID ?m = i" by (simp_all add: pong_msg_def)
      with payload_control_pub [OF ok] Unmarshal_Marshal [of ?m] ok show ?thesis
        unfolding pong_def by (simp add: answers_def wire_ok_def)
    qed
    then have "clAckChans (client_handleControl t (pmPayload pong) c1) i
        = Some (Some (pong_msg i ts (dvVersion d) (dvArch d)))"
      using c1(2) by (simp add: handleControl_ack_chan)
    then show ?thesis by (simp add: sendPing_end_def request_end_def)
  qed
qed

text \<open>An open request, the session it makes, and the acknowledgement.\<close>

lemma handleTCPConn_begin_ok:
  assumes "node_inv c" and "mgr_get i c = None"
  shows "\<exists>c1 r s. handleTCPConn_begin now i target None c = (c1, Some r)
    \<and> ndOut c1 = ndOut c @ [control_pub (InControlTopic (clID c)) 1 (OutControlTopic (clID c)) (open_msg (tcp_request i target))]
    \<and> clAckChans c1 i = Some None \<and> mgr_get i c1 = Some r \<and> ndHeap c1 r = Some s
    \<and> ssKind s = KTCP \<and> ssConn s = ResourceOpen \<and> \<not> ssClosed s \<and> ssId s = i"
proof -
  define s where "s = SetOnClose (NewTCPSession i (InControlTopic (clID c)) (InDataTopic (clID c) i))"
  obtain r c1 where al: "alloc s c = (r, c1)" by (cases "alloc s c")
  then have c1: "ndManager c1 = ndManager c" "ndOut c1 = ndOut c" "ndHeap c1 = (ndHeap c)(r \<mapsto> s)" "clID c1 = clID c"
    by (auto simp: alloc_def)
  obtain m where m: "Add now i r (ndManager c1) = Inr m"
    using assms(2) c1(1) by (auto simp: Add_def node_simps)
  have ms: "smSessions m i = Some r" using smSessions_Add [OF m] by simp
  show ?thesis
    using al m c1 ms
    by (auto simp: handleTCPConn_begin_def s_def [symmetric] Let_def sendOpen_begin_def request_begin_def node_simps
        tcp_request_def s_def SetOnClose_def NewTCPSession_def new_session_def)
qed

lemma open_tcp:
  fixes d :: device and i target t r :: string
  assumes "node_inv d" and "dial target = None" and "mgr_get i d = None"
    and "valid_utf8 i" and "valid_utf8 target"
  defines "open_pub \<equiv> control_pub t 1 r (open_msg (tcp_request i target))"
    and "ack \<equiv> control_pub (OutControlTopic (dvID d)) 1 [] (open_ack_msg i True [])"
  shows "ndOut (handleControl now dial sh (pmPayload open_pub) d) = ndOut d @ [ack]"
    and "\<exists>q s. mgr_get i (handleControl now dial sh (pmPayload open_pub) d) = Some q
      \<and> ndHeap (handleControl now dial sh (pmPayload open_pub) d) q = Some s
      \<and> ssKind s = KTCP \<and> ssStarted s \<and> ssConn s = ResourceOpen"
proof -
  let ?m = "open_msg (tcp_request i target)"
  have m: "wire_ok ?m" "cmType ?m = MessageTypeOpen" "cmSessionID ?m = i" "cmMode ?m = SessionModeTCP"
      "cmTarget ?m = target" "cmTimeout ?m = 0"
    using assms(4,5) by (simp, simp_all add: open_msg_def tcp_request_def zeroMessage_def)
  define s0 where "s0 = NewTCPSession i (OutControlTopic (dvID d)) (OutDataTopic (dvID d) i)"
  have b: "build_session dial ?m d = Inr s0"
    using assms(2) m by (simp add: build_session_def s0_def)
  obtain r d1 where al: "alloc s0 d = (r, d1)" by (cases "alloc s0 d")
  have s0: "ssId s0 = i" "ssKind s0 = KTCP" "ssConn s0 = ResourceOpen" by (simp_all add: s0_def new_session_defs)
  note d1 = node_inv_alloc [OF assms(1) al] handlers_alloc [OF al]
  obtain mm where mm: "Add now (ssId s0) r (ndManager d1) = Inr mm"
    using assms(3) d1(2) s0 by (auto simp: Add_def node_simps)
  have mms: "smSessions mm i = Some r" using smSessions_Add [OF mm] s0 by simp
  have eq: "handleControl now dial sh (pmPayload open_pub) d =
      sendOpenAck i True [] (update_ref r (\<lambda>_. (SetOnClose s0)\<lparr>ssStarted := True\<rparr>)
        (update_ref r SetOnClose (d1\<lparr>ndManager := mm\<rparr>)))"
    unfolding open_pub_def using b al mm m d1(4) s0
    by (simp add: device_hears handleOpen_def Let_def session_start_def SetOnClose_def node_simps
        session_mode_defs)
  show "ndOut (handleControl now dial sh (pmPayload open_pub) d) = ndOut d @ [ack]"
    using d1 by (simp add: eq sendOpenAck_def node_simps ack_def)
  show "\<exists>q s. mgr_get i (handleControl now dial sh (pmPayload open_pub) d) = Some q
      \<and> ndHeap (handleControl now dial sh (pmPayload open_pub) d) q = Some s
      \<and> ssKind s = KTCP \<and> ssStarted s \<and> ssConn s = ResourceOpen"
    using d1 mms s0 by (auto simp: eq sendOpenAck_def node_simps SetOnClose_def)
qed

text \<open>The way of an open request: from the client to the device and back.\<close>

lemma open_round_trip:
  fixes c :: client and d :: device and i target :: string
  assumes "node_inv c" and "mgr_get i c = None" and "node_inv d" and "mgr_get i d = None"
    and "dial target = None" and "handleTCPConn_begin now i target None c = (c1, Some r)"
    and "valid_utf8 i" and "valid_utf8 target"
  defines "open_pub \<equiv> control_pub (InControlTopic (clID c)) 1 (OutControlTopic (clID c)) (open_msg (tcp_request i target))"
    and "ack \<equiv> control_pub (OutControlTopic (dvID d)) 1 [] (open_ack_msg i True [])"
  shows "ndOut c1 = ndOut c @ [open_pub]"
    and "ndOut (handleControl now' dial sh (pmPayload open_pub) d) = ndOut d @ [ack]"
    and "\<exists>c2. handleTCPConn_end i r Answered (client_handleControl t (pmPayload ack) c1) = Some c2
      \<and> tcp_running i r c2"
proof -
  obtain s where s: "ndOut c1 = ndOut c @ [open_pub]" "clAckChans c1 i = Some None" "mgr_get i c1 = Some r"
      "ndHeap c1 r = Some s" "ssKind s = KTCP" "ssConn s = ResourceOpen" "\<not> ssClosed s"
    using handleTCPConn_begin_ok [OF assms(1,2), of now target] assms(6) unfolding open_pub_def by auto
  show "ndOut c1 = ndOut c @ [open_pub]" by (rule s(1))
  show "ndOut (handleControl now' dial sh (pmPayload open_pub) d) = ndOut d @ [ack]"
    unfolding open_pub_def ack_def
    by (rule open_tcp(1) [where dial = dial and target = target, OF assms(3,5,4,7,8)])
  let ?a = "open_ack_msg i True []"
  have a: "cmType ?a = MessageTypeOpenAck" "cmSessionID ?a = i" "cmSuccess ?a"
    by (simp_all add: open_ack_msg_def zeroMessage_def)
  define c' where "c' = client_handleControl t (pmPayload ack) c1"
  have c': "c' = c1\<lparr>clAckChans := offer i ?a (clAckChans c1)\<rparr>"
    unfolding c'_def ack_def using a assms(7) by (simp add: client_hears Let_def)
  have ch: "clAckChans c' i = Some (Some ?a)" using s(2) by (simp add: c' offer_def)
  have st: "mgr_get i c' = Some r" "ndHeap c' r = Some s" using s by (simp_all add: c' node_simps)
  obtain c2 where c2: "handleTCPConn_end i r Answered c' = Some c2"
    using ch a by (simp add: handleTCPConn_end_def sendOpen_end_def request_end_def)
  moreover have "tcp_running i r c2"
    using handleTCPConn_end_cases(3) [OF c2 st s(5,6,7)] ch a(3) by blast
  ultimately show "\<exists>c2. handleTCPConn_end i r Answered (client_handleControl t (pmPayload ack) c1) = Some c2
      \<and> tcp_running i r c2" unfolding c'_def by blast
qed

text \<open>
  The exit status of a command, from the wait status on the device to the result of \<open>RunExec\<close> on
  the client.
\<close>

definition status_result :: "u32 \<Rightarrow> proc_result" where
  "status_result w = (if w = 0 then WaitOk else WaitExit (exit_error_of w))"

lemma exec_status:
  assumes "exStdoutErr env = None" "exStderrErr env = None" "exStartErr env = None"
    and "pump ok (exReads env) (ssWriter s) = (sw, ms, PumpReadError e)"
    and "exWait env = Some (status_result w)" and "ssKind s = KExec" and "valid_utf8 (ssId s)"
  defines "code \<equiv> signalExitCode (exit_error_of w)"
  shows "fst (snd (exec_run ok env s)) = ms @ [exec_sendClose s (Some code) []]"
    and "pub_control (exec_sendClose s (Some code) []) = Some (close_msg (ssId s) (Some code) [])"
    and "execCloseResult (close_msg (ssId s) (Some code) []) = (code, None)"
proof -
  have code0: "w = 0 \<Longrightarrow> code = 0"
    by (simp add: code_def signalExitCode_exited Exited_def)
  have fin: "fst (snd (finish t out)) = out" if "ssKind t = KExec" for t out
    using session_Close_out [of t] that by (cases "session_Close t") (simp add: finish_def)
  have sc: "exec_sendClose (s\<lparr>ssPgid := p, ssWriter := v\<rparr>) c x = exec_sendClose s c x" for p v c x
    by (simp add: exec_sendClose_def)
  define t where "t = s\<lparr>ssPgid := exPid env, ssWriter := sw\<rparr>"
  have run: "exec_run ok env s = (case finish t (ms @ [exec_sendClose s (Some code) []]) of
      (s2, out, hook) \<Rightarrow> (s2, out, Some hook))"
    using assms(1-5) code0
    by (cases "w = 0") (simp_all add: exec_run_def Let_def wait_ctx_def status_result_def sc t_def code_def)
  have "ssKind t = KExec" using assms(6) by (simp add: t_def)
  from fin [OF this] show "fst (snd (exec_run ok env s)) = ms @ [exec_sendClose s (Some code) []]"
    unfolding run by (simp split: prod.split) (metis fst_conv snd_conv)
  have "int64_ok code"
    using signalExitCode_range [of w] by (simp add: code_def int64_ok_def)
  then show "pub_control (exec_sendClose s (Some code) []) = Some (close_msg (ssId s) (Some code) [])"
    using assms(7) by (simp add: exec_sendClose_def pub_control_control_pub)
  show "execCloseResult (close_msg (ssId s) (Some code) []) = (code, None)"
    by (simp add: execCloseResult_def close_msg_def)
qed

text \<open>
  A command session that waits for credit waits for ever: no acknowledgement changes it, so the
  credit does not come back.
\<close>

lemma exec_ack_ignored:
  assumes "device_inv d" and "mgr_get (cmSessionID msg) d = Some r" and "ndHeap d r = Some s" and "ssKind s = KExec"
  shows "ndHeap (handleAck now msg d) r = Some s"
  using handleAck_exec [OF assms(2-4)] assms(3) by simp

end
