(* ===== verification/Remote.thy ===== *)
theory Remote
  imports Downlink Exchange
begin

text \<open>
  A remote command from end to end: the process on the device, its output through the writer, the
  broker and the client's session, and the close message that carries its exit status.
\<close>

section \<open>What the device sends\<close>

text \<open>The output of the command: what is read up to the error that ends it.\<close>

fun output_of :: "read_result list \<Rightarrow> byte list" where
  "output_of [] = []"
| "output_of ((d, None) # reads) = d @ output_of reads"
| "output_of ((d, Some e) # reads) = d"

lemma pump_whole:
  "pump ok reads sw = (sw', ms, PumpReadError e) \<Longrightarrow>
     \<exists>es. run wr_step (sw, WIdle) es (sw', WIdle) \<and> published es = ms \<and> written es = output_of reads"
proof (induction ok reads sw arbitrary: sw' ms rule: pump.induct)
  case (2 ok d err reads sw)
  obtain sw1 m1 o1 where w: "write_loop ok sw d = (sw1, m1, o1)" by (cases "write_loop ok sw d")
  then have w': "(if length d > 0 then write_loop ok sw d else (sw, [], WroteAll)) = (sw1, m1, o1)"
    by (auto simp: write_loop.simps)
  have o1: "o1 = WroteAll" using "2.prems" w' by (auto split: write_outcome.splits option.splits prod.splits)
  obtain es where es: "run wr_step (sw, WCheck d) es (sw1, WIdle)" "published es = m1" "written es = []"
    using write_loop_run [OF w] o1 by auto
  have one: "run wr_step (sw, WIdle) (WriteCall d # es) (sw1, WIdle)"
    using wr_call es(1) by (rule run_cons)
  show ?case
  proof (cases err)
    case (Some x)
    with "2.prems" w' o1 one es show ?thesis
      by (intro exI [of _ "WriteCall d # es"]) (auto simp: published_def)
  next
    case None
    obtain sw2 m2 o2 where rec: "pump ok reads sw1 = (sw2, m2, o2)" by (cases "pump ok reads sw1")
    with "2.prems" w' o1 None have eq: "sw' = sw2" "ms = m1 @ m2" "o2 = PumpReadError e" by simp_all
    have "\<exists>fs. run wr_step (sw1, WIdle) fs (sw', WIdle) \<and> published fs = m2 \<and> written fs = output_of reads"
      using "2.IH" [OF w' [symmetric] refl o1 None] rec eq by blast
    then obtain fs where fs: "run wr_step (sw1, WIdle) fs (sw', WIdle)" "published fs = m2"
        "written fs = output_of reads" by blast
    have "run wr_step (sw, WIdle) ((WriteCall d # es) @ fs) (sw', WIdle)" by (rule run_append [OF fs(1) one])
    with es fs eq None show ?thesis
      by (intro exI [of _ "(WriteCall d # es) @ fs"]) (simp add: published_def)
  qed
qed simp

text \<open>A writer that has come to rest has published all its frames, in order.\<close>

definition all_out :: "string \<Rightarrow> wr_event list \<Rightarrow> wr_conf \<Rightarrow> bool" where
  "all_out topic es c \<longleftrightarrow> (case snd c of
     WFailed \<Rightarrow> True
   | WPublish m d \<Rightarrow> published es @ [m] = map (frame_of topic (numbered es)) [0..<length (numbered es)]
   | _ \<Rightarrow> published es = map (frame_of topic (numbered es)) [0..<length (numbered es)])"

lemma frame_of_more: "map (frame_of topic (cs @ ds)) [0..<length cs] = map (frame_of topic cs) [0..<length cs]"
  by (auto simp: frame_of_def nth_append)

lemma all_out_run: "run wr_step (fresh_writer topic) es c \<Longrightarrow> all_out topic es c"
proof (induction rule: run.induct)
  case run_nil
  then show ?case by (simp add: all_out_def published_def)
next
  case (run_snoc es t e u)
  have inv: "swTopic (fst t) = topic" "swSeq (fst t) = of_nat (length (numbered es))"
    using wr_run_inv [OF run_snoc.hyps(1)] by (auto simp: wr_inv_def wr_stream_inv_def split: prod.splits)
  from run_snoc.hyps(2) show ?case
  proof (cases rule: wr_step.cases)
    case (wr_number data sw sw' msg)
    then show ?thesis
      using run_snoc.IH inv frame_of_more [of topic "numbered es" "[next_chunk data]"]
      by (auto simp: all_out_def published_def Write_frame_def frame_of_def)
  qed (use run_snoc.IH in \<open>auto simp: all_out_def published_def split: write_thread.splits\<close>)
qed

text \<open>
  A command that starts and ends: its messages are the frames of its output, all of them in order,
  and then the close message.
\<close>

lemma exec_run_out:
  assumes "exec_run (\<lambda>_. True) env s = (s', out, Some hook)" and "ssKind s = KExec"
    and "ssWriter s = fst (fresh_writer topic)" and "\<not> ssCancelled s"
    and "exStdoutErr env = None" and "exStderrErr env = None" and "exStartErr env = None"
    and "exWait env = Some (status_result w)" and "valid_utf8 (ssId s)"
  obtains es sw where "run wr_step (fresh_writer topic) es (sw, WIdle)" and "written es = output_of (exReads env)"
    and "out = published es @ [exec_sendClose s (Some (signalExitCode (exit_error_of w))) []]"
proof -
  obtain sw ms po where p: "pump (\<lambda>_. True) (exReads env) (ssWriter s) = (sw, ms, po)"
    by (cases "pump (\<lambda>_. True) (exReads env) (ssWriter s)")
  have "pump_over (wait_ctx s po)"
    using assms(1,5-8) p by (auto simp: exec_run_def Let_def split: if_splits prod.splits)
  with pump_no_fail [OF p] assms(4) obtain e where e: "po = PumpReadError e"
    by (cases po) (auto simp: wait_ctx_def)
  note st = exec_status(1) [OF assms(5-7) p [unfolded e] assms(8,2,9)]
  obtain es where "run wr_step (fresh_writer topic) es (sw, WIdle)" "published es = ms"
      "written es = output_of (exReads env)"
    using pump_whole [of "\<lambda>_. True" "exReads env" "ssWriter s" sw ms e] p e assms(3) by auto
  with st assms(1) that show thesis by simp
qed

section \<open>What the client makes of it\<close>

text \<open>
  The broker between the session's two ends: data on the session's topic is what the device sent,
  and all that the device sent has come.
\<close>

definition brings_all :: "string \<Rightarrow> string \<Rightarrow> PubMessage list \<Rightarrow> client_event feed list \<Rightarrow> bool" where
  "brings_all dev i out evs \<longleftrightarrow>
     (\<forall>e t f. Net e \<in> set evs \<longrightarrow> client_delivers e = Some (t, f) \<longrightarrow>
        (\<exists>j. level j \<and> t = OutDataTopic dev j) \<and> (t = OutDataTopic dev i \<longrightarrow> data_pub t f \<in> set out))
     \<and> (\<forall>f. data_pub (OutDataTopic dev i) f \<in> set out \<longrightarrow>
          (\<exists>e. Net e \<in> set evs \<and> client_delivers e = Some (OutDataTopic dev i, f)))"

lemma brings_all_from_writer:
  assumes "brings_all dev i (published es @ [control_pub t 1 [] m]) evs"
  shows "from_writer client_delivers (OutDataTopic dev) i es evs"
  using assms
  by (fastforce simp: brings_all_def from_writer_def published_def data_pub_def control_pub_def split: wr_event.splits)

lemma feed_frames_in: "Net e \<in> set evs \<Longrightarrow> frame_for dl i e = Some x \<Longrightarrow> x \<in> set (feed_frames dl i evs)"
proof (induction evs)
  case (Cons ev evs)
  show ?case
  proof (cases "Net e \<in> set evs")
    case False
    then have "ev = Net e" using Cons.prems(1) by simp
    with Cons.prems(2) show ?thesis by simp
  qed (use Cons in \<open>cases ev; simp\<close>)
qed simp

lemma brings_all_complete:
  assumes b: "brings_all dev i (published es @ [control_pub t 1 [] m]) evs"
    and all: "published es = map (frame_of (OutDataTopic dev i) (numbered es)) [0..<length (numbered es)]"
    and lv: "level dev" "level i" and len: "length (numbered es) < 2 ^ 32"
  shows "{0..<length (numbered es)} \<subseteq> set (keys (feed_frames client_delivers i evs))"
proof
  fix k assume k: "k \<in> {0..<length (numbered es)}"
  let ?f = "EncodeDataFrame (of_nat k) (numbered es ! k)"
  have "data_pub (OutDataTopic dev i) ?f \<in> set (published es)"
    using k unfolding all by (auto simp: frame_of_def)
  with b obtain e where e: "Net e \<in> set evs" "client_delivers e = Some (OutDataTopic dev i, ?f)"
    unfolding brings_all_def by auto
  have "frame_for client_delivers i e = Some (of_nat k, numbered es ! k)"
    using data_frame_on [OF data_topics_of(2) [OF lv(1)] lv(2)] e(2) by (simp add: frame_for_def DecodeDataFrame_Encode)
  from feed_frames_in [OF e(1) this]
  have "unat (of_nat k :: u32) \<in> set (keys (feed_frames client_delivers i evs))" by force
  moreover have "unat (of_nat k :: u32) = k"
    using k len by (simp add: unat_of_nat take_bit_nat_eq_self)
  ultimately show "k \<in> set (keys (feed_frames client_delivers i evs))" by simp
qed

lemma signalExitCode_cases: "signalExitCode (exit_error_of w) = (if Exited w then uint (and (drop_bit 8 w) 0xFF)
    else if Signaled w then (if Signal w = 2 \<or> Signal w = 15 then 0 else 128 + Signal w) else 1)"
  using signalExitCode_exited [of w] signalExitCode_signaled [of w]
  by (cases "Exited w"; cases "Signaled w") (simp_all add: signalExitCode_def exit_error_of_def ExitStatus_def)

lemma length_numbered_le: "\<forall>c \<in> set cs. c \<noteq> [] \<Longrightarrow> length cs \<le> length (concat cs)"
  by (induction cs) (auto simp: Suc_le_eq intro: add_strict_increasing)

text \<open>An example: a command that prints two bytes and exits with status 3, and the client that runs it.\<close>

definition example_env :: exec_env where
  "example_env = \<lparr>exStdoutErr = None, exStderrErr = None, exStartErr = None, exPid = 7, exReads = [([7, 8], Some ''EOF'')],
     exWait = Some (status_result 0x0300)\<rparr>"

definition example_command :: session where
  "example_command = SetOnClose (NewExecSession ''a'' ''x'' (OutControlTopic ''dev'') (OutDataTopic ''dev'' ''a''))"

lemma example_command_run: "\<exists>s' hook. exec_run (\<lambda>_. True) example_env example_command
   = (s', [data_pub (OutDataTopic ''dev'' ''a'') (EncodeDataFrame 0 [7, 8]), exec_sendClose example_command (Some 3) []], Some hook)"
proof -
  let ?t = "OutDataTopic ''dev'' ''a''"
  have w: "ssWriter example_command = fst (fresh_writer ?t)"
    by (simp add: example_command_def SetOnClose_def new_session_defs)
  have fc: "fc_ok (NewFlowControl FlowControlWindow)" "fc_used (NewFlowControl FlowControlWindow) = 0" 
     "fcSent (NewFlowControl FlowControlWindow) = 0"
    using wr_inv_start [of ?t] by (simp_all add: wr_inv_def wr_credit_inv_def NewSequenceWriter_def fc_used_def NewFlowControl_def)
  have "chunks [7, 8] = [[7, 8]]"
    by (simp add: chunks.simps next_chunk_def MaxPayloadSize_def)
  then obtain sw where "write_loop (\<lambda>_. True) (ssWriter example_command) [7, 8]
      = (sw, [data_pub ?t (EncodeDataFrame 0 [7, 8])], WroteAll)"
    using write_loop_chunks [of "ssWriter example_command" "[7, 8]"] fc unfolding w
    by (auto simp: NewSequenceWriter_def)
  then have p: "pump (\<lambda>_. True) [([7, 8], Some ''EOF'')] (ssWriter example_command)
      = (sw, [data_pub ?t (EncodeDataFrame 0 [7, 8])], PumpReadError ''EOF'')" by simp
  have code: "signalExitCode (exit_error_of 0x0300) = 3" by code_simp
  have "\<exists>s' out hook. exec_run (\<lambda>_. True) example_env example_command = (s', out, Some hook)"
    using p by (simp add: example_env_def exec_run_def Let_def wait_ctx_def status_result_def split: prod.split)
  then obtain s' out hook where r: "exec_run (\<lambda>_. True) example_env example_command = (s', out, Some hook)" by blast
  have "fst (snd (exec_run (\<lambda>_. True) example_env example_command))
      = [data_pub ?t (EncodeDataFrame 0 [7, 8])] @ [exec_sendClose example_command (Some 3) []]"
    using exec_status(1) [of example_env "\<lambda>_. True" example_command sw _ "''EOF''" "0x0300"] p
    by (simp add: code) (simp add: example_env_def example_command_def SetOnClose_def new_session_defs)
  with r show ?thesis by simp
qed
definition example_run_exec :: client where
  "example_run_exec = fst (RunExec_begin \<lparr>sbSubscribe = (\<lambda>_. None), sbSubscribeAll = None\<rparr> 0 ''a'' ''x'' None None
     (New_client ''dev''))"

lemma example_run_exec_opens: "client_opens ''a'' 0 (New_client ''dev'') example_run_exec"
proof -
  let ?sb = "\<lparr>sbSubscribe = (\<lambda>_. None), sbSubscribeAll = None\<rparr>"
  have "snd (RunExec_begin ?sb 0 ''a'' ''x'' None None (New_client ''dev'')) = Inr 0"
    by (simp add: RunExec_begin_def client_subscribe_def wrap_def New_client_def alloc_def Add_def NewSessionManager_def
        Let_def sendOpen_begin_def request_begin_def)
  then have "RunExec_begin ?sb 0 ''a'' ''x'' None None (New_client ''dev'') = (example_run_exec, Inr 0)"
    unfolding example_run_exec_def by (metis prod.collapse)
  then show ?thesis unfolding client_opens_def by blast
qed

lemma example_brings: "brings_all ''dev'' ''a''
    [data_pub (OutDataTopic ''dev'' ''a'') (EncodeDataFrame 0 [7, 8]), exec_sendClose example_command (Some 3) []] example_answers"
proof -
  let ?t = "OutDataTopic ''dev'' ''a''" and ?f = "EncodeDataFrame 0 [7, 8]"
  have d: "data_pub t f = data_pub t' f' \<longleftrightarrow> t = t' \<and> f = f'" "data_pub t f \<noteq> exec_sendClose z c x" for t f t' f' z c x
    by (auto simp: data_pub_def exec_sendClose_def control_pub_def)
  have ev: "t = ?t \<and> f = ?f" if "Net e \<in> set example_answers" "client_delivers e = Some (t, f)" for e t f
    using that unfolding example_answers_def by (simp only: list.set insert_iff empty_iff feed.inject feed.distinct simp_thms) (elim disjE; simp only: client_delivers.simps option.inject prod.inject simp_thms)
  have first: "Net (OnData 1 ?t ?f) \<in> set example_answers" "client_delivers (OnData 1 ?t ?f) = Some (?t, ?f)"
    unfolding example_answers_def by (simp_all only: list.set insertI1 client_delivers.simps)
  have lv: "level ''a''" by simp
  show ?thesis
    unfolding brings_all_def
  proof (intro conjI allI impI)
    fix e t f assume "Net e \<in> set example_answers" "client_delivers e = Some (t, f)"
    from ev [OF this] show "\<exists>j. level j \<and> t = OutDataTopic ''dev'' j" and
      "data_pub t f \<in> set [data_pub ?t ?f, exec_sendClose example_command (Some 3) []]"
      using lv by (blast, simp only: list.set insertI1)
  next
    fix f assume "data_pub ?t f \<in> set [data_pub ?t ?f, exec_sendClose example_command (Some 3) []]"
    then have "f = ?f" by (simp only: list.set insert_iff empty_iff d simp_thms)
    with first show "\<exists>e. Net e \<in> set example_answers \<and> client_delivers e = Some (?t, f)" by blast
  qed
qed

section \<open>Main properties\<close>

text \<open>C3. The bytes that RunExec prints are the bytes the command wrote, and its result is the command's exit status: 128 plus the number for a command killed by a signal, but 0 for SIGINT and SIGTERM. This holds for a command that ends, when all of its frames come in reach and are taken before the drain's timer fires, however the broker repeats and reorders them and wherever the close message falls between them.\<close>

theorem exec_round_trip:
  assumes "exec_run (\<lambda>_. True) env s = (s', out, Some hook)"
    and "s = SetOnClose (NewExecSession i cmd (OutControlTopic dev) (OutDataTopic dev i))"
    and "exStdoutErr env = None" and "exStderrErr env = None" and "exStartErr env = None"
    and "exWait env = Some (status_result st)" and "length (output_of (exReads env)) < 2 ^ 32"
    and "level dev" and "level i" and "valid_utf8 i"
    and "node_inv c" and "client_opens i r c c0" and "brings_all dev i out evs"
    and "stays_open client_handle (client_leaves_open i r) r evs c0"
    and "in_reach ReorderBufSize {} (map (\<lambda>f. unat (fst f)) (feed_frames client_delivers i evs))"
    and "feed_peer client_handle r evs c0 = (c1, ds @ es)"
    and "\<forall>s. ndHeap c1 r = Some s \<longrightarrow> rbDataCh (fst (ssReorder s)) = []"
    and "io_ok io" and "cmSuccess ack" and "pub_control (last out) = Some close"
    and "RunExec_opened io (Inr ack) (map OutData ds @ CloseArrives close # map OutData es @ [TimerFires]) = (shown, res)"
  shows "eoBytes shown = output_of (exReads env)
    \<and> res = Some (if Exited st then uint (and (drop_bit 8 st) 0xFF)
        else if Signaled st then (if Signal st = 2 \<or> Signal st = 15 then 0 else 128 + Signal st) else 1, None)"
proof -
  let ?t = "OutDataTopic dev i" and ?code = "signalExitCode (exit_error_of st)"
  have s: "ssKind s = KExec" "ssWriter s = fst (fresh_writer ?t)" "\<not> ssCancelled s" "ssId s = i"
    unfolding assms(2) by (simp_all add: SetOnClose_def new_session_defs)
  have v: "valid_utf8 (ssId s)" using s(4) assms(10) by simp
  obtain wes sw where w: "run wr_step (fresh_writer ?t) wes (sw, WIdle)" "written wes = output_of (exReads env)"
      "out = published wes @ [exec_sendClose s (Some ?code) []]"
    by (rule exec_run_out [OF assms(1) s(1,2,3) assms(3-6) v])
  have all: "published wes = map (frame_of ?t (numbered wes)) [0..<length (numbered wes)]"
    using all_out_run [OF w(1)] by (simp add: all_out_def)
  have inv: "wr_stream_inv ?t wes (sw, WIdle)" using wr_run_inv [OF w(1)] by (simp add: wr_inv_def)
  then have "\<forall>c \<in> set (numbered wes). c \<noteq> []" "written wes = concat (numbered wes)"
    by (simp_all add: wr_stream_inv_def)
  then have "length (numbered wes) \<le> length (written wes)"
    using length_numbered_le by simp
  with assms(7) w(2) have len: "length (numbered wes) < 2 ^ 32" by simp
  have br: "brings_all dev i (published wes @ [control_pub (ssControlTopic s) 1 [] (close_msg (ssId s) (Some ?code) [])]) evs"
    using assms(13) w(3) by (simp add: exec_sendClose_def)
  note got = client_tunnel.tunnel_bytes [OF w(1) len client_serving [OF assms(11,12)] assms(16,14)
      brings_all_from_writer [OF br] data_topics_of(2) [OF assms(8)]]
  have bytes: "output_of (exReads env) = concat ds @ concat es"
    using got brings_all_complete [OF br all assms(8,9) len] assms(15,17) w(2) by simp
  have "close = close_msg i (Some ?code) []"
    using assms(20) w(3) s(4) assms(10) signalExitCode_range [of st]
    by (simp add: exec_sendClose_def pub_control_control_pub int64_ok_def)
  then have "execCloseResult close = (?code, None)" by (simp add: execCloseResult_def close_msg_def)
  with RunExec_loop_ok [OF assms(18), of ds close es new_exec_out] assms(19,21) bytes
  have "eoBytes shown = output_of (exReads env) \<and> res = Some (?code, None)"
    by (auto simp: RunExec_opened_def new_exec_out_def)
  then show ?thesis unfolding signalExitCode_cases .
qed

theorem exec_round_trip_witness:
  "\<exists>shown. RunExec_opened happy_io (Inr (zeroMessage\<lparr>cmSuccess := True\<rparr>))
      (map OutData [[7, 8]] @ CloseArrives (close_msg ''a'' (Some 3) []) # map OutData [] @ [TimerFires])
     = (shown, Some (3, None)) \<and> eoBytes shown = [7, 8]"
proof -
  let ?t = "OutDataTopic ''dev'' ''a''" and ?close = "close_msg ''a'' (Some 3) []"
  let ?out = "[data_pub ?t (EncodeDataFrame 0 [7, 8]), exec_sendClose example_command (Some 3) []]"
  obtain s' hook where run: "exec_run (\<lambda>_. True) example_env example_command = (s', ?out, Some hook)"
    using example_command_run by blast
  obtain c1 s where f: "feed_peer client_handle 0 example_answers example_run_exec = (c1, [[7, 8]] @ [])"
      "ndHeap c1 0 = Some s" "rbDataCh (fst (ssReorder s)) = []"
    using example_answers_result [OF example_run_exec_opens] by auto
  have env: "exStdoutErr example_env = None" "exStderrErr example_env = None" "exStartErr example_env = None"
      "exWait example_env = Some (status_result 0x0300)" "length (output_of (exReads example_env)) < 2 ^ 32"
      "output_of (exReads example_env) = [7, 8]"
    by (simp_all add: example_env_def)
  have reach: "in_reach ReorderBufSize {} (map (\<lambda>f. unat (fst f)) (feed_frames client_delivers ''a'' example_answers))"
    by (simp add: example_answers_frames ReorderBufSize_def)
  have empty: "\<forall>s. ndHeap c1 0 = Some s \<longrightarrow> rbDataCh (fst (ssReorder s)) = []" using f by simp
  have close: "pub_control (last ?out) = Some ?close"
    by (simp add: exec_sendClose_def example_command_def SetOnClose_def new_session_defs pub_control_control_pub int64_ok_def)
  have io: "io_ok happy_io" by (simp add: io_ok_def happy_io_def)
  obtain shown res where loop: "RunExec_opened happy_io (Inr (zeroMessage\<lparr>cmSuccess := True\<rparr>))
      (map OutData [[7, 8]] @ CloseArrives ?close # map OutData [] @ [TimerFires]) = (shown, res)"
    by fastforce
  have code: "Exited 0x0300" "uint (and (drop_bit 8 (0x0300 :: u32)) 0xFF) = 3" by (simp_all add: Exited_def)
  from exec_round_trip [OF run example_command_def env(1-5) _ _ _ client_inv_new example_run_exec_opens example_brings
      example_answers_open reach f(1) empty io _ close loop] loop
  show ?thesis by (simp add: env(6) code)
qed

end
