(* ===== verification/Status.thy ===== *)
theory Status
  imports Client "HOL-Library.List_Lexorder" "HOL-Library.Char_ord"
begin

text \<open>
  \<open>internal/client/status.go\<close>: one ping to all devices, and the table of those that answer. Go
  compares strings bytewise, which is the lexicographic order of the character codes. The rows are
  the cells of the printed table; theory \<open>Printing\<close> has its text.
\<close>

record deviceStatus =
  stDeviceID :: string
  stVersion :: string
  stArch :: string
  stRTT :: time

definition statusTimeout :: time where
  "statusTimeout = 5 * Second"

type_synonym status_table = "string \<Rightarrow> deviceStatus option"

text \<open>The handler: the first answer of each device to this ping.\<close>

definition status_handle :: "string \<Rightarrow> time \<Rightarrow> time \<Rightarrow> string \<Rightarrow> payload \<Rightarrow> status_table \<Rightarrow> status_table" where
  "status_handle pingID sentAt now topic p devices =
     (case ParseTopic topic of
        Inl e \<Rightarrow> devices
      | Inr parsed \<Rightarrow>
          (case payload_json p of
             None \<Rightarrow> devices
           | Some j \<Rightarrow> (case Unmarshal j of
               None \<Rightarrow> devices
             | Some msg \<Rightarrow>
                 if cmType msg \<noteq> MessageTypePong \<or> cmSessionID msg \<noteq> pingID then devices
                 else if devices (ptDeviceID parsed) \<noteq> None then devices
                 else devices(ptDeviceID parsed \<mapsto> \<lparr>stDeviceID = ptDeviceID parsed,
                   stVersion = cmVersion msg, stArch = cmArch msg, stRTT = now - sentAt\<rparr>))))"

definition status_ping :: "string \<Rightarrow> int \<Rightarrow> PubMessage" where
  "status_ping pingID nanos = control_pub SharedPingTopic 0 [] (ping_msg pingID nanos)"

text \<open>The rows, from any enumeration of the table.\<close>

definition status_version :: "deviceStatus \<Rightarrow> string" where
  "status_version ds =
     (if stVersion ds \<noteq> [] \<and> stArch ds \<noteq> [] then stVersion ds @ ''/'' @ stArch ds
      else if stVersion ds = [] then ''-'' else stVersion ds)"

definition status_rows :: "deviceStatus list \<Rightarrow> (string \<times> string \<times> time) list" where
  "status_rows order =
     map (\<lambda>ds. (stDeviceID ds, status_version ds, stRTT ds)) (sort_key stDeviceID order)"

definition status_empty_note :: "deviceStatus list \<Rightarrow> string option" where
  "status_empty_note order = (if order = [] then Some ''no devices responded'' else None)"

type_synonym reply = "time \<times> string \<times> payload"

definition status_collect :: "string \<Rightarrow> time \<Rightarrow> reply list \<Rightarrow> status_table" where
  "status_collect pingID sentAt replies =
     foldl (\<lambda>m (now, topic, p). status_handle pingID sentAt now topic p m) Map.empty replies"

section \<open>Which rows there are\<close>

text \<open>The entry a reply makes, if its device has none yet.\<close>

definition status_entry :: "string \<Rightarrow> time \<Rightarrow> reply \<Rightarrow> deviceStatus option" where
  "status_entry pingID sentAt r = (case r of (now, topic, p) \<Rightarrow>
     (case (ParseTopic topic, payload_json p) of
        (Inr parsed, Some j) \<Rightarrow> (case Unmarshal j of
            Some msg \<Rightarrow> if cmType msg = MessageTypePong \<and> cmSessionID msg = pingID
              then Some \<lparr>stDeviceID = ptDeviceID parsed, stVersion = cmVersion msg, stArch = cmArch msg,
                 stRTT = now - sentAt\<rparr>
              else None
          | None \<Rightarrow> None)
      | _ \<Rightarrow> None))"

lemma status_handle_entry:
  "status_handle pingID sentAt now topic p m =
     (case status_entry pingID sentAt (now, topic, p) of
        None \<Rightarrow> m
      | Some ds \<Rightarrow> if m (stDeviceID ds) \<noteq> None then m else m(stDeviceID ds \<mapsto> ds))"
  by (auto simp: status_handle_def status_entry_def split: sum.splits option.splits)

definition first_reply :: "string \<Rightarrow> time \<Rightarrow> reply list \<Rightarrow> string \<Rightarrow> deviceStatus option" where
  "first_reply pingID sentAt rs dev =
     first_some (\<lambda>r. case status_entry pingID sentAt r of
        Some ds \<Rightarrow> if stDeviceID ds = dev then Some ds else None | None \<Rightarrow> None) rs"

lemma first_some_append: "first_some f (xs @ ys) = (case first_some f xs of None \<Rightarrow> first_some f ys | Some y \<Rightarrow> Some y)"
  by (induction xs) (auto split: option.split)

lemma status_collect_first: "status_collect pingID sentAt rs dev = first_reply pingID sentAt rs dev"
proof (induction rs arbitrary: dev rule: rev_induct)
  case Nil
  then show ?case by (simp add: status_collect_def first_reply_def)
next
  case (snoc r rs)
  obtain now topic p where r: "r = (now, topic, p)" by (cases r)
  have "status_collect pingID sentAt (rs @ [r]) = status_handle pingID sentAt now topic p (status_collect pingID sentAt rs)"
    by (simp add: status_collect_def r)
  then show ?case
    by (auto simp: status_handle_entry snoc.IH first_reply_def first_some_append r split: option.splits)
qed

text \<open>The table lists every device once, in the order of the names.\<close>

lemma status_rows_sorted:
  assumes "distinct (map stDeviceID order)"
  shows "sorted_wrt (<) (map fst (status_rows order))"
    and "set (status_rows order) = (\<lambda>ds. (stDeviceID ds, status_version ds, stRTT ds)) ` set order"
proof -
  have m: "map fst (status_rows order) = map stDeviceID (sort_key stDeviceID order)"
    by (simp add: status_rows_def comp_def)
  have "distinct (map stDeviceID (sort_key stDeviceID order))"
    using assms by (simp add: distinct_map)
  then show "sorted_wrt (<) (map fst (status_rows order))"
    unfolding m by (simp add: strict_sorted_iff)
qed (simp add: status_rows_def)

section \<open>Main properties\<close>

text \<open>C38. The status table holds, for each device, its first answer to this ping, and ignores everything else; the printed rows list each device once, in the order of the ids.\<close>

theorem status_table:
  "status_collect pingID sentAt rs dev = first_reply pingID sentAt rs dev
   \<and> (distinct (map stDeviceID order) \<longrightarrow> sorted_wrt (<) (map fst (status_rows order))
        \<and> set (status_rows order) = (\<lambda>ds. (stDeviceID ds, status_version ds, stRTT ds)) ` set order)"
  using status_collect_first [of pingID sentAt rs dev] status_rows_sorted [of order] by blast

theorem status_table_witness:
  "sorted_wrt (<) (map fst (status_rows
     [\<lparr>stDeviceID = ''b'', stVersion = [], stArch = [], stRTT = 2\<rparr>, \<lparr>stDeviceID = ''a'', stVersion = [], stArch = [], stRTT = 3\<rparr>]))"
proof -
  have "distinct (map stDeviceID [\<lparr>stDeviceID = ''b'', stVersion = [], stArch = [], stRTT = 2\<rparr>,
      \<lparr>stDeviceID = ''a'', stVersion = [], stArch = [], stRTT = 3\<rparr>])" by simp
  with status_table [of "[]" 0 "[]" "[]"] show ?thesis by blast
qed

end
