(* ===== verification/Printing.thy ===== *)
theory Printing
  imports Complex_Main ClientRuns Status
begin

text \<open>
  What the client prints: the lines and the statistics of \<open>RunPing\<close> and the table of \<open>RunStatus\<close>, byte
  by byte. This takes \<open>Round\<close> and \<open>String\<close> of \<open>time.Duration\<close>, the padding of \<open>fmt\<close>, and, for the
  packet loss, arithmetic in \<open>float64\<close> and its \<open>%.0f\<close>.
\<close>

section \<open>Durations\<close>

definition maxDuration :: time where "maxDuration = 2 ^ 63 - 1"
definition minDuration :: time where "minDuration = - (2 ^ 63)"

text \<open>Go's \<open>%\<close> truncates: the remainder has the sign of the dividend.\<close>

definition Duration_Round :: "time \<Rightarrow> time \<Rightarrow> time" where
  "Duration_Round d m =
     (if m \<le> 0 then d
      else if d < 0 then
        (let r = (- d) mod m in
         if r + r < m then d + r
         else if minDuration \<le> d - m + r then d - m + r else minDuration)
      else
        (let r = d mod m in
         if r + r < m then d - r
         else if d + m - r \<le> maxDuration then d + m - r else maxDuration))"

text \<open>\<open>fmtFrac\<close>: the digits of \<open>v / 10 ^ prec\<close> after the point without trailing zeros, and what is before it.\<close>

fun fmtFrac_digits :: "nat \<Rightarrow> nat \<Rightarrow> string \<Rightarrow> string \<times> nat" where
  "fmtFrac_digits 0 v acc = (acc, v)"
| "fmtFrac_digits (Suc prec) v acc =
     fmtFrac_digits prec (v div 10)
       (if acc \<noteq> [] \<or> v mod 10 \<noteq> 0 then char_of (48 + v mod 10) # acc else [])"

lemma fmtFrac_digits_numeral:
  "fmtFrac_digits (numeral k) v acc =
     fmtFrac_digits (pred_numeral k) (v div 10)
       (if acc \<noteq> [] \<or> v mod 10 \<noteq> 0 then char_of (48 + v mod 10) # acc else [])"
  by (simp only: numeral_eq_Suc fmtFrac_digits.simps)

definition fmtFrac :: "nat \<Rightarrow> nat \<Rightarrow> string \<times> nat" where
  "fmtFrac v prec = (case fmtFrac_digits prec v [] of
     (digits, u) \<Rightarrow> (if digits = [] then [] else CHR ''.'' # digits, u))"

definition micro_sign :: string where
  "micro_sign = [char_of (0xC2 :: nat), char_of (0xB5 :: nat)]"

definition Duration_String :: "time \<Rightarrow> string" where
  "Duration_String d =
     (let u = nat \<bar>d\<bar>; sign = (if d < 0 then ''-'' else []) in
      if u = 0 then ''0s''
      else if u < 1000 then sign @ show_nat u @ ''ns''
      else if u < 1000000 then (case fmtFrac u 3 of (f, w) \<Rightarrow> sign @ show_nat w @ f @ micro_sign @ ''s'')
      else if u < 1000000000 then (case fmtFrac u 6 of (f, w) \<Rightarrow> sign @ show_nat w @ f @ ''ms'')
      else (case fmtFrac u 9 of (f, secs) \<Rightarrow>
        (let mins = secs div 60;
             hours = (if mins div 60 > 0 then show_nat (mins div 60) @ ''h'' else []);
             minutes = (if mins > 0 then show_nat (mins mod 60) @ ''m'' else [])
         in sign @ hours @ minutes @ show_nat (secs mod 60) @ f @ ''s'')))"

lemma Duration_Round_near:
  assumes "0 \<le> d" and "d \<le> maxDuration - m" and "0 < m"
  shows "m dvd Duration_Round d m" and "2 * \<bar>Duration_Round d m - d\<bar> \<le> m"
proof -
  have r: "0 \<le> d mod m" "d mod m < m" using assms(3) by simp_all
  have down: "m dvd d - d mod m" by (simp add: minus_mod_eq_mult_div)
  have up: "m dvd d + m - d mod m"
    using dvd_add [OF down dvd_refl] by (simp add: algebra_simps)
  show "m dvd Duration_Round d m"
    using assms r down up by (simp add: Duration_Round_def Let_def)
  show "2 * \<bar>Duration_Round d m - d\<bar> \<le> m"
    using assms r by (simp add: Duration_Round_def Let_def abs_if)
qed

section \<open>A percentage\<close>

text \<open>
  \<open>float64(lost) / float64(sent) * 100\<close>, rounded to a float after each operation, and \<open>%.0f\<close> of it,
  which rounds its exact value. A float of the range in question is a pair: \<open>(n, k)\<close> is \<open>n / 2 ^ k\<close>.
  All roundings are to the nearest, to even in the middle.
\<close>

definition round_even :: "nat \<Rightarrow> nat \<Rightarrow> nat" where
  "round_even a b = (let q = a div b; r = a mod b in
     if 2 * r < b \<or> 2 * r = b \<and> even q then q else q + 1)"

fun bit_count :: "nat \<Rightarrow> nat" where
  "bit_count n = (if n = 0 then 0 else bit_count (n div 2) + 1)"

declare bit_count.simps [simp del]

definition float_div :: "nat \<Rightarrow> nat \<Rightarrow> nat \<times> nat" where
  "float_div a b =
     (let k0 = 52 + bit_count b - bit_count a;
          k = (if 2 ^ 52 * b \<le> a * 2 ^ k0 then k0 else k0 + 1)
      in (round_even (a * 2 ^ k) b, k))"

definition float_scale :: "nat \<Rightarrow> nat \<times> nat \<Rightarrow> nat \<times> nat" where
  "float_scale c x = (case x of (n, k) \<Rightarrow>
     (let t = bit_count (c * n) - 53 in (round_even (c * n) (2 ^ t), k - t)))"

definition float_text :: "nat \<times> nat \<Rightarrow> nat" where
  "float_text x = (case x of (n, k) \<Rightarrow> round_even n (2 ^ k))"

definition packet_loss :: "nat \<Rightarrow> nat \<Rightarrow> nat" where
  "packet_loss lost sent = (if lost = 0 then 0 else float_text (float_scale 100 (float_div lost sent)))"

lemma round_even_near:
  assumes "0 < b"
  shows "2 * \<bar>real (round_even a b) * real b - real a\<bar> \<le> real b"
proof -
  have a: "real a = real (a div b) * real b + real (a mod b)"
    by (metis of_nat_add of_nat_mult div_mult_mod_eq)
  have r: "a mod b < b" using assms by simp
  show ?thesis
  proof (cases "2 * (a mod b) < b \<or> 2 * (a mod b) = b \<and> even (a div b)")
    case True
    then have "round_even a b = a div b" by (auto simp: round_even_def Let_def)
    moreover have "2 * real (a mod b) \<le> real b" using True by linarith
    ultimately show ?thesis by (simp add: a)
  next
    case False
    then have "round_even a b = a div b + 1" by (auto simp: round_even_def Let_def)
    moreover have "real b \<le> 2 * real (a mod b)" using False by linarith
    ultimately show ?thesis using r by (simp add: a algebra_simps)
  qed
qed

lemma round_even_one: "round_even a 1 = a"
  by (simp add: round_even_def)

lemma bit_count_bounds: "0 < n \<Longrightarrow> 2 ^ (bit_count n - 1) \<le> n \<and> n < 2 ^ bit_count n \<and> 0 < bit_count n"
proof (induction n rule: bit_count.induct)
  case (1 n)
  have step: "bit_count n = bit_count (n div 2) + 1" using "1.prems" by (simp add: bit_count.simps [of n])
  show ?case
  proof (cases "n div 2 = 0")
    case True
    then have "n = 1" using "1.prems" by linarith
    then show ?thesis using step True by (simp add: bit_count.simps [of 0])
  next
    case False
    with "1.IH" "1.prems" have ih: "2 ^ (bit_count (n div 2) - 1) \<le> n div 2" "n div 2 < 2 ^ bit_count (n div 2)"
        "0 < bit_count (n div 2)" by auto
    obtain m where m: "bit_count (n div 2) = Suc m" using ih(3) by (cases "bit_count (n div 2)") auto
    have "2 * 2 ^ m \<le> n" "n < 2 * 2 ^ Suc m" using ih(1,2) unfolding m by auto
    then show ?thesis unfolding step m by simp
  qed
qed

lemma bit_count_mono: "0 < a \<Longrightarrow> a \<le> b \<Longrightarrow> bit_count a \<le> bit_count b"
proof -
  assume "0 < a" "a \<le> b"
  with bit_count_bounds [of a] bit_count_bounds [of b] have "(2::nat) ^ (bit_count a - 1) < 2 ^ bit_count b"
    by linarith
  then have "bit_count a - 1 < bit_count b" by (rule power_less_imp_less_exp [rotated]) simp
  with bit_count_bounds [OF \<open>0 < a\<close>] show ?thesis by linarith
qed

lemma near_below:
  fixes x y w b :: real
  assumes "2 * \<bar>x - y\<bar> \<le> b" and "y \<le> w"
  shows "2 * x \<le> 2 * w + b"
proof -
  have "2 * (x - y) \<le> 2 * \<bar>x - y\<bar>" by (intro mult_left_mono abs_ge_self) simp
  then have "2 * (x - y) \<le> b" using assms(1) by (rule order_trans)
  then have "2 * x - 2 * y \<le> b" by (simp add: algebra_simps)
  with assms(2) show ?thesis by linarith
qed

lemma three_parts: "\<bar>x + y + 100 * z\<bar> \<le> \<bar>x\<bar> + \<bar>y\<bar> + 100 * \<bar>z\<bar>" for x y z :: real
  using abs_triangle_ineq [of "x + y" "100 * z"] abs_triangle_ineq [of x y] by (simp add: abs_mult)

lemma float_div_near:
  assumes "0 < a" and "a \<le> b" and "float_div a b = (n, k)"
  shows "52 \<le> k" and "2 * \<bar>real n * real b - real a * 2 ^ k\<bar> \<le> real b" and "n \<le> 2 ^ k"
proof -
  show k: "52 \<le> k" using assms(3) bit_count_mono [OF assms(1,2)] by (auto simp: float_div_def Let_def split: if_splits)
  have n: "n = round_even (a * 2 ^ k) b" using assms(3) by (auto simp: float_div_def Let_def split: if_splits)
  from assms(1,2) have b: "0 < b" by simp
  from round_even_near [OF b, of "a * 2 ^ k"] show near: "2 * \<bar>real n * real b - real a * 2 ^ k\<bar> \<le> real b"
    by (simp add: n)
  have "real a * 2 ^ k \<le> real b * 2 ^ k" using assms(2) by (intro mult_right_mono) simp_all
  with near have "2 * (real n * real b) \<le> 2 * (real b * 2 ^ k) + real b" by (rule near_below)
  then have "real b * (2 * real n) \<le> real b * (2 * 2 ^ k + 1)" by (simp add: algebra_simps)
  then have "2 * real n \<le> 2 * 2 ^ k + 1" using b by (simp only: mult_le_cancel_left_pos of_nat_0_less_iff)
  then have "2 * n \<le> 2 * 2 ^ k + 1" by (metis (mono_tags) of_nat_1 of_nat_add of_nat_le_iff of_nat_mult of_nat_numeral of_nat_power)
  then show "n \<le> 2 ^ k" by presburger
qed

lemma float_scale_near:
  assumes "0 < c * n" and "float_scale c (n, k) = (m, j)" and "c * n \<le> 100 * 2 ^ k"
  obtains t where "k = j + t" and "2 * \<bar>real m * 2 ^ t - real (c * n)\<bar> * 2 ^ 52 \<le> real (c * n)"
proof -
  define t where "t = bit_count (c * n) - 53"
  have m: "m = round_even (c * n) (2 ^ t)" "j = k - t" using assms(2) by (auto simp: float_scale_def t_def Let_def)
  note bits = bit_count_bounds [OF assms(1)]
  show thesis
  proof (cases "t = 0")
    case True
    with m have "m = c * n" "k = j" by (simp_all add: round_even_def)
    with that [of 0] show thesis by simp
  next
    case False
    then have "bit_count (c * n) - 1 = t + 52" unfolding t_def by linarith
    with bits have low: "2 ^ (t + 52) \<le> c * n" by simp
    moreover have "(100::nat) * 2 ^ k < 2 ^ (k + 7)" by (simp add: power_add)
    ultimately have "(2::nat) ^ (t + 52) < 2 ^ (k + 7)" using assms(3) by linarith
    then have "t + 52 < k + 7" by (rule power_less_imp_less_exp [rotated]) simp
    then have kj: "k = j + t" using m(2) by linarith
    have "real (2 ^ (t + 52)) \<le> real (c * n)" using low by (simp only: of_nat_le_iff)
    then have "2 ^ t * 2 ^ 52 \<le> real (c * n)" by (simp add: power_add)
    moreover have "2 * \<bar>real m * 2 ^ t - real (c * n)\<bar> \<le> 2 ^ t"
      using round_even_near [of "2 ^ t" "c * n"] by (simp add: m(1))
    ultimately have "2 * \<bar>real m * 2 ^ t - real (c * n)\<bar> * 2 ^ 52 \<le> real (c * n)"
      by (meson mult_right_mono order_trans zero_le_numeral zero_le_power)
    from that [OF kj this] show thesis .
  qed
qed

text \<open>The printed percentage is a whole number nearest to the true one.\<close>

lemma packet_loss_near:
  assumes "lost \<le> sent" and "0 < sent" and "sent < 2 ^ 44"
  shows "2 * \<bar>int (packet_loss lost sent) * int sent - 100 * int lost\<bar> \<le> int sent"
proof (cases "lost = 0")
  case False
  obtain n k where nk: "float_div lost sent = (n, k)" by (cases "float_div lost sent")
  have pos: "0 < lost" using False by simp
  note d = float_div_near [OF pos assms(1) nk]
  obtain m j where mj: "float_scale 100 (n, k) = (m, j)" by (cases "float_scale 100 (n, k)")
  define p where "p = packet_loss lost sent"
  have p: "p = round_even m (2 ^ j)" using False by (simp add: p_def packet_loss_def nk mj float_text_def)
  define b a D where "b = real sent" and "a = real lost" and "D = (2 :: real) ^ k"
  have D: "2 ^ 52 \<le> D" using d(1) unfolding D_def by (intro power_increasing) simp_all
  have b: "0 < b" "b < 2 ^ 44" using assms(2,3) by (simp_all add: b_def)
  have e1: "2 * \<bar>real n * b - a * D\<bar> \<le> b" using d(2) by (simp add: a_def b_def D_def)
  have n: "0 < n"
  proof (rule ccontr)
    assume "\<not> 0 < n"
    then have "2 * (a * D) \<le> b" using e1 pos by (simp add: a_def D_def)
    moreover have "1 * D \<le> a * D" using pos D by (intro mult_right_mono) (simp_all add: a_def)
    ultimately show False using D b by simp
  qed
  have "100 * n \<le> 100 * 2 ^ k" using d(3) by simp
  from float_scale_near [OF _ mj this] n obtain t where t: "k = j + t"
      "2 * \<bar>real m * 2 ^ t - real (100 * n)\<bar> * 2 ^ 52 \<le> real (100 * n)"
    by auto
  define T where "T = (2 :: real) ^ t"
  have T: "0 < T" "D = 2 ^ j * T" by (simp_all add: T_def D_def t(1) power_add)
  have nD: "real n \<le> D" using d(3) unfolding D_def by (metis of_nat_le_iff of_nat_numeral of_nat_power)
  have e2: "2 * \<bar>real m * T - 100 * real n\<bar> * 2 ^ 52 \<le> 100 * D" using t(2) nD by (simp add: T_def)
  have "2 * \<bar>real p * 2 ^ j - real m\<bar> \<le> 2 ^ j"
    using round_even_near [of "2 ^ j" m] by (simp add: p)
  then have "2 * \<bar>real p * 2 ^ j - real m\<bar> * T \<le> 2 ^ j * T" using T(1) by (intro mult_right_mono) simp_all
  moreover have "\<bar>real p * 2 ^ j - real m\<bar> * T = \<bar>(real p * 2 ^ j - real m) * T\<bar>"
    using T(1) by (simp add: abs_mult)
  ultimately have e3: "2 * \<bar>real p * D - real m * T\<bar> \<le> D"
    by (simp add: T(2) left_diff_distrib mult.assoc)
  have parts: "(real p * b - 100 * a) * D
      = b * (real p * D - real m * T) + b * (real m * T - 100 * real n) + 100 * (real n * b - a * D)"
    by (simp add: algebra_simps)
  have scaled: "\<bar>b * x\<bar> = b * \<bar>x\<bar>" for x using b(1) by (simp add: abs_mult)
  have "\<bar>real p * b - 100 * a\<bar> * D = \<bar>(real p * b - 100 * a) * D\<bar>" using D by (simp add: abs_mult)
  also have "\<dots> \<le> b * \<bar>real p * D - real m * T\<bar> + b * \<bar>real m * T - 100 * real n\<bar> + 100 * \<bar>real n * b - a * D\<bar>"
    unfolding parts scaled [symmetric] by (rule three_parts)
  finally have sum: "2 * (\<bar>real p * b - 100 * a\<bar> * D)
      \<le> b * (2 * \<bar>real p * D - real m * T\<bar>) + b * (2 * \<bar>real m * T - 100 * real n\<bar>) + 100 * (2 * \<bar>real n * b - a * D\<bar>)"
    by (simp add: algebra_simps)
  have b1: "b * (2 * \<bar>real p * D - real m * T\<bar>) \<le> b * D" using e3 b(1) by (intro mult_left_mono) simp_all
  have "2 * \<bar>real m * T - 100 * real n\<bar> \<le> 100 * D / 2 ^ 52" using e2 by simp
  then have "b * (2 * \<bar>real m * T - 100 * real n\<bar>) \<le> 2 ^ 44 * (100 * D / 2 ^ 52)"
    using b D by (intro mult_mono) simp_all
  then have b2: "b * (2 * \<bar>real m * T - 100 * real n\<bar>) \<le> 100 / 256 * D" by simp
  have b3: "100 * (2 * \<bar>real n * b - a * D\<bar>) \<le> 100 / 256 * D" using e1 b D by simp
  have "2 * (\<bar>real p * b - 100 * a\<bar> * D) \<le> b * D + 200 / 256 * D" using sum b1 b2 b3 by linarith
  then have "(2 * \<bar>real p * b - 100 * a\<bar>) * D \<le> (b + 200 / 256) * D" by (simp add: algebra_simps)
  then have "2 * \<bar>real p * b - 100 * a\<bar> \<le> b + 200 / 256" using D by (simp add: mult_le_cancel_right)
  then have "2 * real_of_int \<bar>int p * int sent - 100 * int lost\<bar> \<le> real_of_int (int sent) + 200 / 256"
    by (simp add: a_def b_def)
  then show ?thesis unfolding p_def by linarith
qed (simp add: packet_loss_def)

section \<open>The lines of a ping run\<close>

definition eol :: string where "eol = [CHR 0x0A]"

text \<open>A duration as the client prints it: rounded to the microsecond.\<close>

definition rtt_text :: "time \<Rightarrow> string" where
  "rtt_text d = Duration_String (Duration_Round d Microsecond)"

definition ping_line_text :: "string \<Rightarrow> ping_line \<Rightarrow> string" where
  "ping_line_text device l = (case l of
     PingTimeout \<Rightarrow> ''ping '' @ device @ '': timeout'' @ eol
   | PingReply i rtt \<Rightarrow> ''ping '' @ device @ '': seq='' @ show_nat i @ '' time='' @ rtt_text rtt @ eol)"

definition printPingStats :: "string \<Rightarrow> pingStats \<Rightarrow> string" where
  "printPingStats device st =
     eol @ ''--- '' @ device @ '' ping statistics ---'' @ eol @
     (if psSent st = 0 then ''0 packets transmitted, 0 received, 0% packet loss'' @ eol
      else
        (let loss = packet_loss (psSent st - psReceived st) (psSent st) in
         show_nat (psSent st) @ '' packets transmitted, '' @ show_nat (psReceived st) @ '' received, '' @
         show_nat loss @ ''% packet loss'' @ eol @
         (if psReceived st > 0
          then ''rtt min/avg/max = '' @ rtt_text (psMin st) @ ''/'' @ rtt_text (average_rtt st) @ ''/'' @
            rtt_text (psMax st) @ eol
          else [])))"

text \<open>All that \<open>RunPing\<close> writes.\<close>

definition RunPing_text :: "subscriber \<Rightarrow> client \<Rightarrow> nat \<Rightarrow> ping_input list \<Rightarrow> string + string" where
  "RunPing_text sb c pings ins = (case RunPing sb c pings ins of
     Inl err \<Rightarrow> Inl err
   | Inr (lines, st) \<Rightarrow>
       Inr (concat (map (ping_line_text (clID c)) lines) @ printPingStats (clID c) st))"

section \<open>The table of the devices\<close>

text \<open>\<open>utf8.RuneCountInString\<close>: a byte outside a valid sequence counts as one rune.\<close>

function RuneCount :: "string \<Rightarrow> nat" where
  "RuneCount [] = 0"
| "RuneCount (c # s) = 1 + RuneCount (drop (max 1 (utf8_size (c # s))) (c # s))"
  by pat_completeness auto
termination by (relation "measure length") (auto simp: max_def)

text \<open>\<open>%-ws\<close> of \<open>fmt\<close>: padded on the right to \<open>w\<close> runes, never cut.\<close>

definition pad_right :: "nat \<Rightarrow> string \<Rightarrow> string" where
  "pad_right w s = s @ replicate (w - RuneCount s) CHR '' ''"

definition status_line :: "string \<Rightarrow> string \<Rightarrow> string \<Rightarrow> string" where
  "status_line device version rtt = pad_right 30 device @ '' '' @ pad_right 18 version @ '' '' @ rtt @ eol"

definition status_text :: "deviceStatus list \<Rightarrow> string" where
  "status_text order =
     status_line ''DEVICE'' ''VERSION'' ''RTT'' @
     concat (map (\<lambda>(device, version, rtt). status_line device version (rtt_text rtt)) (status_rows order)) @
     (case status_empty_note order of None \<Rightarrow> [] | Some note \<Rightarrow> note @ eol)"

lemma RunPing_lines:
  "fst (RunPing_loop i n ins st) =
     map (\<lambda>(j, r). case r of None \<Rightarrow> PingTimeout | Some rtt \<Rightarrow> PingReply j rtt) (enumerate i (ping_results n ins))"
  by (induction i n ins st rule: RunPing_loop.induct) (auto split: prod.split)

lemma utf8_size_space: "utf8_size (c # s @ CHR '' '' # t) = utf8_size (c # s)"
  by (auto simp: utf8_size_def cont_byte_def second_byte_def split: list.splits)

lemma RuneCount_space: "RuneCount (s @ CHR '' '' # t) = RuneCount s + RuneCount (CHR '' '' # t)"
proof (induction s rule: RuneCount.induct)
  case (2 c s)
  have "utf8_size (c # s) \<le> length (c # s)" by (rule utf8_size_le)
  then have "drop (max 1 (utf8_size (c # s))) (c # s @ CHR '' '' # t)
      = drop (max 1 (utf8_size (c # s))) (c # s) @ CHR '' '' # t"
    by (cases "utf8_size (c # s)") auto
  with "2.IH" show ?case by (simp add: utf8_size_space)
qed simp

lemma RuneCount_spaces: "RuneCount (replicate n CHR '' '') = n"
  by (induction n) (simp_all add: utf8_size_ascii)

text \<open>A column is as wide as asked, in runes, unless the cell is wider.\<close>

lemma pad_right_width: "RuneCount (pad_right w s) = max w (RuneCount s)"
proof (cases "w - RuneCount s")
  case 0
  then show ?thesis by (simp add: pad_right_def max_def)
next
  case (Suc n)
  have "RuneCount (s @ CHR '' '' # replicate n CHR '' '') = RuneCount s + RuneCount (replicate (Suc n) CHR '' '')"
    by (simp only: RuneCount_space replicate_Suc)
  also have "\<dots> = w" using Suc RuneCount_spaces [of "Suc n"] by linarith
  finally show ?thesis using Suc by (simp add: pad_right_def)
qed

section \<open>What a ping run reports\<close>

text \<open>The summary of a run from the round trips of its answered pings.\<close>

definition rtt_summary :: "time list \<Rightarrow> string" where
  "rtt_summary ts = (if ts = [] then [] else
     ''rtt min/avg/max = '' @ rtt_text (Min (set ts)) @ ''/'' @ rtt_text (sum_list ts div int (length ts)) @ ''/'' @
     rtt_text (Max (set ts)) @ eol)"

lemma printPingStats_report:
  assumes "\<forall>t \<in> set (rtts rs). t > 0" and "rs \<noteq> []"
  shows "printPingStats device (RunPing_stats rs) =
     eol @ ''--- '' @ device @ '' ping statistics ---'' @ eol @
     show_nat (length rs) @ '' packets transmitted, '' @ show_nat (length (rtts rs)) @ '' received, '' @
     show_nat (packet_loss (length rs - length (rtts rs)) (length rs)) @ ''% packet loss'' @ eol @ rtt_summary (rtts rs)"
  using RunPing_stats_counts [of rs] RunPing_stats_extremes [OF assms(1)] assms(2)
  by (auto simp: printPingStats_def rtt_summary_def average_rtt_def Let_def)

lemma rtt_text_examples:
  "rtt_text 1234567 = ''1.235ms''" "rtt_text 40 = ''0s''" "rtt_text 617303 = ''617'' @ micro_sign @ ''s''"
  "rtt_text 61500000000 = ''1m1.5s''"
  by (simp_all add: rtt_text_def Duration_Round_def Microsecond_def maxDuration_def Duration_String_def Let_def
      fmtFrac_def fmtFrac_digits_numeral show_nat.simps digit_char_def char_of_def bit_Suc_0_iff)

section \<open>Main properties\<close>

text \<open>C37. What a ping run prints: a line for every ping it made, the numbers sent and answered, a whole percentage nearest to the true packet loss, and, if any ping was answered, the least, the average and the greatest round trip time of the answered ones.\<close>

theorem ping_report:
  assumes "client_subscribe sb c = (subs, None)" and "\<forall>t \<in> set (rtts (ping_results n ins)). t > 0"
    and "ping_results n ins \<noteq> []" and "length (ping_results n ins) < 2 ^ 44"
  shows "\<exists>percent. 2 * \<bar>int percent * int (length (ping_results n ins))
         - 100 * int (length (ping_results n ins) - length (rtts (ping_results n ins)))\<bar>
       \<le> int (length (ping_results n ins)) \<and>
     RunPing_text sb c n ins = Inr (
       concat (map (\<lambda>(i, r). case r of
           None \<Rightarrow> ''ping '' @ clID c @ '': timeout'' @ eol
         | Some t \<Rightarrow> ''ping '' @ clID c @ '': seq='' @ show_nat i @ '' time='' @ rtt_text t @ eol)
         (enumerate 0 (ping_results n ins))) @
       eol @ ''--- '' @ clID c @ '' ping statistics ---'' @ eol @
       show_nat (length (ping_results n ins)) @ '' packets transmitted, '' @
       show_nat (length (rtts (ping_results n ins))) @ '' received, '' @
       show_nat percent @ ''% packet loss'' @ eol @ rtt_summary (rtts (ping_results n ins)))"
proof (intro exI conjI)
  show "2 * \<bar>int (packet_loss (length (ping_results n ins) - length (rtts (ping_results n ins))) (length (ping_results n ins)))
       * int (length (ping_results n ins))
       - 100 * int (length (ping_results n ins) - length (rtts (ping_results n ins)))\<bar> \<le> int (length (ping_results n ins))"
    using assms(3,4) by (intro packet_loss_near) auto
  have st: "snd (RunPing_loop 0 n ins zeroStats) = RunPing_stats (ping_results n ins)"
    using RunPing_loop_stats [of 0 n ins zeroStats] by (simp add: RunPing_stats_def)
  have lines: "map (ping_line_text (clID c)) (fst (RunPing_loop 0 n ins zeroStats)) =
     map (\<lambda>(i, r). case r of
           None \<Rightarrow> ''ping '' @ clID c @ '': timeout'' @ eol
         | Some t \<Rightarrow> ''ping '' @ clID c @ '': seq='' @ show_nat i @ '' time='' @ rtt_text t @ eol)
         (enumerate 0 (ping_results n ins))"
    by (auto simp: RunPing_lines ping_line_text_def split: option.split)
  show "RunPing_text sb c n ins = Inr (
       concat (map (\<lambda>(i, r). case r of
           None \<Rightarrow> ''ping '' @ clID c @ '': timeout'' @ eol
         | Some t \<Rightarrow> ''ping '' @ clID c @ '': seq='' @ show_nat i @ '' time='' @ rtt_text t @ eol)
         (enumerate 0 (ping_results n ins))) @
       eol @ ''--- '' @ clID c @ '' ping statistics ---'' @ eol @
       show_nat (length (ping_results n ins)) @ '' packets transmitted, '' @
       show_nat (length (rtts (ping_results n ins))) @ '' received, '' @
       show_nat (packet_loss (length (ping_results n ins) - length (rtts (ping_results n ins))) (length (ping_results n ins))) @
       ''% packet loss'' @ eol @ rtt_summary (rtts (ping_results n ins)))"
    unfolding lines [symmetric] printPingStats_report [OF assms(2,3), symmetric] st [symmetric]
    by (simp add: RunPing_text_def RunPing_def assms(1) split: prod.split)
qed

theorem ping_report_witness:
  "\<exists>percent. 2 * \<bar>int percent * 3 - 100\<bar> \<le> 3 \<and>
     RunPing_text \<lparr>sbSubscribe = \<lambda>_. None, sbSubscribeAll = None\<rparr> (New_client ''d'') 5
       [PingDone (Some 1234567), PingDone None, PingDone (Some 40), PingCancelled]
     = Inr (''ping d: seq=0 time=1.235ms'' @ eol @ ''ping d: timeout'' @ eol @ ''ping d: seq=2 time=0s'' @ eol @
         eol @ ''--- d ping statistics ---'' @ eol @ ''3 packets transmitted, 2 received, '' @ show_nat percent @
         ''% packet loss'' @ eol @ ''rtt min/avg/max = 0s/617'' @ micro_sign @ ''s/1.235ms'' @ eol)"
proof -
  let ?ins = "[PingDone (Some 1234567), PingDone None, PingDone (Some 40), PingCancelled]"
  let ?sb = "\<lparr>sbSubscribe = \<lambda>_. None, sbSubscribeAll = None\<rparr>"
  have sub: "client_subscribe ?sb (New_client ''d'') = (fst (client_subscribe ?sb (New_client ''d'')), None)"
    by (simp add: client_subscribe_def wrap_def)
  have rs: "ping_results 5 ?ins = [Some 1234567, None, Some 40]" by (simp add: eval_nat_numeral)
  have ts: "rtts [Some 1234567, None, Some 40] = [1234567, 40]" by (simp add: rtts_def List.map_filter_def)
  have nums: "show_nat 0 = ''0''" "show_nat (Suc (Suc 0)) = ''2''" "show_nat (Suc (Suc (Suc 0))) = ''3''" "show_nat 2 = ''2''" "show_nat 3 = ''3''" by code_simp+
  show ?thesis
    using ping_report [OF sub, of 5 ?ins]
    by (simp add: rs ts rtt_summary_def rtt_text_examples nums New_client_def)
qed

end
