(* ===== verification/Configuration.thy ===== *)
theory Configuration
  imports GoStd
begin

text \<open>
  \<open>internal/config/config.go\<close>: the configuration and what it makes of the MQTT client's options.
  \<open>url.Parse\<close>, the files and the certificates are arguments: the code uses the scheme, the host name
  and the port of the broker's URL, and which of the calls on files fail.
\<close>

section \<open>Options of the MQTT client\<close>

record GatewayRoute =
  grListen :: string
  grDevice :: string
  grTarget :: string

record Config =
  cfBroker :: string
  cfClientID :: string
  cfDeviceID :: string
  cfUsername :: string
  cfPassword :: string
  cfKeepAlive :: u16
  cfTLSCert :: string
  cfTLSKey :: string
  cfTLSCA :: string
  cfLogLevel :: string
  cfHealthListen :: string
  cfRoutes :: "GatewayRoute list"
  cfMaxPacketSize :: u32
  cfHasHandler :: bool

text \<open>The struct's defaults, which \<open>Load\<close> starts from, and the file \<open>Load\<close> reads.\<close>

definition default_config :: Config where
  "default_config = \<lparr>cfBroker = ''tcp://localhost:1883'', cfClientID = [], cfDeviceID = [], cfUsername = [],
     cfPassword = [], cfKeepAlive = 60, cfTLSCert = [], cfTLSKey = [], cfTLSCA = [], cfLogLevel = ''info'',
     cfHealthListen = [], cfRoutes = [], cfMaxPacketSize = 131072, cfHasHandler = False\<rparr>"

definition DefaultConfigFile :: string where
  "DefaultConfigFile = ''/etc/mqtt-forward/config.yaml''"

definition config_file :: "string \<Rightarrow> string" where
  "config_file env = (if env = [] then DefaultConfigFile else env)"

text \<open>\<open>xload\<close> is xconfig's \<open>Load\<close> with the environment: it fills the record from the defaults, the file and the variables.\<close>

definition Load :: "(string \<Rightarrow> Config \<Rightarrow> string + Config) \<Rightarrow> string \<Rightarrow> Config \<Rightarrow> string + Config" where
  "Load xload mqttConfig c = xload (config_file mqttConfig) c"

text \<open>The parts of a broker URL that \<open>url.Parse\<close> finds.\<close>

record url_parts =
  upScheme :: string
  upHostname :: string
  upPort :: string

definition isAWSIoTEndpoint :: "string \<Rightarrow> bool" where
  "isAWSIoTEndpoint host =
     (let parts = split_on CHR ''.'' host in
      if length parts < 4 then False
      else parts ! 1 = ''iot'' \<and> has_suffix host ''.amazonaws.com'')"

definition IsAWSIoT :: "(string \<Rightarrow> url_parts option) \<Rightarrow> Config \<Rightarrow> bool" where
  "IsAWSIoT url c = (case url (cfBroker c) of None \<Rightarrow> False | Some u \<Rightarrow> isAWSIoTEndpoint (upHostname u))"

definition alpnProtocol :: "(string \<Rightarrow> url_parts option) \<Rightarrow> Config \<Rightarrow> string" where
  "alpnProtocol url c = (case url (cfBroker c) of
     None \<Rightarrow> []
   | Some u \<Rightarrow>
       if upPort u \<noteq> ''443'' then []
       else if \<not> isAWSIoTEndpoint (upHostname u) then []
       else if upScheme u \<in> {''tls'', ''ssl'', ''tcps''} then ''x-amzn-mqtt-ca'' else [])"

record tls_config =
  tlNextProtos :: "string list"
  tlHasCert :: bool
  tlHasRootCA :: bool

datatype tls_error = LoadCert string | ReadCA string | InvalidCA

record tls_files =
  tfPair :: "string \<Rightarrow> string \<Rightarrow> string option"
  tfRead :: "string \<Rightarrow> string + string"
  tfPem :: "string \<Rightarrow> bool"

definition buildTLSConfig :: "(string \<Rightarrow> url_parts option) \<Rightarrow> tls_files \<Rightarrow> Config \<Rightarrow> tls_error + tls_config" where
  "buildTLSConfig url files c =
     (let alpn = alpnProtocol url c;
          t0 = \<lparr>tlNextProtos = (if alpn \<noteq> [] then [alpn] else []), tlHasCert = False, tlHasRootCA = False\<rparr>;
          wantCert = cfTLSCert c \<noteq> [] \<and> cfTLSKey c \<noteq> [] in
      case (if wantCert then tfPair files (cfTLSCert c) (cfTLSKey c) else None) of
        Some e \<Rightarrow> Inl (LoadCert e)
      | None \<Rightarrow>
          (let t1 = (if wantCert then t0\<lparr>tlHasCert := True\<rparr> else t0) in
           if cfTLSCA c = [] then Inr t1
           else (case tfRead files (cfTLSCA c) of
               Inl e \<Rightarrow> Inl (ReadCA e)
             | Inr pem \<Rightarrow> if \<not> tfPem files pem then Inl InvalidCA else Inr (t1\<lparr>tlHasRootCA := True\<rparr>))))"

datatype mqtt_option = WithServers string | WithKeepAlive u16 | WithAutoReconnect bool | WithMaxReconnects int
  | WithCleanStart bool | WithProxyFromEnvironment bool | WithMaxPacketSize u32 | WithClientID string
  | WithCredentials string string | OnEvent | WithTLS tls_config

definition MQTTOptions :: "(string \<Rightarrow> url_parts option) \<Rightarrow> tls_files \<Rightarrow> Config \<Rightarrow> tls_error + mqtt_option list" where
  "MQTTOptions url files c =
     (let opts = [WithServers (cfBroker c), WithKeepAlive (cfKeepAlive c), WithAutoReconnect True,
            WithMaxReconnects (-1), WithCleanStart False, WithProxyFromEnvironment True]
          @ (if cfMaxPacketSize c > 0 then [WithMaxPacketSize (cfMaxPacketSize c)] else [])
          @ (if cfClientID c \<noteq> [] then [WithClientID (cfClientID c)] else [])
          @ (if cfUsername c \<noteq> [] then [WithCredentials (cfUsername c) (cfPassword c)] else [])
          @ (if cfHasHandler c then [OnEvent] else []) in
      if cfTLSCert c \<noteq> [] \<or> cfTLSCA c \<noteq> [] then
        (case buildTLSConfig url files c of
           Inl e \<Rightarrow> Inl e
         | Inr t \<Rightarrow> Inr (opts @ [WithTLS t]))
      else Inr opts)"

definition ConnectTimeout :: time where
  "ConnectTimeout = 10 * Second"

section \<open>Properties\<close>

text \<open>The connection options: never a fresh session, always reconnecting; TLS exactly when configured.\<close>

lemma MQTTOptions_tls:
  assumes "MQTTOptions url files c = Inr opts"
  shows "(\<exists>t. WithTLS t \<in> set opts) \<longleftrightarrow> cfTLSCert c \<noteq> [] \<or> cfTLSCA c \<noteq> []"
    and "{WithServers (cfBroker c), WithCleanStart False, WithAutoReconnect True, WithMaxReconnects (-1)} \<subseteq> set opts"
  using assms by (auto simp: MQTTOptions_def Let_def split: if_splits sum.splits)

lemma buildTLS_alpn:
  assumes "buildTLSConfig url files c = Inr t"
  shows "tlNextProtos t = (if alpnProtocol url c = [] then [] else [''x-amzn-mqtt-ca''])"
    and "tlHasRootCA t \<longleftrightarrow> cfTLSCA c \<noteq> []"
    and "tlHasCert t \<longleftrightarrow> cfTLSCert c \<noteq> [] \<and> cfTLSKey c \<noteq> []"
proof -
  have a: "alpnProtocol url c = [] \<or> alpnProtocol url c = ''x-amzn-mqtt-ca''"
    by (auto simp: alpnProtocol_def split: option.split)
  show "tlNextProtos t = (if alpnProtocol url c = [] then [] else [''x-amzn-mqtt-ca''])"
    using assms a by (auto simp: buildTLSConfig_def Let_def split: if_splits option.splits sum.splits)
  show "tlHasRootCA t \<longleftrightarrow> cfTLSCA c \<noteq> []" and "tlHasCert t \<longleftrightarrow> cfTLSCert c \<noteq> [] \<and> cfTLSKey c \<noteq> []"
    using assms by (auto simp: buildTLSConfig_def Let_def split: if_splits option.splits sum.splits)
qed

end
