(* ===== verification/Gateway.thy ===== *)
theory Gateway
  imports ClientRuns Configuration "HOL-Library.Multiset"
begin

text \<open>
  The gateway (\<open>internal/gateway/gateway.go\<close>) and the routing flags, the identities and the event
  handler of the command line (\<open>internal/cmd/cmd.go\<close>). The commands that put these parts together
  are in theory \<open>Commands\<close>.
\<close>

section \<open>Routes\<close>

record Route =
  rtListen :: string
  rtDevice :: string
  rtTarget :: string

datatype gateway_error = NoRoutes | EmptyListen | EmptyDevice string | EmptyTarget string
  | DuplicateRoute string

fun check_routes :: "string set \<Rightarrow> Route list \<Rightarrow> gateway_error option" where
  "check_routes seen [] = None"
| "check_routes seen (r # rs) =
     (if rtListen r = [] then Some EmptyListen
      else if rtDevice r = [] then Some (EmptyDevice (rtListen r))
      else if rtTarget r = [] then Some (EmptyTarget (rtListen r))
      else if rtListen r \<in> seen then Some (DuplicateRoute (rtListen r))
      else check_routes (insert (rtListen r) seen) rs)"

record Gateway =
  gwRoutes :: "Route list"
  gwClients :: "client list"

definition New_gateway :: "Route list \<Rightarrow> gateway_error + Gateway" where
  "New_gateway routes =
     (if routes = [] then Inl NoRoutes
      else case check_routes {} routes of
        Some e \<Rightarrow> Inl e
      | None \<Rightarrow> Inr \<lparr>gwRoutes = routes, gwClients = []\<rparr>)"

definition add_forward :: "Route \<Rightarrow> (string \<Rightarrow> TCPForward list option) \<Rightarrow> string \<Rightarrow> TCPForward list option" where
  "add_forward r m = m(rtDevice r \<mapsto> (case m (rtDevice r) of None \<Rightarrow> [] | Some fs \<Rightarrow> fs)
     @ [\<lparr>tfListen = rtListen r, tfTarget = rtTarget r\<rparr>])"

definition groupByDevice :: "Route list \<Rightarrow> string \<Rightarrow> TCPForward list option" where
  "groupByDevice routes = foldl (\<lambda>m r. add_forward r m) Map.empty routes"

text \<open>
  \<open>CloseAllSessions\<close> closes the sessions of each client that \<open>Run\<close> has made; \<open>orders\<close> are the iteration
  orders of their tables.
\<close>

definition gateway_CloseAllSessions :: "(string \<times> nat) list list \<Rightarrow> Gateway \<Rightarrow> Gateway" where
  "gateway_CloseAllSessions orders g = g\<lparr>gwClients := map2 CloseAll orders (gwClients g)\<rparr>"

section \<open>Route flags\<close>

datatype route_error = ExpectedKeyValue string | UnknownKey string | MissingDevice | MissingListen | MissingTarget

fun parse_fields :: "string list \<Rightarrow> Route \<Rightarrow> route_error + Route" where
  "parse_fields [] r = Inr r"
| "parse_fields (field # rest) r =
     (case cut CHR ''='' field of (key, value, ok) \<Rightarrow>
        if \<not> ok then Inl (ExpectedKeyValue field)
        else if TrimSpace key = ''device'' then parse_fields rest (r\<lparr>rtDevice := TrimSpace value\<rparr>)
        else if TrimSpace key = ''listen'' then parse_fields rest (r\<lparr>rtListen := TrimSpace value\<rparr>)
        else if TrimSpace key = ''target'' then parse_fields rest (r\<lparr>rtTarget := TrimSpace value\<rparr>)
        else Inl (UnknownKey key))"

definition zeroRoute :: Route where
  "zeroRoute = \<lparr>rtListen = [], rtDevice = [], rtTarget = []\<rparr>"

definition parseRouteFlag :: "string \<Rightarrow> route_error + Route" where
  "parseRouteFlag raw =
     (case parse_fields (split_on CHR '','' raw) zeroRoute of
        Inl e \<Rightarrow> Inl e
      | Inr r \<Rightarrow>
          if rtDevice r = [] then Inl MissingDevice
          else if rtListen r = [] then Inl MissingListen
          else if rtTarget r = [] then Inl MissingTarget
          else Inr r)"

fun parseRouteFlags :: "string list \<Rightarrow> (string \<times> route_error) + Route list" where
  "parseRouteFlags [] = Inr []"
| "parseRouteFlags (raw # raws) =
     (case parseRouteFlag raw of
        Inl e \<Rightarrow> Inl (raw, e)
      | Inr r \<Rightarrow> (case parseRouteFlags raws of Inl e \<Rightarrow> Inl e | Inr rs \<Rightarrow> Inr (r # rs)))"

text \<open>The map \<open>override\<close>: the last flag route of each listen address.\<close>

definition override_of :: "Route list \<Rightarrow> string \<Rightarrow> Route option" where
  "override_of flagRoutes = foldl (\<lambda>m r. m(rtListen r \<mapsto> r)) Map.empty flagRoutes"

definition route_of :: "GatewayRoute \<Rightarrow> Route" where
  "route_of r = \<lparr>rtListen = grListen r, rtDevice = grDevice r, rtTarget = grTarget r\<rparr>"

fun merge_config :: "(string \<Rightarrow> Route option) \<Rightarrow> GatewayRoute list \<Rightarrow> Route list \<times> string set" where
  "merge_config ov [] = ([], {})"
| "merge_config ov (r # rs) =
     (case merge_config ov rs of (merged, used) \<Rightarrow>
        (case ov (grListen r) of
           Some o' \<Rightarrow> (o' # merged, insert (grListen r) used)
         | None \<Rightarrow> (route_of r # merged, used)))"

definition mergeGatewayRoutes :: "GatewayRoute list \<Rightarrow> string list \<Rightarrow> (string \<times> route_error) + Route list" where
  "mergeGatewayRoutes configRoutes routeFlags =
     (case parseRouteFlags routeFlags of
        Inl e \<Rightarrow> Inl e
      | Inr flagRoutes \<Rightarrow>
          (case merge_config (override_of flagRoutes) configRoutes of (merged, used) \<Rightarrow>
             Inr (merged @ filter (\<lambda>r. rtListen r \<notin> used) flagRoutes)))"

section \<open>Identities\<close>

definition defaultDeviceID :: "string option \<Rightarrow> string" where
  "defaultDeviceID hostname = (case hostname of
     None \<Rightarrow> []
   | Some h \<Rightarrow> ''tunnel-device-'' @ fst (cut CHR ''.'' (ToLower h)))"

definition defaultClientID :: "string option \<Rightarrow> string" where
  "defaultClientID hostname = ToLower (case hostname of None \<Rightarrow> ''unknown'' | Some h \<Rightarrow> h)"

definition resolveClientID :: "string option \<Rightarrow> string \<Rightarrow> string" where
  "resolveClientID hostname clientID = (if clientID = [] then defaultClientID hostname else clientID)"

definition device_identity :: "string option \<Rightarrow> string \<Rightarrow> string" where
  "device_identity hostname deviceID = (if deviceID = [] then defaultDeviceID hostname else deviceID)"

text \<open>The TLS files of a device: a default path is taken for an unset field if the file exists.\<close>

definition tls_default :: "(string \<Rightarrow> bool) \<Rightarrow> string \<Rightarrow> string \<Rightarrow> string" where
  "tls_default exists field path = (if field \<noteq> [] then field else if exists path then path else field)"

definition applyDeviceTLSDefaults :: "(string \<Rightarrow> bool) \<Rightarrow> string \<times> string \<times> string \<Rightarrow> string \<times> string \<times> string" where
  "applyDeviceTLSDefaults exists = (\<lambda>(cert, key, ca).
     (tls_default exists cert ''/etc/mqtt-forward/device.pem'',
      tls_default exists key ''/etc/mqtt-forward/device.key'',
      tls_default exists ca ''/etc/mqtt-forward/AmazonRootCA1.pem''))"

section \<open>Connection events\<close>

datatype mqtt_event = ConnectionLost | Reconnecting | Connected | ReconnectFailed | OtherEvent

datatype callback = CallLost | CallConnected

definition newEventHandler :: "bool \<Rightarrow> bool \<Rightarrow> mqtt_event \<Rightarrow> callback list" where
  "newEventHandler hasLost hasConnected ev = (case ev of
     ConnectionLost \<Rightarrow> if hasLost then [CallLost] else []
   | Reconnecting \<Rightarrow> []
   | Connected \<Rightarrow> if hasConnected then [CallConnected] else []
   | ReconnectFailed \<Rightarrow> []
   | OtherEvent \<Rightarrow> [])"

text \<open>The process exit code of the exec command, when \<open>RunExec\<close> returned no error.\<close>

definition exec_exit_code :: "int \<Rightarrow> int" where
  "exec_exit_code exitCode = (if exitCode < 0 then 0 else exitCode)"

definition exec_command :: "string list \<Rightarrow> string" where
  "exec_command args = join_with '' '' args"

section \<open>Properties\<close>

lemma check_routes_None:
  "check_routes seen rs = None \<longleftrightarrow>
     (\<forall>r \<in> set rs. rtListen r \<noteq> [] \<and> rtDevice r \<noteq> [] \<and> rtTarget r \<noteq> []) \<and>
     distinct (map rtListen rs) \<and> set (map rtListen rs) \<inter> seen = {}"
  by (induction seen rs rule: check_routes.induct) auto

lemma New_gateway_ok:
  "(\<exists>g. New_gateway rs = Inr g) \<longleftrightarrow> rs \<noteq> [] \<and>
     (\<forall>r \<in> set rs. rtListen r \<noteq> [] \<and> rtDevice r \<noteq> [] \<and> rtTarget r \<noteq> []) \<and> distinct (map rtListen rs)"
  using check_routes_None [of "{}" rs] by (auto simp: New_gateway_def split: option.split)

definition forward_of :: "Route \<Rightarrow> TCPForward" where
  "forward_of r = \<lparr>tfListen = rtListen r, tfTarget = rtTarget r\<rparr>"

text \<open>Each device gets its own routes, in order, and a device without routes has no entry.\<close>

lemma groupByDevice_snoc: "groupByDevice (rs @ [r]) = add_forward r (groupByDevice rs)"
  by (simp add: groupByDevice_def)

lemma groupByDevice_eq:
  "groupByDevice rs dev = (let own = filter (\<lambda>r. rtDevice r = dev) rs in
     if own = [] then None else Some (map forward_of own))"
proof (induction rs arbitrary: dev rule: rev_induct)
  case Nil
  then show ?case by (simp add: groupByDevice_def)
next
  case (snoc r rs)
  show ?case
    unfolding groupByDevice_snoc by (simp add: snoc.IH add_forward_def Let_def forward_of_def)
qed

lemma parseRouteFlags_Inr: "parseRouteFlags raws = Inr rs \<longleftrightarrow> map parseRouteFlag raws = map Inr rs"
proof (induction raws arbitrary: rs)
  case (Cons raw raws)
  show ?case
  proof (cases rs)
    case Nil
    then show ?thesis by (auto split: sum.split)
  next
    case (Cons r rs')
    then show ?thesis using Cons.IH [of rs'] by (auto split: sum.split)
  qed
qed auto

lemma override_of_snoc: "override_of (rs @ [r]) = (override_of rs)(rtListen r \<mapsto> r)"
  by (simp add: override_of_def)

lemma override_of_Some: "override_of rs l = Some r \<Longrightarrow> r \<in> set rs \<and> rtListen r = l"
  by (induction rs rule: rev_induct) (auto simp: override_of_snoc override_of_def split: if_splits)

lemma override_of_None: "override_of rs l = None \<longleftrightarrow> l \<notin> rtListen ` set rs"
  by (induction rs rule: rev_induct) (auto simp: override_of_snoc, simp add: override_of_def)

lemma merge_config_eq:
  "merge_config ov rs = (map (\<lambda>r. case ov (grListen r) of Some o' \<Rightarrow> o' | None \<Rightarrow> route_of r) rs,
     {l \<in> set (map grListen rs). ov l \<noteq> None})"
  by (induction rs) (auto split: option.split)

text \<open>
  The result: each configured route or the flag that overrides it, in the configured order, then
  the flags for other addresses.
\<close>

lemma mergeGatewayRoutes_eq:
  assumes "parseRouteFlags flags = Inr frs"
  shows "mergeGatewayRoutes crs flags =
     Inr (map (\<lambda>r. case override_of frs (grListen r) of Some o' \<Rightarrow> o' | None \<Rightarrow> route_of r) crs
        @ filter (\<lambda>r. rtListen r \<notin> grListen ` set crs) frs)"
proof -
  have "filter (\<lambda>r. rtListen r \<notin> {l \<in> set (map grListen crs). override_of frs l \<noteq> None}) frs
      = filter (\<lambda>r. rtListen r \<notin> grListen ` set crs) frs"
    by (rule filter_cong [OF refl]) (auto simp: override_of_None)
  then show ?thesis using assms by (simp add: mergeGatewayRoutes_def merge_config_eq)
qed

lemma merged_listens:
  assumes "parseRouteFlags flags = Inr frs" and "mergeGatewayRoutes crs flags = Inr rs"
  shows "map rtListen rs = map grListen crs @ filter (\<lambda>l. l \<notin> grListen ` set crs) (map rtListen frs)"
proof -
  have "rtListen (case override_of frs (grListen r) of Some o' \<Rightarrow> o' | None \<Rightarrow> route_of r) = grListen r" for r
    by (auto simp: route_of_def dest: override_of_Some split: option.split)
  then show ?thesis
    using assms by (auto simp: mergeGatewayRoutes_eq filter_map comp_def)
qed

text \<open>A flag as it is documented parses, with its three fields in any order.\<close>

definition clean :: "string \<Rightarrow> bool" where
  "clean s \<longleftrightarrow> s \<noteq> [] \<and> TrimSpace s = s \<and> CHR '','' \<notin> set s"

datatype route_key = KDevice | KListen | KTarget

fun key_text :: "route_key \<Rightarrow> string" where
  "key_text KDevice = ''device''"
| "key_text KListen = ''listen''"
| "key_text KTarget = ''target''"

fun key_value :: "Route \<Rightarrow> route_key \<Rightarrow> string" where
  "key_value r KDevice = rtDevice r"
| "key_value r KListen = rtListen r"
| "key_value r KTarget = rtTarget r"

definition route_text :: "route_key list \<Rightarrow> Route \<Rightarrow> string" where
  "route_text ks r = join_with '','' (map (\<lambda>k. key_text k @ ''='' @ key_value r k) ks)"

definition set_key :: "Route \<Rightarrow> route_key \<Rightarrow> Route \<Rightarrow> Route" where
  "set_key r k x = (case k of KDevice \<Rightarrow> x\<lparr>rtDevice := rtDevice r\<rparr> | KListen \<Rightarrow> x\<lparr>rtListen := rtListen r\<rparr>
     | KTarget \<Rightarrow> x\<lparr>rtTarget := rtTarget r\<rparr>)"

lemma TrimSpace_keys: "TrimSpace ''device'' = ''device''" "TrimSpace ''listen'' = ''listen''" "TrimSpace ''target'' = ''target''"
  by (simp_all add: TrimSpace_def is_space_def)

lemma parse_fields_text:
  assumes "\<forall>k \<in> set ks. clean (key_value r k)"
  shows "parse_fields (map (\<lambda>k. key_text k @ ''='' @ key_value r k) ks) x
    = Inr (foldl (\<lambda>x k. set_key r k x) x ks)"
  using assms
proof (induction ks arbitrary: x)
  case (Cons k ks)
  have "CHR ''='' \<notin> set (key_text k)" by (cases k) simp_all
  then have "cut CHR ''='' (key_text k @ ''='' @ key_value r k) = (key_text k, key_value r k, True)"
    by (simp add: cut_append)
  moreover have "TrimSpace (key_value r k) = key_value r k" using Cons.prems by (simp add: clean_def)
  ultimately show ?case
    using Cons by (cases k) (simp_all add: TrimSpace_keys set_key_def)
qed simp

lemma parseRouteFlag_text:
  assumes "mset ks = {#KDevice, KListen, KTarget#}"
    and "clean (rtDevice r)" and "clean (rtListen r)" and "clean (rtTarget r)"
  shows "parseRouteFlag (route_text ks r) = Inr r"
proof -
  have vals: "clean (key_value r k)" for k using assms(2-4) by (cases k) simp_all
  have nosep: "\<forall>p \<in> set (map (\<lambda>k. key_text k @ ''='' @ key_value r k) ks). CHR '','' \<notin> set p"
  proof
    fix p assume "p \<in> set (map (\<lambda>k. key_text k @ ''='' @ key_value r k) ks)"
    then obtain k where "p = key_text k @ ''='' @ key_value r k" by auto
    with vals [of k] show "CHR '','' \<notin> set p" by (cases k) (simp_all add: clean_def)
  qed
  have "length ks = 3" using arg_cong [OF assms(1), of size] by simp
  then obtain a b c where ks: "ks = [a, b, c]" by (auto simp: length_Suc_conv eval_nat_numeral)
  then have "map (\<lambda>k. key_text k @ ''='' @ key_value r k) ks \<noteq> []" by simp
  then have "split_on CHR '','' (route_text ks r) = map (\<lambda>k. key_text k @ ''='' @ key_value r k) ks"
    unfolding route_text_def using nosep by (intro split_on_join) auto
  then have "parse_fields (split_on CHR '','' (route_text ks r)) zeroRoute
      = Inr (foldl (\<lambda>x k. set_key r k x) zeroRoute ks)"
    using parse_fields_text vals by simp
  moreover have "foldl (\<lambda>x k. set_key r k x) zeroRoute ks = r"
    using assms(1) unfolding ks
    by (cases a; cases b; cases c) (auto simp: set_key_def zeroRoute_def add_eq_conv_ex)
  ultimately show ?thesis
    using assms(2-4) by (simp add: parseRouteFlag_def clean_def)
qed

section \<open>Main properties\<close>

text \<open>C34. Merging flags into the configured routes replaces a configured route by the last flag for its address, keeps all others in place, and appends the flags for new addresses. The configured addresses are served as before, each once.\<close>

theorem merge_routes:
  assumes "parseRouteFlags flags = Inr frs" and "mergeGatewayRoutes crs flags = Inr rs"
  shows "length rs \<ge> length crs
     \<and> (\<forall>k < length crs. rs ! k = (case filter (\<lambda>r. rtListen r = grListen (crs ! k)) frs of
           [] \<Rightarrow> \<lparr>rtListen = grListen (crs ! k), rtDevice = grDevice (crs ! k), rtTarget = grTarget (crs ! k)\<rparr>
         | own \<Rightarrow> last own))
     \<and> drop (length crs) rs = filter (\<lambda>r. rtListen r \<notin> grListen ` set crs) frs"
proof -
  have ov: "override_of rs' l = (case filter (\<lambda>r. rtListen r = l) rs' of [] \<Rightarrow> None | own \<Rightarrow> Some (last own))" for rs' l
    by (induction rs' rule: rev_induct) (auto simp: override_of_snoc, auto simp: override_of_def split: list.splits)
  have rs: "rs = map (\<lambda>r. case override_of frs (grListen r) of Some o' \<Rightarrow> o' | None \<Rightarrow> route_of r) crs
      @ filter (\<lambda>r. rtListen r \<notin> grListen ` set crs) frs"
    using assms mergeGatewayRoutes_eq [OF assms(1), of crs] by simp
  then show ?thesis
    by (simp add: nth_append ov route_of_def split: list.split)
qed

theorem merge_routes_witness:
  "\<exists>rs. mergeGatewayRoutes [\<lparr>grListen = ''l'', grDevice = ''d'', grTarget = ''t''\<rparr>]
        [''device=e,listen=l,target=u'', ''device=f,listen=m,target=v''] = Inr rs
     \<and> rs ! 0 = \<lparr>rtListen = ''l'', rtDevice = ''e'', rtTarget = ''u''\<rparr>
     \<and> drop 1 rs = [\<lparr>rtListen = ''m'', rtDevice = ''f'', rtTarget = ''v''\<rparr>]"
proof -
  let ?crs = "[\<lparr>grListen = ''l'', grDevice = ''d'', grTarget = ''t''\<rparr>]"
    and ?flags = "[''device=e,listen=l,target=u'', ''device=f,listen=m,target=v'']"
  have f: "parseRouteFlags ?flags = Inr [\<lparr>rtListen = ''l'', rtDevice = ''e'', rtTarget = ''u''\<rparr>,
      \<lparr>rtListen = ''m'', rtDevice = ''f'', rtTarget = ''v''\<rparr>]"
    by code_simp
  obtain rs where rs: "mergeGatewayRoutes ?crs ?flags = Inr rs"
    using mergeGatewayRoutes_eq [OF f, of ?crs] by blast
  from merge_routes [OF f rs] rs show ?thesis by simp
qed

end
