(* ===== verification/Service.thy ===== *)
theory Service
  imports NetIP
begin

text \<open>
  What surrounds the tunnel in a process: the health
  endpoint (\<open>internal/health/health.go\<close>), the resolver and the service notifications
  (\<open>internal/system\<close>). The answers of the operating system and of the network are arguments.
\<close>

section \<open>Health endpoint\<close>

record response =
  rsStatus :: int
  rsType :: string
  rsNoStore :: bool
  rsBody :: string

definition newline :: char where
  "newline = char_of (10::nat)"

text \<open>\<open>healthy\<close> is the function given to \<open>New\<close>, which may be nil, with its answer.\<close>

definition handleHealth :: "bool option \<Rightarrow> response" where
  "handleHealth healthy =
     (if healthy = None \<or> healthy = Some False
      then \<lparr>rsStatus = 503, rsType = ''text/plain; charset=utf-8'', rsNoStore = True, rsBody = ''unavailable'' @ [newline]\<rparr>
      else \<lparr>rsStatus = 200, rsType = ''text/plain; charset=utf-8'', rsNoStore = True, rsBody = ''ok'' @ [newline]\<rparr>)"

definition isLoopback :: "string \<Rightarrow> bool" where
  "isLoopback remoteAddr =
     (let host = (case SplitHostPort remoteAddr of Some (h, p) \<Rightarrow> h | None \<Rightarrow> remoteAddr) in
      case ParseIP host of None \<Rightarrow> False | Some ip \<Rightarrow> IsLoopback ip)"

datatype page = PprofIndex | PprofCmdline | PprofProfile | PprofSymbol | PprofTrace

datatype answer = Health response | Forbidden | Page page | NotFound | Redirect string

definition loopbackOnly :: "page \<Rightarrow> string \<Rightarrow> answer" where
  "loopbackOnly next remoteAddr = (if \<not> isLoopback remoteAddr then Forbidden else Page next)"

text \<open>
  What the mux of \<open>net/http\<close> does with the path of a request (as it is escaped in the URL). \<open>path.Clean\<close> of
  a rooted path drops empty elements and dots, and an element before two dots; \<open>cleanPath\<close> keeps a
  slash at the end. The elements are compared unescaped.
\<close>

definition clean_step :: "string list \<Rightarrow> string \<Rightarrow> string list" where
  "clean_step st seg = (if seg = [] \<or> seg = ''.'' then st else if seg = ''..'' then drop 1 st else seg # st)"

definition path_Clean :: "string \<Rightarrow> string" where
  "path_Clean p = CHR ''/'' # join_with ''/'' (rev (foldl clean_step [] (split_on CHR ''/'' p)))"

definition cleanPath :: "string \<Rightarrow> string" where
  "cleanPath p =
     (if p = [] then ''/''
      else let p1 = (if hd p = CHR ''/'' then p else CHR ''/'' # p); np = path_Clean p1 in
        if last p1 = CHR ''/'' \<and> np \<noteq> ''/'' then np @ ''/'' else np)"

fun PathUnescape :: "string \<Rightarrow> string option" where
  "PathUnescape [] = Some []"
| "PathUnescape (c # s) =
     (if c = CHR ''%''
      then (case s of
          a # b # t \<Rightarrow>
            if is_hex a \<and> is_hex b
            then map_option (\<lambda>u. char_of (16 * hex_digit_val a + hex_digit_val b) # u) (PathUnescape t)
            else None
        | _ \<Rightarrow> None)
      else map_option (\<lambda>u. c # u) (PathUnescape s))"

definition unescaped :: "string \<Rightarrow> string" where
  "unescaped s = (case PathUnescape s of None \<Rightarrow> s | Some u \<Rightarrow> u)"

definition path_segments :: "string \<Rightarrow> string list" where
  "path_segments p = map unescaped (split_on CHR ''/'' (drop 1 p))"

text \<open>
  The patterns that \<open>registerPprof\<close> mounts: four paths, and the subtree of the pattern that ends in a slash,
  which takes what is left below the prefix.
\<close>

definition pprof_page :: "string list \<Rightarrow> page option" where
  "pprof_page segs =
     (if segs = [''debug'', ''pprof'', ''cmdline''] then Some PprofCmdline
      else if segs = [''debug'', ''pprof'', ''profile''] then Some PprofProfile
      else if segs = [''debug'', ''pprof'', ''symbol''] then Some PprofSymbol
      else if segs = [''debug'', ''pprof'', ''trace''] then Some PprofTrace
      else if take 2 segs = [''debug'', ''pprof''] \<and> length segs > 2 then Some PprofIndex
      else None)"

text \<open>
  \<open>Handler\<close>: the mux redirects the path of the subtree without its slash, and, but for \<open>CONNECT\<close>, every
  path that is not clean; other requests go to the handler of their pattern.
\<close>

definition Handler :: "bool option \<Rightarrow> bool \<Rightarrow> string \<Rightarrow> string \<Rightarrow> answer" where
  "Handler healthy connect path remoteAddr =
     (let p = (if connect then path else cleanPath path); segs = path_segments p in
      if segs = [''debug'', ''pprof''] then Redirect (cleanPath (unescaped path) @ ''/'')
      else if p \<noteq> path then Redirect p
      else if segs = [''health''] then Health (handleHealth healthy)
      else case pprof_page segs of
        Some page \<Rightarrow> loopbackOnly page remoteAddr
      | None \<Rightarrow> NotFound)"

definition unixAddr :: "string \<Rightarrow> (string \<times> string) option" where
  "unixAddr addr =
     (if has_prefix addr ''unix:'' then Some (''unix'', drop 5 addr)
      else if has_prefix addr ''/'' then Some (''unix'', addr)
      else None)"

text \<open>\<open>removeErr\<close>: the error of removing the socket file, unless it did not exist.\<close>

definition listen_addr :: "(string \<Rightarrow> string option) \<Rightarrow> string \<Rightarrow> string + (string \<times> string)" where
  "listen_addr removeErr addr = (case unixAddr addr of
     Some (network, path) \<Rightarrow> (case removeErr path of Some e \<Rightarrow> Inl e | None \<Rightarrow> Inr (network, path))
   | None \<Rightarrow> Inr (''tcp'', addr))"

section \<open>Resolver\<close>

definition publicDNS :: "string list" where
  "publicDNS = [''8.8.8.8:53'', ''1.1.1.1:53'']"

definition isDefaultFallback :: "string \<Rightarrow> bool" where
  "isDefaultFallback address = (case SplitHostPort address of
     None \<Rightarrow> False
   | Some (host, port) \<Rightarrow> host = ''127.0.0.1'' \<or> has_prefix host ''[::1]'' \<or> host = ''::1'')"

text \<open>\<open>dial\<close> tells which dials succeed. The result: the network and address connected to.\<close>

fun dial_first :: "(string \<Rightarrow> string \<Rightarrow> bool) \<Rightarrow> string list \<Rightarrow> (string \<times> string) option" where
  "dial_first dial [] = None"
| "dial_first dial (dns # others) = (if dial ''udp'' dns then Some (''udp'', dns) else dial_first dial others)"

definition resolverDial :: "(string \<Rightarrow> string \<Rightarrow> bool) \<Rightarrow> string \<Rightarrow> string \<Rightarrow> (string \<times> string) option" where
  "resolverDial dial network address =
     (if \<not> isDefaultFallback address \<and> dial network address then Some (network, address)
      else dial_first dial publicDNS)"

section \<open>Service notifications\<close>

definition WatchdogInterval :: "string \<Rightarrow> time" where
  "WatchdogInterval val =
     (if val = [] then 0
      else case ParseInt val of
        None \<Rightarrow> 0
      | Some usec \<Rightarrow> sint (of_int (usec * Microsecond) :: 64 word))"

text \<open>Go's division truncates towards zero.\<close>

definition half :: "time \<Rightarrow> time" where
  "half d = (if d \<ge> 0 then d div 2 else - ((- d) div 2))"

datatype watchdog = NoWatchdog | WatchdogPanics | WatchdogEvery time

definition RunWatchdog_start :: "string \<Rightarrow> watchdog" where
  "RunWatchdog_start val =
     (let interval = WatchdogInterval val in
      if interval = 0 then NoWatchdog
      else if half interval \<le> 0 then WatchdogPanics
      else WatchdogEvery (half interval))"

text \<open>The notifications of a sequence of ticks, given the health at each.\<close>

fun watchdog_ticks :: "bool list \<Rightarrow> string list" where
  "watchdog_ticks [] = []"
| "watchdog_ticks (healthy # hs) = (if healthy then ''WATCHDOG=1'' # watchdog_ticks hs else watchdog_ticks hs)"

text \<open>\<open>notify\<close>: nothing without a socket; otherwise the datagram or an error.\<close>

definition notify :: "string \<Rightarrow> (string \<Rightarrow> string option) \<Rightarrow> string \<Rightarrow> (string \<times> string) list \<times> string option" where
  "notify socket dialErr state =
     (if socket = [] then ([], None)
      else case dialErr socket of
        Some e \<Rightarrow> ([], Some e)
      | None \<Rightarrow> ([(socket, state)], None))"

definition Ready :: string where "Ready = ''READY=1''"
definition Stopping :: string where "Stopping = ''STOPPING=1''"

section \<open>Properties\<close>

text \<open>Profiling pages are served to loopback addresses only; health to everyone.\<close>

lemma pprof_page_prefix: "pprof_page segs \<noteq> None \<longleftrightarrow> take 2 segs = [''debug'', ''pprof''] \<and> length segs > 2"
  by (simp add: pprof_page_def)

lemma Handler_page:
  assumes "Handler healthy connect path remoteAddr = Page p"
  shows "isLoopback remoteAddr \<and> take 2 (path_segments path) = [''debug'', ''pprof''] \<and> (connect \<or> cleanPath path = path)"
  using assms pprof_page_prefix [of "path_segments path"]
  by (auto simp: Handler_def Let_def loopbackOnly_def simp del: split: if_splits option.splits)

lemma Handler_forbidden:
  assumes "take 2 (path_segments path) = [''debug'', ''pprof'']" and "length (path_segments path) > 2"
    and "connect \<or> cleanPath path = path" and "\<not> isLoopback remoteAddr"
  shows "Handler healthy connect path remoteAddr = Forbidden"
proof -
  let ?segs = "path_segments path"
  obtain q where q: "pprof_page ?segs = Some q" using assms(1,2) pprof_page_prefix [of ?segs] by blast
  have "?segs \<noteq> [''debug'', ''pprof'']" "?segs \<noteq> [''health'']" using assms(2) by auto
  with q assms(3,4) show ?thesis by (auto simp: Handler_def Let_def loopbackOnly_def)
qed

lemma Handler_redirect:
  "\<not> connect \<Longrightarrow> cleanPath path \<noteq> path \<Longrightarrow> \<exists>q. Handler healthy connect path remoteAddr = Redirect q"
  by (auto simp: Handler_def Let_def)

lemma handleHealth_status: "rsStatus (handleHealth healthy) = (if healthy = Some True then 200 else 503)"
  by (cases healthy) (auto simp: handleHealth_def)

lemma resolverDial_result:
  assumes "resolverDial dial network address = Some (n, a)"
  shows "dial n a" and "(n, a) = (network, address) \<or> n = ''udp'' \<and> a \<in> set publicDNS"
    and "isDefaultFallback address \<Longrightarrow> n = ''udp'' \<and> a \<in> set publicDNS"
proof -
  have df: "dial_first dial xs = Some (n, a) \<Longrightarrow> dial n a \<and> n = ''udp'' \<and> a \<in> set xs" for xs
    by (induction xs) (auto split: if_splits)
  show "dial n a" and "(n, a) = (network, address) \<or> n = ''udp'' \<and> a \<in> set publicDNS"
    and "isDefaultFallback address \<Longrightarrow> n = ''udp'' \<and> a \<in> set publicDNS"
    using assms df [of publicDNS] by (auto simp: resolverDial_def split: if_splits)
qed

text \<open>
  Who counts as local. The address of a TCP peer is what \<open>net.TCPAddr\<close> prints: host, zone and port. The peer
  of a unix socket has no name, or the path it is bound to.
\<close>

lemma isLoopback_peer:
  assumes "CHR ''['' \<notin> set h" and "CHR '']'' \<notin> set h"
  shows "isLoopback (JoinHostPort h (show_nat port)) = (case ParseIP h of None \<Rightarrow> False | Some ip \<Rightarrow> IsLoopback ip)"
  using SplitHostPort_Join [OF assms, of "show_nat port"] show_nat_chars [of _ port]
  by (auto simp: isLoopback_def is_digit_def)

lemma isLoopback_ip:
  assumes "length ip = 16"
  shows "isLoopback (JoinHostPort (IP_String ip) (show_nat port)) \<longleftrightarrow>
    ip = replicate 15 0 @ [1] \<or> (\<exists>b c d. ip = v4_in_6 [127, b, c, d])"
  using isLoopback_peer [of "IP_String ip" port] IP_String_chars [of _ ip] ParseIP_String [OF assms] IsLoopback_16 [OF assms]
  by auto

lemma isLoopback_zone:
  assumes "CHR ''['' \<notin> set zone" and "CHR '']'' \<notin> set zone"
  shows "\<not> isLoopback (JoinHostPort (IP_String ip @ CHR ''%'' # zone) (show_nat port))"
  using isLoopback_peer [of "IP_String ip @ CHR ''%'' # zone" port] IP_String_chars [of _ ip] assms
    ParseIP_zone [of "IP_String ip @ CHR ''%'' # zone"]
  by auto

lemma isLoopback_unix: "\<not> isLoopback ''@''" "\<not> isLoopback []"
  by (simp_all add: isLoopback_def SplitHostPort_def last_index_def ParseIP_def)

lemma isLoopback_path: "\<not> isLoopback (CHR ''/'' # t)"
proof (cases "SplitHostPort (CHR ''/'' # t)")
  case None
  then show ?thesis by (simp add: isLoopback_def ParseIP_path)
next
  case (Some hp)
  obtain h p where hp: "hp = (h, p)" by (cases hp)
  have "\<not> has_prefix (CHR ''/'' # t) ''[''" by (simp add: has_prefix_def)
  then obtain n where "h = take n (CHR ''/'' # t)"
    using Some hp by (auto simp: SplitHostPort_def Let_def split: if_splits)
  then have "h = [] \<or> (\<exists>t'. h = CHR ''/'' # t')" by (cases n) auto
  moreover have "ParseIP [] = None" by (simp add: ParseIP_def)
  ultimately show ?thesis using ParseIP_path by (auto simp: isLoopback_def Some hp)
qed

section \<open>Main properties\<close>

text \<open>C40. Profiling pages go to loopback peers only: a path below the profiling prefix is forbidden to every other peer, a path that is not clean is redirected first, and no other path gives anybody a profiling page. A TCP peer is a loopback peer exactly if its address, as Go prints it, is ::1 or in 127.0.0.0/8, and has no zone; a peer on a unix socket that is not named, or named by an absolute path, is none.\<close>

theorem pprof_loopback:
  "(Handler healthy connect path remoteAddr = Page p \<longrightarrow>
      isLoopback remoteAddr \<and> take 2 (path_segments path) = [''debug'', ''pprof''] \<and> (connect \<or> cleanPath path = path))
   \<and> (take 2 (path_segments path) = [''debug'', ''pprof''] \<and> length (path_segments path) > 2
        \<and> (connect \<or> cleanPath path = path) \<and> \<not> isLoopback remoteAddr \<longrightarrow>
      Handler healthy connect path remoteAddr = Forbidden)
   \<and> (\<not> connect \<and> cleanPath path \<noteq> path \<longrightarrow> (\<exists>q. Handler healthy connect path remoteAddr = Redirect q))
   \<and> (length ip = 16 \<longrightarrow> (isLoopback (JoinHostPort (IP_String ip) (show_nat port)) \<longleftrightarrow>
        ip = replicate 15 0 @ [1] \<or> (\<exists>b c d. ip = v4_in_6 [127, b, c, d])))
   \<and> (CHR ''['' \<notin> set zone \<and> CHR '']'' \<notin> set zone \<longrightarrow>
        \<not> isLoopback (JoinHostPort (IP_String ip @ CHR ''%'' # zone) (show_nat port)))
   \<and> \<not> isLoopback ''@'' \<and> \<not> isLoopback [] \<and> \<not> isLoopback (CHR ''/'' # t)"
  using Handler_page [of healthy connect path remoteAddr p] Handler_forbidden [of path connect remoteAddr healthy]
    Handler_redirect [of connect path healthy remoteAddr] isLoopback_ip [of ip port] isLoopback_zone [of zone ip port]
    isLoopback_unix isLoopback_path [of t]
  by blast

theorem pprof_loopback_witness:
  "Handler None False ''/debug/pprof/heap'' (JoinHostPort (IP_String (replicate 16 0)) (show_nat 5000)) = Forbidden
   \<and> isLoopback (JoinHostPort (IP_String (replicate 15 0 @ [1])) (show_nat 80))"
proof -
  have a: "path_segments ''/debug/pprof/heap'' = [''debug'', ''pprof'', ''heap'']"
    by (simp add: path_segments_def unescaped_def)
  have c: "cleanPath ''/debug/pprof/heap'' = ''/debug/pprof/heap''"
    by (simp add: cleanPath_def path_Clean_def clean_step_def)
  have "replicate 16 (0 :: byte) \<noteq> replicate 15 0 @ [1]"
  proof
    assume "replicate 16 (0 :: byte) = replicate 15 0 @ [1]"
    then have "last (replicate 16 (0 :: byte)) = last (replicate 15 0 @ [1])" by (rule arg_cong)
    then show False by simp
  qed
  moreover have "replicate 16 (0 :: byte) \<noteq> v4_in_6 v" for v
  proof
    assume "replicate 16 (0 :: byte) = v4_in_6 v"
    then have "replicate 16 (0 :: byte) ! 10 = v4_in_6 v ! 10" by (rule arg_cong)
    then show False by (simp add: v4_in_6_def nth_append)
  qed
  ultimately have z: "replicate 16 (0 :: byte) \<noteq> replicate 15 0 @ [1]" "replicate 16 (0 :: byte) \<noteq> v4_in_6 v" for v by blast+
  have "\<not> isLoopback (JoinHostPort (IP_String (replicate 16 0)) (show_nat 5000))"
    using pprof_loopback [where ip = "replicate 16 0" and port = 5000] z by simp
  moreover have "isLoopback (JoinHostPort (IP_String (replicate 15 0 @ [1])) (show_nat 80))"
    using pprof_loopback [where ip = "replicate 15 0 @ [1]" and port = 80] by simp
  ultimately show ?thesis
    using pprof_loopback [where path = "''/debug/pprof/heap''" and connect = False and healthy = None] a c by simp
qed

end
