(* ===== verification/Lifecycle.thy ===== *)
theory Lifecycle
  imports Gateway Status Service
begin

text \<open>
  How the parts start and stop: \<open>Run\<close> of the device (\<open>internal/device/device.go\<close>), of the gateway
  (\<open>internal/gateway/gateway.go\<close>) and of the health server (\<open>internal/health/health.go\<close>), and
  \<open>RunStatus\<close> (\<open>internal/client/status.go\<close>) as a whole. A run is the list of what it does, and its
  error; the transport's and the system's answers are arguments.
\<close>

section \<open>The device\<close>

datatype device_action = Subscribes subscription | StartsStaleCleanup time | Notifies string
  | StartsWatchdog | StartsReporter | ClosesSessions | Unsubscribes "string list"

definition reporter_Subscribe :: "subscriber \<Rightarrow> Reporter \<Rightarrow> subscription \<times> string option" where
  "reporter_Subscribe sb r = (Filter (getAcceptedTopic r), sbSubscribe sb (getAcceptedTopic r))"

definition device_subscriptions :: "subscriber \<Rightarrow> device \<Rightarrow> (subscription \<times> string option) list" where
  "device_subscriptions sb d =
     [(Filter (InControlFilter (dvID d)), wrap ''subscribe control'' (sbSubscribe sb (InControlFilter (dvID d)))),
      (Filter (InDataFilter (dvID d)), wrap ''subscribe data'' (sbSubscribe sb (InDataFilter (dvID d)))),
      (Filter SharedPingTopic, wrap ''subscribe shared ping'' (sbSubscribe sb SharedPingTopic))]
     @ (case dvReporter d of
          None \<Rightarrow> []
        | Some r \<Rightarrow> [apsnd (wrap ''subscribe shadow'') (reporter_Subscribe sb r)])
     @ [(AllFilters, wrap ''subscribe all'' (sbSubscribeAll sb))]"

text \<open>Up to the wait for the end of the context, and from there on.\<close>

definition device_Run_start :: "subscriber \<Rightarrow> device \<Rightarrow> device_action list \<times> string option" where
  "device_Run_start sb d = (case attempts (device_subscriptions sb d) of
     (subs, Some e) \<Rightarrow> (map Subscribes subs, Some e)
   | (subs, None) \<Rightarrow>
       (map Subscribes subs @ [StartsStaleCleanup (StaleTimeout * Second), Notifies Ready, StartsWatchdog]
        @ (if dvReporter d \<noteq> None then [StartsReporter] else []), None))"

definition device_Run_stop :: "(string \<times> nat) list \<Rightarrow> device \<Rightarrow> device_action list \<times> device" where
  "device_Run_stop order d =
     ([Notifies Stopping, ClosesSessions, Unsubscribes [InControlFilter (dvID d), InDataFilter (dvID d)]],
      CloseAll order d)"

lemma device_Run_ready:
  "snd (device_Run_start sb d) = None \<longleftrightarrow> (\<forall>c \<in> set (device_subscriptions sb d). snd c = None)"
  "Notifies Ready \<in> set (fst (device_Run_start sb d)) \<longleftrightarrow> snd (device_Run_start sb d) = None"
  using attempts_iff [of "device_subscriptions sb d"]
  by (auto simp: device_Run_start_def split: prod.splits option.splits)

text \<open>
  The event handler the device command installs: the device may not exist yet when an event comes.
\<close>

definition device_on_event :: "(string \<times> nat) list \<Rightarrow> mqtt_event \<Rightarrow> device option \<Rightarrow> device option" where
  "device_on_event order ev dev = (case dev of
     None \<Rightarrow> None
   | Some d \<Rightarrow> Some (foldl (\<lambda>d cb. case cb of CallLost \<Rightarrow> CloseAll order d | CallConnected \<Rightarrow> device_ReportNow d)
       d (newEventHandler True True ev)))"

definition client_on_event :: "(string \<times> nat) list \<Rightarrow> mqtt_event \<Rightarrow> client option \<Rightarrow> client option" where
  "client_on_event order ev c = (case c of
     None \<Rightarrow> None
   | Some c \<Rightarrow> Some (foldl (\<lambda>c cb. case cb of CallLost \<Rightarrow> CloseAll order c | CallConnected \<Rightarrow> c)
       c (newEventHandler True False ev)))"

section \<open>The gateway\<close>






section \<open>The status command\<close>

text \<open>
  Once around: the subscriptions, the ping, what arrives until the context or the timeout ends the
  wait, and the table, walked in an order that Go leaves open.
\<close>

definition RunStatus :: "subscriber \<Rightarrow> (PubMessage \<Rightarrow> string option) \<Rightarrow> string \<Rightarrow> time \<Rightarrow> reply list
    \<Rightarrow> (status_table \<Rightarrow> deviceStatus list)
    \<Rightarrow> PubMessage list \<times> (string + ((string \<times> string \<times> time) list \<times> string option))" where
  "RunStatus sb publish pingID sentAt replies walk =
     (case attempts [(Filter AllOutControlFilter, wrap ''subscribe control'' (sbSubscribe sb AllOutControlFilter)),
                     (AllFilters, wrap ''subscribe all'' (sbSubscribeAll sb))] of
        (subs, Some e) \<Rightarrow> ([], Inl e)
      | (subs, None) \<Rightarrow>
          (let ping = status_ping pingID sentAt in
           case wrap ''publish status ping'' (publish ping) of
             Some e \<Rightarrow> ([ping], Inl e)
           | None \<Rightarrow>
               (let order = walk (status_collect pingID sentAt replies)
                in ([ping], Inr (status_rows order, status_empty_note order)))))"

section \<open>The health server\<close>

record server_timeouts =
  stRead :: time
  stWrite :: time
  stIdle :: time
  stShutdown :: time

definition health_timeouts :: server_timeouts where
  "health_timeouts = \<lparr>stRead = 5 * Second, stWrite = 120 * Second, stIdle = 30 * Second, stShutdown = 2 * Second\<rparr>"

text \<open>
  What ends the server first: the context, with the result of the graceful shutdown, or \<open>Serve\<close>,
  with its error unless it is that of a closed server.
\<close>

datatype health_end = HealthCancelled "string option" | ServeReturns "string option"

datatype health_action = Serves string string | ShutsDown | ClosesServer

definition health_Run :: "(string \<Rightarrow> string option) \<Rightarrow> (string \<Rightarrow> string \<Rightarrow> string option) \<Rightarrow> string \<Rightarrow> health_end
    \<Rightarrow> health_action list \<times> string option" where
  "health_Run removeErr listenErr addr ends =
     (case listen_addr removeErr addr of
        Inl e \<Rightarrow> ([], Some e)
      | Inr (network, path) \<Rightarrow> (case listenErr network path of
          Some e \<Rightarrow> ([], Some e)
        | None \<Rightarrow> (case ends of
            HealthCancelled err \<Rightarrow>
              (Serves network path # ShutsDown # (if err = None then [] else [ClosesServer]), None)
          | ServeReturns err \<Rightarrow> ([Serves network path], err))))"

section \<open>Properties\<close>















text \<open>A lost connection closes every session of a device, and a new one asks for a report.\<close>

lemma device_on_event_lost:
  "device_on_event order ConnectionLost (Some d) = Some (CloseAll order d)"
  "device_on_event order Connected (Some d) = Some (device_ReportNow d)"
  by (simp_all add: device_on_event_def newEventHandler_def)

section \<open>Main properties\<close>





end
