(* ===== verification/Forward.thy ===== *)
theory Forward
  imports GoStd
begin

text \<open>
  \<open>internal/forward/forward.go\<close>: parsing of \<open>[bind_address:]port:host:hostport\<close>. The errors keep
  what the code puts into their texts.
\<close>

record Spec =
  spListen :: string
  spTarget :: string

datatype port_error = PortEmpty | PortNotNumber string | PortRange int int | ExpectedHostPort

datatype host_error = UnmatchedBracket string | HostEmpty | UnexpectedBracket string | MalformedBracket string

datatype forward_error =
    TargetPort port_error | TargetHost host_error | ExpectedForward
  | LocalPort port_error | BindAddress host_error

datatype forwards_error = NoForwards | InvalidForward string forward_error | DuplicateListen string

section \<open>Operations\<close>

definition defaultBindAddr :: string where
  "defaultBindAddr = ''localhost''"

definition validatePort :: "string \<Rightarrow> bool \<Rightarrow> port_error option" where
  "validatePort p allowZero =
     (if p = [] then Some PortEmpty
      else case Atoi p of
        None \<Rightarrow> Some (PortNotNumber p)
      | Some n \<Rightarrow>
          (let lowest = (if allowZero then 0 else 1) in
           if n < lowest \<or> n > 65535 then Some (PortRange n lowest) else None))"

definition splitPort :: "string \<Rightarrow> bool \<Rightarrow> port_error + (string \<times> string)" where
  "splitPort s allowZero =
     (let idx = last_index CHR '':'' s in
      if idx < 0 then Inl ExpectedHostPort
      else let port = drop (nat (idx + 1)) s in
        case validatePort port allowZero of
          Some e \<Rightarrow> Inl e
        | None \<Rightarrow> Inr (take (nat idx) s, port))"

definition splitHost :: "string \<Rightarrow> host_error + (string \<times> string)" where
  "splitHost s =
     (if has_suffix s '']'' then
        (let open = last_index CHR ''['' s in
         if open < 0 then Inl (UnmatchedBracket s)
         else let host = drop (nat (open + 1)) (take (length s - 1) s) in
           if host = [] then Inl HostEmpty else Inr (take (nat open) s, host))
      else
        (let idx = last_index CHR '':'' s;
             host = drop (nat (idx + 1)) s in
         if host = [] then Inl HostEmpty
         else if CHR '']'' \<in> set host then Inl (UnexpectedBracket host)
         else Inr (take (nat (idx + 1)) s, host)))"

definition normalizeHost :: "string \<Rightarrow> host_error + string" where
  "normalizeHost s =
     (if s = [] then Inr []
      else if has_prefix s ''['' \<and> has_suffix s '']'' then
        (let host = drop 1 (take (length s - 1) s) in
         if host = [] then Inl HostEmpty else Inr host)
      else if CHR ''['' \<in> set s \<or> CHR '']'' \<in> set s then Inl (MalformedBracket s)
      else Inr s)"

definition splitTarget :: "string \<Rightarrow> forward_error + (string \<times> string)" where
  "splitTarget s =
     (case splitPort s False of
        Inl e \<Rightarrow> Inl (TargetPort e)
      | Inr (prefix, port) \<Rightarrow>
          (case splitHost prefix of
             Inl e \<Rightarrow> Inl (TargetHost e)
           | Inr (rest, host) \<Rightarrow>
               if rest = [] then Inl ExpectedForward
               else Inr (trim_suffix rest '':'', JoinHostPort host port)))"

definition splitListen :: "string \<Rightarrow> forward_error + string" where
  "splitListen prefix =
     (if CHR '':'' \<notin> set prefix then
        (case validatePort prefix True of
           Some e \<Rightarrow> Inl (LocalPort e)
         | None \<Rightarrow> Inr (JoinHostPort defaultBindAddr prefix))
      else
        (case splitPort prefix True of
           Inl e \<Rightarrow> Inl (LocalPort e)
         | Inr (rest, port) \<Rightarrow>
             (case normalizeHost rest of
                Inl e \<Rightarrow> Inl (BindAddress e)
              | Inr bindAddr \<Rightarrow>
                  Inr (JoinHostPort (if bindAddr = [] then defaultBindAddr else bindAddr) port))))"

definition Parse :: "string \<Rightarrow> forward_error + Spec" where
  "Parse s =
     (case splitTarget s of
        Inl e \<Rightarrow> Inl e
      | Inr (rest, hostPort) \<Rightarrow>
          (case splitListen rest of
             Inl e \<Rightarrow> Inl e
           | Inr listen \<Rightarrow> Inr \<lparr>spListen = listen, spTarget = hostPort\<rparr>))"

fun parse_each :: "string list \<Rightarrow> string set \<Rightarrow> forwards_error + Spec list" where
  "parse_each [] seen = Inr []"
| "parse_each (raw # specs) seen =
     (case Parse raw of
        Inl e \<Rightarrow> Inl (InvalidForward raw e)
      | Inr spec \<Rightarrow>
          if spListen spec \<in> seen then Inl (DuplicateListen (spListen spec))
          else (case parse_each specs (insert (spListen spec) seen) of
              Inl e \<Rightarrow> Inl e
            | Inr result \<Rightarrow> Inr (spec # result)))"

definition ParseAll :: "string list \<Rightarrow> forwards_error + Spec list" where
  "ParseAll specs = (if specs = [] then Inl NoForwards else parse_each specs {})"

section \<open>Ports and hosts\<close>

definition port_ok :: "bool \<Rightarrow> string \<Rightarrow> bool" where
  "port_ok allowZero p \<longleftrightarrow> validatePort p allowZero = None"

lemma port_okD:
  "port_ok z p \<Longrightarrow> p \<noteq> [] \<and> (\<exists>n. Atoi p = Some n \<and> (if z then 0 else 1) \<le> n \<and> n \<le> 65535)"
  by (auto simp: port_ok_def validatePort_def Let_def split: option.splits if_splits)

text \<open>A port has no colon, because a number has none.\<close>

lemma nat_int_1 [simp]: "nat (int n + 1) = Suc n" "nat (1 + int n) = Suc n" "nat (2 + int n) = Suc (Suc n)"
  by linarith+

lemma splitPort_ok:
  assumes "port_ok z p" and "CHR '':'' \<notin> set p"
  shows "splitPort (s @ CHR '':'' # p) z = Inr (s, p)"
  using assms by (simp add: splitPort_def last_index_append Let_def port_ok_def)

text \<open>
  How a host is written in a specification: plain, or in brackets when it is an IPv6 literal.
\<close>

definition host_text :: "string \<Rightarrow> string" where
  "host_text h = (if CHR '':'' \<in> set h then ''['' @ h @ '']'' else h)"

definition host_ok :: "string \<Rightarrow> bool" where
  "host_ok h \<longleftrightarrow> h \<noteq> [] \<and> CHR ''['' \<notin> set h \<and> CHR '']'' \<notin> set h"

lemma host_okD: "host_ok h \<Longrightarrow> h \<noteq> []" "host_ok h \<Longrightarrow> CHR ''['' \<notin> set h" "host_ok h \<Longrightarrow> CHR '']'' \<notin> set h"
  by (simp_all add: host_ok_def)

lemma last_bracket: "host_ok h \<Longrightarrow> last_index CHR ''['' (pre @ ''['' @ h @ '']'') = int (length pre)"
  using last_index_append [of "CHR ''[''" "h @ '']''" pre] by (simp add: host_ok_def)

lemma splitHost_ok:
  assumes "host_ok h"
  shows "splitHost (pre @ '':'' @ host_text h) = Inr (pre @ '':'', h)"
proof (cases "CHR '':'' \<in> set h")
  case True
  let ?s = "pre @ '':['' @ h @ '']''"
  have s: "pre @ '':'' @ host_text h = ?s" using True by (simp add: host_text_def)
  have suf: "has_suffix ?s '']''" using has_suffix_snoc [of "pre @ '':['' @ h" "CHR '']''"] by simp
  have i: "last_index CHR ''['' ?s = int (length pre + 1)"
    using last_bracket [OF assms, of "pre @ '':''"] by simp
  show ?thesis
    unfolding s splitHost_def Let_def i using suf host_okD [OF assms] by simp
next
  case False
  let ?s = "pre @ CHR '':'' # h"
  have s: "pre @ '':'' @ host_text h = ?s" using False by (simp add: host_text_def)
  have suf: "\<not> has_suffix ?s '']''"
  proof -
    have "last h \<in> set h" using host_okD(1) [OF assms] by simp
    then have "last h \<noteq> CHR '']''" using host_okD(3) [OF assms] by metis
    then show ?thesis using host_okD(1) [OF assms] by (simp add: has_suffix_single)
  qed
  show ?thesis
    unfolding s splitHost_def Let_def last_index_append [OF False]
    using suf host_okD [OF assms] by simp
qed

lemma normalizeHost_ok: "host_ok h \<Longrightarrow> normalizeHost (host_text h) = Inr h"
  using has_suffix_snoc [of "CHR ''['' # h" "CHR '']''"]
  by (cases h) (auto simp: normalizeHost_def host_text_def host_ok_def has_prefix_single Let_def)

section \<open>What is parsed\<close>

text \<open>
  A specification as a user writes it: the optional bind address, the local port, the target.
\<close>

definition spec_text :: "string option \<Rightarrow> string \<Rightarrow> string \<Rightarrow> string \<Rightarrow> string" where
  "spec_text bind lport host port =
     (case bind of None \<Rightarrow> [] | Some b \<Rightarrow> host_text b @ '':'') @ lport @ '':'' @ host_text host @ '':'' @ port"

definition plain_port :: "bool \<Rightarrow> string \<Rightarrow> bool" where
  "plain_port z p \<longleftrightarrow> port_ok z p \<and> CHR '':'' \<notin> set p"

lemma splitListen_ok:
  assumes "plain_port True lport" and "\<And>b. bind = Some b \<Longrightarrow> host_ok b"
  shows "splitListen ((case bind of None \<Rightarrow> [] | Some b \<Rightarrow> host_text b @ '':'') @ lport)
      = Inr (JoinHostPort (case bind of None \<Rightarrow> defaultBindAddr | Some b \<Rightarrow> b) lport)"
proof (cases bind)
  case None
  then show ?thesis using assms(1) by (simp add: splitListen_def plain_port_def port_ok_def)
next
  case (Some b)
  then have b: "host_ok b" using assms(2) by simp
  have "splitPort (host_text b @ CHR '':'' # lport) True = Inr (host_text b, lport)"
    using assms(1) splitPort_ok unfolding plain_port_def by blast
  then show ?thesis
    using Some normalizeHost_ok [OF b] host_okD(1) [OF b] by (simp add: splitListen_def)
qed

lemma Parse_ok:
  assumes "plain_port True lport" and "plain_port False port" and "host_ok host"
    and "\<And>b. bind = Some b \<Longrightarrow> host_ok b"
  shows "Parse (spec_text bind lport host port)
      = Inr \<lparr>spListen = JoinHostPort (case bind of None \<Rightarrow> defaultBindAddr | Some b \<Rightarrow> b) lport,
             spTarget = JoinHostPort host port\<rparr>"
proof -
  let ?l = "(case bind of None \<Rightarrow> [] | Some b \<Rightarrow> host_text b @ '':'') @ lport"
  have "spec_text bind lport host port = (?l @ '':'' @ host_text host) @ CHR '':'' # port"
    by (simp add: spec_text_def)
  then have "splitPort (spec_text bind lport host port) False = Inr (?l @ '':'' @ host_text host, port)"
    using splitPort_ok assms(2) unfolding plain_port_def by metis
  then have "splitTarget (spec_text bind lport host port) = Inr (?l, JoinHostPort host port)"
    using splitHost_ok [OF assms(3), of ?l] trim_suffix_snoc [of ?l "CHR '':''"]
    by (simp add: splitTarget_def)
  then show ?thesis
    using splitListen_ok [OF assms(1,4)] by (simp add: Parse_def)
qed

text \<open>Whatever is accepted has a numeric target port in range and a target host that is not empty.\<close>

lemma splitPort_inv:
  assumes "splitPort s z = Inr (rest, port)"
  shows "s = rest @ CHR '':'' # port \<and> CHR '':'' \<notin> set port \<and> port_ok z port"
proof -
  have c: "CHR '':'' \<in> set s" and v: "validatePort port z = None"
    using assms by (auto simp: splitPort_def Let_def split: if_splits option.splits)
  obtain a b where ab: "s = a @ CHR '':'' # b" "CHR '':'' \<notin> set b" "last_index CHR '':'' s = int (length a)"
    using last_index_split [OF c] by blast
  then have "rest = a" "port = b"
    using assms by (auto simp: splitPort_def Let_def split: option.splits)
  with ab v show ?thesis by (simp add: port_ok_def)
qed

lemma splitHost_nonempty: "splitHost s = Inr (rest, host) \<Longrightarrow> host \<noteq> []"
  by (auto simp: splitHost_def Let_def split: if_splits)

lemma splitTarget_inv:
  assumes "splitTarget s = Inr (rest, t)"
  shows "\<exists>host port. t = JoinHostPort host port \<and> host \<noteq> [] \<and> plain_port False port"
proof -
  obtain prefix port where p: "splitPort s False = Inr (prefix, port)"
    using assms by (auto simp: splitTarget_def split: sum.splits)
  obtain r host where h: "splitHost prefix = Inr (r, host)" "t = JoinHostPort host port"
    using assms p by (auto simp: splitTarget_def split: sum.splits if_splits)
  show ?thesis
    using splitPort_inv [OF p] splitHost_nonempty [OF h(1)] h(2) by (auto simp: plain_port_def)
qed

lemma splitListen_inv:
  assumes "splitListen s = Inr l"
  shows "\<exists>host port. l = JoinHostPort host port \<and> host \<noteq> [] \<and> plain_port True port"
proof (cases "CHR '':'' \<in> set s")
  case False
  then show ?thesis
    using assms by (intro exI [of _ defaultBindAddr] exI [of _ s])
      (auto simp: splitListen_def plain_port_def port_ok_def defaultBindAddr_def split: option.splits)
next
  case True
  obtain rest port where p: "splitPort s True = Inr (rest, port)"
    using assms True by (auto simp: splitListen_def split: sum.splits)
  obtain b where "l = JoinHostPort (if b = [] then defaultBindAddr else b) port"
    using assms True p by (auto simp: splitListen_def split: sum.splits)
  then show ?thesis
    using splitPort_inv [OF p]
    by (intro exI [of _ "if b = [] then defaultBindAddr else b"] exI [of _ port])
       (auto simp: plain_port_def defaultBindAddr_def)
qed

lemma Parse_inv:
  assumes "Parse s = Inr spec"
  shows "\<exists>host port. spTarget spec = JoinHostPort host port \<and> host \<noteq> [] \<and> plain_port False port"
    and "\<exists>host port. spListen spec = JoinHostPort host port \<and> host \<noteq> [] \<and> plain_port True port"
  using assms splitTarget_inv splitListen_inv by (auto simp: Parse_def split: sum.splits)

text \<open>A list of specifications: all parsed, in order, with distinct listen addresses.\<close>

lemma parse_each_Inr:
  "parse_each specs seen = Inr result \<longleftrightarrow>
     map Parse specs = map Inr result \<and> distinct (map spListen result) \<and> set (map spListen result) \<inter> seen = {}"
proof (induction specs seen arbitrary: result rule: parse_each.induct)
  case (1 seen)
  then show ?case by auto
next
  case (2 raw specs seen)
  show ?case
  proof (cases "Parse raw")
    case (Inl e)
    then show ?thesis by (cases result) auto
  next
    case (Inr spec)
    show ?thesis
    proof (cases "spListen spec \<in> seen")
      case True
      with Inr show ?thesis by (cases result) auto
    next
      case False
      show ?thesis
      proof (cases result)
        case Nil
        with Inr False show ?thesis by (auto split: sum.split)
      next
        case (Cons x list)
        with "2.IH" [OF Inr False, of list] Inr False show ?thesis by (auto split: sum.split)
      qed
    qed
  qed
qed

section \<open>Main properties\<close>

lemma example_ports: "plain_port True ''0''" "plain_port False ''5432''" "plain_port True ''80''"
proof -
  have s: "show_nat 0 = ''0''" "show_nat 5432 = ''5432''" "show_nat 80 = ''80''"
    by (simp_all add: show_nat.simps digit_char_def char_of_def bit_Suc_0_iff)
  have a: "Atoi ''0'' = Some 0" "Atoi ''5432'' = Some 5432" "Atoi ''80'' = Some 80"
    using Atoi_show_nat [of 0] Atoi_show_nat [of 5432] Atoi_show_nat [of 80] unfolding s by simp_all
  show "plain_port True ''0''" "plain_port False ''5432''" "plain_port True ''80''"
    by (simp_all add: plain_port_def port_ok_def validatePort_def a)
qed

text \<open>C31. Every forward specification of the documented form, with or without a bind address and with IPv6 literals in brackets, is parsed to the listen and target addresses it names.\<close>

theorem parse_forward:
  assumes "plain_port True lport" and "plain_port False port" and "host_ok host"
    and "\<forall>b. bind = Some b \<longrightarrow> host_ok b"
  shows "Parse (spec_text bind lport host port)
      = Inr \<lparr>spListen = JoinHostPort (case bind of None \<Rightarrow> ''localhost'' | Some b \<Rightarrow> b) lport,
             spTarget = JoinHostPort host port\<rparr>"
  unfolding defaultBindAddr_def [symmetric] using assms by (intro Parse_ok) simp_all

theorem parse_forward_witness:
  "Parse (spec_text (Some ''::1'') ''0'' ''db'' ''5432'')
     = Inr \<lparr>spListen = JoinHostPort ''::1'' ''0'', spTarget = JoinHostPort ''db'' ''5432''\<rparr>"
proof -
  have p: "plain_port True ''0''" "plain_port False ''5432''" by (simp_all add: example_ports)
  have h: "host_ok ''db''" "\<forall>b. Some ''::1'' = Some b \<longrightarrow> host_ok b" by (simp_all add: host_ok_def)
  from parse_forward [OF p h] show ?thesis by (simp only: option.case)
qed

text \<open>C32. A list of forwards is accepted exactly when it has an entry, every entry parses and the listen addresses are distinct. The result is the parsed entries in order, each with hosts that are not empty and ports that are numbers in range.\<close>

theorem forwards_sound:
  "(ParseAll specs = Inr result \<longleftrightarrow> specs \<noteq> [] \<and> map Parse specs = map Inr result \<and> distinct (map spListen result))
   \<and> (ParseAll specs = Inr result \<longrightarrow> (\<forall>spec \<in> set result. \<exists>lh lp th tp.
        spListen spec = JoinHostPort lh lp \<and> lh \<noteq> [] \<and> (\<exists>n. Atoi lp = Some n \<and> 0 \<le> n \<and> n \<le> 65535)
        \<and> spTarget spec = JoinHostPort th tp \<and> th \<noteq> [] \<and> (\<exists>n. Atoi tp = Some n \<and> 1 \<le> n \<and> n \<le> 65535)))"
proof -
  have iff: "ParseAll specs = Inr result \<longleftrightarrow> specs \<noteq> [] \<and> map Parse specs = map Inr result \<and> distinct (map spListen result)"
    by (simp add: ParseAll_def parse_each_Inr)
  have "\<exists>lh lp th tp. spListen spec = JoinHostPort lh lp \<and> lh \<noteq> [] \<and> (\<exists>n. Atoi lp = Some n \<and> 0 \<le> n \<and> n \<le> 65535)
        \<and> spTarget spec = JoinHostPort th tp \<and> th \<noteq> [] \<and> (\<exists>n. Atoi tp = Some n \<and> 1 \<le> n \<and> n \<le> 65535)"
    if "ParseAll specs = Inr result" "spec \<in> set result" for spec
  proof -
    have "Inr spec \<in> set (map Parse specs)" using that iff by auto
    then obtain s where s: "Parse s = Inr spec" by auto
    obtain lh lp th tp where "spListen spec = JoinHostPort lh lp" "lh \<noteq> []" "plain_port True lp"
        "spTarget spec = JoinHostPort th tp" "th \<noteq> []" "plain_port False tp"
      using Parse_inv [OF s] by blast
    moreover from this have "\<exists>n. Atoi lp = Some n \<and> 0 \<le> n \<and> n \<le> 65535" "\<exists>n. Atoi tp = Some n \<and> 1 \<le> n \<and> n \<le> 65535"
      using port_okD [of True lp] port_okD [of False tp] by (auto simp: plain_port_def)
    ultimately show ?thesis by blast
  qed
  with iff show ?thesis by blast
qed

theorem forwards_sound_witness:
  "\<exists>result. ParseAll [spec_text None ''80'' ''db'' ''5432''] = Inr result \<and>
     (\<forall>spec \<in> set result. \<exists>lh lp. spListen spec = JoinHostPort lh lp \<and> lh \<noteq> [])"
proof -
  let ?r = "\<lparr>spListen = JoinHostPort defaultBindAddr ''80'', spTarget = JoinHostPort ''db'' ''5432''\<rparr>"
  have "Parse (spec_text None ''80'' ''db'' ''5432'') = Inr ?r"
    using Parse_ok [OF example_ports(3,2), of "''db''" None] by (simp add: host_ok_def)
  then have r: "ParseAll [spec_text None ''80'' ''db'' ''5432''] = Inr [?r]" by (simp add: ParseAll_def)
  then show ?thesis
    using forwards_sound [of "[spec_text None ''80'' ''db'' ''5432'']" "[?r]"] by blast
qed

end
