(* ===== verification/Commands.thy ===== *)
theory Commands
  imports Lifecycle Forward
begin

text \<open>
  The commands of \<open>internal/cmd/cmd.go\<close> and the exit status \<open>main.go\<close> gives the process. A command
  is run on a configuration that \<open>config.Load\<close> has filled and on the values of its flags; flag
  parsing itself is cobra's. What it does is a list of actions; the results of the long-running
  calls, and of the group of goroutines, are arguments.
\<close>

section \<open>Actions\<close>

datatype task = RunsDevice device | RunsHealth string | RunsGateway Gateway
  | RunsForwards string "TCPForward list" | RunsSOCKS5 string string | WaitsInterrupted

datatype cmd_action = SetsHandler bool bool | Connects Config | ClosesTransport
  | Starts task | RunsShell string | RunsExec string string time | RunsPing string nat time | RunsStatus

datatype cmd_error = ForwardsError forwards_error | RouteError string route_error | GatewayError gateway_error
  | OptionsError tls_error | DialError string | RunError string

datatype cmd_result = Returns "cmd_error option" | ExitsWith int

text \<open>
  The world of a process. \<open>ceGroup\<close> is what \<open>group.Wait\<close> returns for the tasks, \<open>ceRun\<close> the error of
  a call that blocks, \<open>ceExec\<close> the result of \<open>RunExec\<close>.
\<close>

record cmd_env =
  ceHostname :: "string option"
  ceExists :: "string \<Rightarrow> bool"
  ceURL :: "string \<Rightarrow> url_parts option"
  ceFiles :: tls_files
  ceDial :: "mqtt_option list \<Rightarrow> string option"
  ceVersion :: string
  ceArch :: string
  ceGroup :: "task list \<Rightarrow> string option"
  ceRun :: "cmd_action \<Rightarrow> string option"
  ceExec :: "string \<Rightarrow> time \<Rightarrow> int \<times> string option"

definition defaultConnectTransport :: "cmd_env \<Rightarrow> Config \<Rightarrow> cmd_error option" where
  "defaultConnectTransport env c = (case MQTTOptions (ceURL env) (ceFiles env) c of
     Inl e \<Rightarrow> Some (OptionsError e)
   | Inr opts \<Rightarrow> map_option DialError (ceDial env opts))"

text \<open>
  The part all commands share: the event handler, the connection, and \<open>defer transport.Close()\<close>,
  which \<open>os.Exit\<close> does not run.
\<close>

definition with_transport :: "cmd_env \<Rightarrow> bool \<Rightarrow> bool \<Rightarrow> Config \<Rightarrow> (Config \<Rightarrow> cmd_action list \<times> cmd_result)
    \<Rightarrow> cmd_action list \<times> cmd_result" where
  "with_transport env hasLost hasConnected c0 body =
     (let c = c0\<lparr>cfHasHandler := True\<rparr> in
      case defaultConnectTransport env c of
        Some e \<Rightarrow> ([SetsHandler hasLost hasConnected, Connects c], Returns (Some e))
      | None \<Rightarrow> (case body c of
          (acts, Returns r) \<Rightarrow> (SetsHandler hasLost hasConnected # Connects c # acts @ [ClosesTransport], Returns r)
        | (acts, ExitsWith code) \<Rightarrow> (SetsHandler hasLost hasConnected # Connects c # acts, ExitsWith code)))"

definition run_tasks :: "cmd_env \<Rightarrow> task list \<Rightarrow> cmd_action list \<times> cmd_result" where
  "run_tasks env tasks = (map Starts tasks, Returns (map_option RunError (ceGroup env tasks)))"

definition run_call :: "cmd_env \<Rightarrow> cmd_action \<Rightarrow> cmd_action list \<times> cmd_result" where
  "run_call env act = ([act], Returns (map_option RunError (ceRun env act)))"

definition cmd_resolveClientID :: "cmd_env \<Rightarrow> Config \<Rightarrow> Config" where
  "cmd_resolveClientID env c = c\<lparr>cfClientID := resolveClientID (ceHostname env) (cfClientID c)\<rparr>"

definition health_tasks :: "Config \<Rightarrow> task list" where
  "health_tasks c = (if cfHealthListen c \<noteq> [] then [RunsHealth (cfHealthListen c)] else [])"

section \<open>The commands\<close>

text \<open>A device is its own MQTT client: both ids are the same.\<close>

definition device_config :: "cmd_env \<Rightarrow> Config \<Rightarrow> Config" where
  "device_config env c0 =
     (case applyDeviceTLSDefaults (ceExists env) (cfTLSCert c0, cfTLSKey c0, cfTLSCA c0) of (cert, key, ca) \<Rightarrow>
        let c1 = c0\<lparr>cfTLSCert := cert, cfTLSKey := key, cfTLSCA := ca\<rparr>;
            c2 = c1\<lparr>cfDeviceID := device_identity (ceHostname env) (cfDeviceID c1)\<rparr>
        in c2\<lparr>cfClientID := cfDeviceID c2\<rparr>)"

definition make_device :: "cmd_env \<Rightarrow> Config \<Rightarrow> device" where
  "make_device env c =
     (let d = SetVersion (ceVersion env) (SetHealthCheck (New_device (cfDeviceID c) (ceArch env))) in
      if IsAWSIoT (ceURL env) c then SetAWSIoT True d else d)"

definition newDeviceCmd :: "cmd_env \<Rightarrow> Config \<Rightarrow> cmd_action list \<times> cmd_result" where
  "newDeviceCmd env c0 = with_transport env True True (device_config env c0)
     (\<lambda>c. run_tasks env ([RunsDevice (make_device env c)] @ health_tasks c @ [WaitsInterrupted]))"

definition newGatewayCmd :: "cmd_env \<Rightarrow> string list \<Rightarrow> Config \<Rightarrow> cmd_action list \<times> cmd_result" where
  "newGatewayCmd env routeFlags c0 = (case mergeGatewayRoutes (cfRoutes c0) routeFlags of
     Inl (raw, e) \<Rightarrow> ([], Returns (Some (RouteError raw e)))
   | Inr routes \<Rightarrow> with_transport env True False (cmd_resolveClientID env c0) (\<lambda>c.
       (case New_gateway routes of
          Inl e \<Rightarrow> ([], Returns (Some (GatewayError e)))
        | Inr gw \<Rightarrow> run_tasks env ([RunsGateway gw] @ health_tasks c @ [WaitsInterrupted]))))"

definition spec_forward :: "Spec \<Rightarrow> TCPForward" where
  "spec_forward s = \<lparr>tfListen = spListen s, tfTarget = spTarget s\<rparr>"

definition newClientTCPCmd :: "cmd_env \<Rightarrow> string list \<Rightarrow> string \<Rightarrow> Config \<Rightarrow> cmd_action list \<times> cmd_result" where
  "newClientTCPCmd env localForwards deviceID c0 = (case ParseAll localForwards of
     Inl e \<Rightarrow> ([], Returns (Some (ForwardsError e)))
   | Inr specs \<Rightarrow> with_transport env True False (cmd_resolveClientID env c0)
       (\<lambda>c. run_tasks env [RunsForwards deviceID (map spec_forward specs), WaitsInterrupted]))"

definition newClientSOCKS5Cmd :: "cmd_env \<Rightarrow> string \<Rightarrow> string \<Rightarrow> Config \<Rightarrow> cmd_action list \<times> cmd_result" where
  "newClientSOCKS5Cmd env listen deviceID c0 = with_transport env True False (cmd_resolveClientID env c0)
     (\<lambda>c. run_tasks env [RunsSOCKS5 deviceID listen, WaitsInterrupted])"

definition newClientShellCmd :: "cmd_env \<Rightarrow> string \<Rightarrow> Config \<Rightarrow> cmd_action list \<times> cmd_result" where
  "newClientShellCmd env deviceID c0 = with_transport env True False (cmd_resolveClientID env c0)
     (\<lambda>c. run_call env (RunsShell deviceID))"

definition newClientExecCmd :: "cmd_env \<Rightarrow> string \<Rightarrow> time \<Rightarrow> string list \<Rightarrow> Config \<Rightarrow> cmd_action list \<times> cmd_result" where
  "newClientExecCmd env deviceID timeout args c0 = with_transport env True False (cmd_resolveClientID env c0)
     (\<lambda>c. let command = exec_command args in
       (case ceExec env command timeout of
          (code, Some e) \<Rightarrow> ([RunsExec deviceID command timeout], Returns (Some (RunError e)))
        | (code, None) \<Rightarrow> ([RunsExec deviceID command timeout], ExitsWith (exec_exit_code code))))"

definition newClientPingCmd :: "cmd_env \<Rightarrow> string \<Rightarrow> nat \<Rightarrow> time \<Rightarrow> Config \<Rightarrow> cmd_action list \<times> cmd_result" where
  "newClientPingCmd env deviceID pings interval c0 = with_transport env True False (cmd_resolveClientID env c0)
     (\<lambda>c. run_call env (RunsPing deviceID pings interval))"

definition newClientStatusCmd :: "cmd_env \<Rightarrow> Config \<Rightarrow> cmd_action list \<times> cmd_result" where
  "newClientStatusCmd env c0 = with_transport env False False (cmd_resolveClientID env c0) (\<lambda>c. run_call env RunsStatus)"

text \<open>The defaults of the flags that have one, and the flags a command cannot do without.\<close>

definition default_socks_listen :: string where "default_socks_listen = '':1080''"
definition default_exec_timeout :: time where "default_exec_timeout = 60 * Second"
definition default_ping_count :: nat where "default_ping_count = 4"
definition default_ping_interval :: time where "default_ping_interval = Second"

datatype command = CmdDevice | CmdGateway "string list" | CmdTCP "string list" string | CmdSOCKS5 string string
  | CmdShell string | CmdExec string time "string list" | CmdPing string nat time | CmdStatus

fun required_flags :: "command \<Rightarrow> string list" where
  "required_flags (CmdTCP ls dev) = [''local'', ''device'']"
| "required_flags (CmdSOCKS5 listen dev) = [''device'']"
| "required_flags (CmdShell dev) = [''device'']"
| "required_flags (CmdExec dev timeout args) = [''device'']"
| "required_flags (CmdPing dev pings interval) = [''device'']"
| "required_flags _ = []"

fun run_command :: "cmd_env \<Rightarrow> command \<Rightarrow> Config \<Rightarrow> cmd_action list \<times> cmd_result" where
  "run_command env CmdDevice c = newDeviceCmd env c"
| "run_command env (CmdGateway routeFlags) c = newGatewayCmd env routeFlags c"
| "run_command env (CmdTCP ls dev) c = newClientTCPCmd env ls dev c"
| "run_command env (CmdSOCKS5 listen dev) c = newClientSOCKS5Cmd env listen dev c"
| "run_command env (CmdShell dev) c = newClientShellCmd env dev c"
| "run_command env (CmdExec dev timeout args) c = newClientExecCmd env dev timeout args c"
| "run_command env (CmdPing dev pings interval) c = newClientPingCmd env dev pings interval c"
| "run_command env CmdStatus c = newClientStatusCmd env c"

text \<open>The status the process ends with, of which the system keeps eight bits.\<close>

definition process_status :: "cmd_result \<Rightarrow> int" where
  "process_status r = (case r of Returns None \<Rightarrow> 0 | Returns (Some e) \<Rightarrow> 1 | ExitsWith code \<Rightarrow> code mod 256)"

section \<open>Properties\<close>

text \<open>What the part between connecting and closing may do.\<close>

definition inner :: "cmd_action list \<Rightarrow> bool" where
  "inner acts \<longleftrightarrow> (\<forall>a \<in> set acts. a \<noteq> ClosesTransport \<and> (\<forall>c. a \<noteq> Connects c) \<and> (\<forall>l k. a \<noteq> SetsHandler l k))"

text \<open>
  The course of a command. It fails before it connects, or it connects once, with its event handler
  set. If that works, it closes the transport at its end, unless it exits the process.
\<close>

definition good_course :: "cmd_env \<Rightarrow> cmd_action list \<Rightarrow> cmd_result \<Rightarrow> bool" where
  "good_course env acts res \<longleftrightarrow>
     (acts = [] \<and> (\<exists>e. res = Returns (Some e))) \<or>
     (\<exists>l k c rest. acts = SetsHandler l k # Connects c # rest \<and> cfHasHandler c \<and>
        (case defaultConnectTransport env c of
           Some e \<Rightarrow> rest = [] \<and> res = Returns (Some e)
         | None \<Rightarrow> (case res of
             Returns r \<Rightarrow> (\<exists>mid. rest = mid @ [ClosesTransport] \<and> inner mid)
           | ExitsWith code \<Rightarrow> inner rest)))"

lemma with_transport_course:
  assumes "\<And>c. inner (fst (body c))" and "with_transport env l k c0 body = (acts, res)"
  shows "good_course env acts res"
proof -
  define c where "c = c0\<lparr>cfHasHandler := True\<rparr>"
  obtain mid r where b: "body c = (mid, r)" by (cases "body c")
  have "inner mid" using assms(1) [of c] b by simp
  with assms(2) b show ?thesis
    unfolding with_transport_def good_course_def c_def [symmetric] Let_def
    by (cases "defaultConnectTransport env c"; cases r) (auto simp: c_def)
qed

lemma inner_tasks: "inner (fst (run_tasks env tasks))"
  by (auto simp: inner_def run_tasks_def)

lemma with_tasks_course:
  "with_transport env l k c0 (\<lambda>c. run_tasks env (tasks c)) = (acts, res) \<Longrightarrow> good_course env acts res"
  by (rule with_transport_course [OF inner_tasks])

lemma with_call_course:
  "with_transport env l k c0 (\<lambda>c. run_call env act) = (acts, res) \<Longrightarrow> inner [act] \<Longrightarrow> good_course env acts res"
  by (erule with_transport_course [rotated]) (simp add: run_call_def)

lemma run_command_course:
  assumes "run_command env cmd c = (acts, res)"
  shows "good_course env acts res"
proof (cases cmd)
  case CmdDevice
  with assms show ?thesis
    by (simp add: newDeviceCmd_def with_tasks_course)
next
  case (CmdGateway fs)
  show ?thesis
  proof (cases "mergeGatewayRoutes (cfRoutes c) fs")
    case (Inl e)
    with assms CmdGateway show ?thesis
      by (cases e) (auto simp: newGatewayCmd_def good_course_def)
  next
    case (Inr routes)
    have "inner (fst (case New_gateway routes of
        Inl e \<Rightarrow> ([], Returns (Some (GatewayError e)))
      | Inr gw \<Rightarrow> run_tasks env ([RunsGateway gw] @ health_tasks cc @ [WaitsInterrupted])))" for cc
      by (cases "New_gateway routes") (simp_all add: inner_tasks inner_def [of "[]"])
    from with_transport_course [OF this, of env] assms CmdGateway Inr show ?thesis
      by (simp add: newGatewayCmd_def)
  qed
next
  case (CmdTCP ls dev)
  with assms show ?thesis
    by (auto simp: newClientTCPCmd_def good_course_def [of env "[]"] split: sum.splits intro: with_tasks_course)
next
  case (CmdSOCKS5 l dev)
  with assms show ?thesis
    by (simp add: newClientSOCKS5Cmd_def with_tasks_course)
next
  case (CmdShell dev)
  with assms show ?thesis
    by (auto simp: newClientShellCmd_def inner_def intro: with_call_course)
next
  case (CmdExec dev t as)
  have "inner (fst (let command = exec_command as in
       (case ceExec env command t of
          (code, Some e) \<Rightarrow> ([RunsExec dev command t], Returns (Some (RunError e)))
        | (code, None) \<Rightarrow> ([RunsExec dev command t], ExitsWith (exec_exit_code code)))))"
    by (simp add: Let_def inner_def split: prod.split option.split)
  from with_transport_course [OF this, of env] assms CmdExec show ?thesis
    by (simp add: newClientExecCmd_def)
next
  case (CmdPing dev n i)
  with assms show ?thesis
    by (auto simp: newClientPingCmd_def inner_def intro: with_call_course)
next
  case CmdStatus
  with assms show ?thesis
    by (auto simp: newClientStatusCmd_def inner_def intro: with_call_course)
qed

text \<open>Only the command for a remote command ends the process by itself.\<close>

lemma with_transport_exits:
  "with_transport env l k c0 body = (acts, ExitsWith code) \<Longrightarrow> \<exists>c. snd (body c) = ExitsWith code"
  by (auto simp: with_transport_def Let_def split: option.splits prod.splits cmd_result.splits)
     (metis snd_conv)

lemma run_exits: "snd (run_tasks env tasks) \<noteq> ExitsWith code" "snd (run_call env act) \<noteq> ExitsWith code"
  by (simp_all add: run_tasks_def run_call_def)

lemma run_command_exits:
  "run_command env cmd c = (acts, ExitsWith code) \<Longrightarrow> \<exists>dev t args. cmd = CmdExec dev t args"
  by (cases cmd)
     (auto simp: newDeviceCmd_def newGatewayCmd_def newClientTCPCmd_def newClientSOCKS5Cmd_def newClientShellCmd_def
       newClientPingCmd_def newClientStatusCmd_def run_exits dest!: with_transport_exits split: sum.splits)

lemma good_course_exits: "good_course env acts (ExitsWith code) \<Longrightarrow> ClosesTransport \<notin> set acts"
  by (auto simp: good_course_def inner_def split: option.splits)

text \<open>A process on a machine where everything works, with a command that ends with status 3.\<close>

definition example_env :: cmd_env where
  "example_env = \<lparr>ceHostname = Some ''host'', ceExists = (\<lambda>_. False), ceURL = (\<lambda>_. None),
     ceFiles = \<lparr>tfPair = (\<lambda>_ _. None), tfRead = Inr, tfPem = (\<lambda>_. True)\<rparr>, ceDial = (\<lambda>_. None),
     ceVersion = ''1.0'', ceArch = ''amd64'', ceGroup = (\<lambda>_. None), ceRun = (\<lambda>_. None),
     ceExec = (\<lambda>_ _. (3, None))\<rparr>"

lemma example_exec:
  "\<exists>acts. run_command example_env (CmdExec ''dev'' default_exec_timeout [''ls'']) default_config = (acts, ExitsWith 3)"
  by (simp add: newClientExecCmd_def with_transport_def Let_def cmd_resolveClientID_def example_env_def
      defaultConnectTransport_def MQTTOptions_def default_config_def exec_exit_code_def)

end
