(* ===== verification/CommandLine.thy ===== *)
theory CommandLine
  imports Commands
begin

text \<open>
  The command tree of \<open>internal/cmd/cmd.go\<close> with its flags, and \<open>main.go\<close>: from the words of a command
  line to the course of theory \<open>Commands\<close>. Splitting the words into flags is cobra's, filling the
  configuration from file and environment is xconfig's (\<open>xload\<close>, an argument); cobra checks the
  number of words first, then calls the hook that loads, then looks for the required flags.
\<close>

section \<open>Flags\<close>













section \<open>The command tree\<close>





section \<open>A process\<close>



section \<open>Which commands run\<close>






section \<open>Main properties\<close>



end
