(* ===== verification/Spec2Isabelle.thy ===== *)
theory Spec2Isabelle
  imports Pty Keepalive Remote Printing CommandLine
begin

text \<open>
  mqtt-forward carries TCP connections, shells, remote commands and SOCKS5 proxies over an MQTT broker.
  A device (\<open>internal/device\<close>) subscribes to its topics and serves requests; a client
  (\<open>internal/client\<close>) or a gateway of clients (\<open>internal/gateway\<close>) sends them. Control messages are
  JSON documents, data travels in numbered frames (\<open>internal/tunnel\<close>). Each direction of a session has
  a writer with a credit window at one end and, at the other, a reorder buffer with a consumer that
  acknowledges what it has consumed.

  \<^bold>\<open>Parts and theories.\<close>
  \<^item> \<open>Prelude\<close>, \<open>GoStd\<close>, \<open>NetIP\<close>, \<open>JsonText\<close>: machine integers, step relations, and what the program
    uses of Go's standard library: \<open>strconv\<close>, \<open>strings\<close>, \<open>encoding/binary\<close>, \<open>net.ParseIP\<close> and
    \<open>IP.String\<close>, UTF-8, and the text of \<open>encoding/json\<close> with its scanner and its nesting limit.
  \<^item> \<open>Protocol\<close>, \<open>ControlJson\<close>, \<open>Transport\<close>: \<open>tunnel/protocol.go\<close> and \<open>transport.go\<close>: topics,
    frames, the control message on the wire, the transport with its routes.
  \<^item> \<open>Flow\<close>, \<open>Writer\<close>, \<open>Reorder\<close>, \<open>Manager\<close>: the types of \<open>tunnel/session.go\<close>. \<open>Stream\<close> puts writer,
    broker, buffer and consumer of one direction together.
  \<^item> \<open>Sessions\<close>, \<open>Delivery\<close>, \<open>Node\<close>, \<open>Loops\<close>, \<open>Pty\<close>: the four kinds of session (\<open>session_tcp.go\<close>,
    \<open>session_exec.go\<close>, \<open>session_shell.go\<close>), one session's receiving side over time, the heap and the
    manager sessions live in, their goroutines, and the terminal of a shell (\<open>pty_linux.go\<close>,
    \<open>pty_darwin.go\<close>) over the open files of the process.
  \<^item> \<open>Shadow\<close>, \<open>Device\<close>, \<open>Shutdown\<close>: \<open>internal/shadow\<close>, \<open>internal/device\<close>, and \<open>CloseAll\<close> step by
    step beside the device's handlers.
  \<^item> \<open>Socks5\<close>, \<open>Client\<close>, \<open>ClientRuns\<close>, \<open>Keepalive\<close>, \<open>Status\<close>, \<open>Printing\<close>: \<open>internal/socks5\<close> and
    \<open>internal/client\<close>; \<open>Keepalive\<close> is its loop beside all that the client handles, \<open>Printing\<close> what it
    prints, byte by byte.
  \<^item> \<open>Forward\<close>, \<open>Configuration\<close>, \<open>Gateway\<close>, \<open>Service\<close>, \<open>Lifecycle\<close>, \<open>Commands\<close>, \<open>CommandLine\<close>: the
    forward specifications, \<open>internal/config\<close>, the gateway and its routes, \<open>internal/health\<close> and
    \<open>internal/system\<close>, how the parts start and stop, the commands of \<open>internal/cmd\<close>, and the tree of
    commands and flags up to \<open>main.go\<close>.
  \<^item> \<open>Tunnel\<close>, \<open>Uplink\<close>, \<open>Downlink\<close>, \<open>Evolution\<close>, \<open>Credit\<close>, \<open>Remote\<close>, \<open>Exchange\<close>, \<open>Agreement\<close> and
    this theory: a client and a device together. The locale \<open>tunnel_peer\<close> states what a peer must promise so that a session of
    it receives its stream whatever else the peer handles; \<open>Uplink\<close> interprets it for the device,
    \<open>Downlink\<close> for the client. \<open>session_order\<close> is a relation on session objects that every operation
    respects, \<open>credit_peer\<close> extends \<open>tunnel_peer\<close> with the way of the acknowledgements; \<open>Credit\<close>
    interprets them for both peers, and shows that a command's session gets no credit. \<open>Remote\<close> follows a command's output from its pipes to the user's
    terminal, \<open>Exchange\<close> and \<open>Agreement\<close> a request and its answer.

  \<^bold>\<open>How the code is represented.\<close> A struct is a record with the prefixed names of its fields, an
  operation under a mutex a function on it, a handler a function of the peer's state that appends what
  it publishes. Answers of the operating system, the network and third-party packages are arguments.
  Sessions are pointers: the peer has a heap, and closing a session runs its hook on the manager.
  Where the code waits in a \<open>select\<close> or a channel the model has a step relation (\<open>rb_step\<close>, \<open>wr_step\<close>,
  \<open>stream_step\<close>, \<open>device_step\<close>) or a function of the list of what is received, with \<^term>\<open>None\<close> for a
  call that still waits. The iteration order of a Go map is an argument.

  \<^bold>\<open>What is shown.\<close>
  \<^item> A direction of a session: the consumer gets a prefix of what was written, whatever the broker
    repeats, reorders or loses; at most a window is unconsumed; a writer does not stay blocked when
    everything was acknowledged; a complete set of frames is delivered in full. The same from the
    writer at one peer through the handlers of the other, among all its other events, to what the
    session's goroutine takes, in both directions, and back from its acknowledgements to the writer that
    waits for its window.
  \<^item> Both peers: what a remote command prints and its exit status reach the user; when the client's open
    request succeeds, the device has a session for it.
  \<^item> A device: what is in its table is open, every open request has one answer, unknown sessions draw
    rejects as far as the throttle lets them out, the bookkeeping of which is invisible; a command has one
    close message with the right status, behind its output, exactly if that fits one window.
  \<^item> The manager refines one table of sessions with times; closing, expiry and their order of effects;
    \<open>CloseAll\<close> closes its snapshot whatever comes between (and \<open>close_all_forgets\<close>: a session that is
    opened meanwhile is lost). A shell's start leaves no file open when it fails.
  \<^item> The wire: topics, frames and control messages as bytes are read back as they were written, and what
    is read is well formed whatever the bytes.
  \<^item> The client: which answer a request gets, what becomes of a connection, when the keepalive gives up,
    what a ping run prints; which requests the SOCKS5 proxy accepts.
  \<^item> Around it: forwards and routes parse as documented and are served, the course of every command line,
    the status table, the shadow that settles, profiling for local peers only,
    told apart for every address that Go prints (\<open>ParseIP_String\<close>).

  \<^bold>\<open>Bounds.\<close> Sequence numbers are 32-bit words: the properties of a stream hold for fewer than \<open>2 ^ 32\<close>
  frames, and \<open>Insert_wrap\<close> shows what happens after that. Byte counters are 64-bit words; a
  stream of so few frames has fewer than \<open>2 ^ 64\<close> bytes. Only the IPv6 parser has fuel, 8 fields for 16 bytes,
  each field taking two; all other recursion is structural or has a measure. The nesting limit 10,000
  of the JSON scanner is the library's.

  \<^bold>\<open>Not modelled.\<close> The MQTT client and its router, the splitting of words into flags (cobra), the group
  of goroutines and the wait for signals (xcmd), the file and environment loader (xconfig), raw mode
  (x/term), \<open>url.Parse\<close>, TLS, HTTP but for the paths of \<open>ServeMux\<close>, DNS exchanges: code that is not in this repository. Log
  messages are left out. \<open>TrimSpace\<close> and \<open>ToLower\<close> work on ASCII. The percentage of lost pings is
  computed in \<open>float64\<close> for the values that occur, between 0 and 1 before scaling; its distance from the
  true one is proved below \<open>2 ^ 44\<close> pings. Handlers of one peer run one after the other; the
  interleavings of the buffer, the writer, the consumer and \<open>CloseAll\<close> are modelled, those of handlers
  with each other are not.

  \<^bold>\<open>Where documents differ.\<close> docs/protocol.md lists a stale timeout of five minutes, the code has sixty
  seconds (\<open>cleanup_closes_stale\<close>); docs/aws-iot-device-shadow.md has the shadow published every thirty
  minutes with its interfaces as an object, the code publishes on a difference and sends a string
  (\<open>shadow_settles\<close>); docs/configuration.md has routes without a bind address listen on loopback, the
  gateway hands the address to \<open>net.Listen\<close> as it is (\<open>gateway_routes\<close>).

  \<^bold>\<open>Next.\<close> Interleaved handlers of one peer; a remote shell from end to end, as \<open>Remote\<close> has it for a
  command.
\<close>

section \<open>Main properties\<close>

text \<open>C12. An open request goes round: the client publishes one open message, the device answers it with one successful acknowledgement, and with that answer the client's session runs.\<close>

theorem open_handshake:
  assumes "node_inv c" and "mgr_get i c = None" and "node_inv d" and "mgr_get i d = None"
    and "dial target = None" and "handleTCPConn_begin now i target None c = (c1, Some r)"
    and "valid_utf8 i" and "valid_utf8 target"
  shows "\<exists>req ack c2. ndOut c1 = ndOut c @ [req]
     \<and> ndOut (handleControl now' dial sh (pmPayload req) d) = ndOut d @ [ack]
     \<and> (\<exists>q s. mgr_get i (handleControl now' dial sh (pmPayload req) d) = Some q
          \<and> ndHeap (handleControl now' dial sh (pmPayload req) d) q = Some s \<and> ssKind s = KTCP \<and> ssConn s = ResourceOpen)
     \<and> handleTCPConn_end i r Answered (client_handleControl t (pmPayload ack) c1) = Some c2
     \<and> tcp_running i r c2"
  using open_round_trip(1) [where dial = dial and target = target, OF assms]
    open_round_trip(2) [where dial = dial and target = target, OF assms, of now' sh]
    open_round_trip(3) [where dial = dial and target = target, OF assms, of t]
    open_tcp(2) [where dial = dial and target = target and t = "InControlTopic (clID c)"
      and r = "OutControlTopic (clID c)" and now = now' and sh = sh, OF assms(3,5,4,7,8)]
  by blast

theorem open_handshake_witness:
  "\<exists>c1 r c2 (ack :: PubMessage). handleTCPConn_begin 0 ''a'' ''h:1'' None (New_client ''dev'') = (c1, Some r)
     \<and> handleTCPConn_end ''a'' r Answered (client_handleControl 1 (pmPayload ack) c1) = Some c2 \<and> tcp_running ''a'' r c2"
proof -
  have c: "node_inv (New_client ''dev'')" "mgr_get ''a'' (New_client ''dev'') = None"
    by (simp_all add: node_inv_def New_client_def NewSessionManager_def sm_inv_def mgr_get_eq)
  have d: "node_inv (fresh_device ''dev'' [] [])" "mgr_get ''a'' (fresh_device ''dev'' [] []) = None"
    by (simp_all add: node_inv_def fresh_device_eq NewSessionManager_def sm_inv_def mgr_get_eq)
  obtain c1 r where b: "handleTCPConn_begin 0 ''a'' ''h:1'' None (New_client ''dev'') = (c1, Some r)"
    using handleTCPConn_begin_ok [OF c, of 0 "''h:1''"] by blast
  have "(\<lambda>_. None) ''h:1'' = (None :: string option)" by simp
  from open_handshake [OF c d this b _ _, of 0 ShellStarted 1, simplified] obtain ack :: PubMessage and c2 where
      "handleTCPConn_end ''a'' r Answered (client_handleControl 1 (pmPayload ack) c1) = Some c2" "tcp_running ''a'' r c2"
    by (elim exE conjE) (rule that, assumption+)
  with b show ?thesis by blast
qed

text \<open>C36. A ping is answered: the device's one pong, handled by the client, ends the wait with the time that has passed.\<close>

theorem ping_answered:
  assumes "int64_ok ts" and "sendPing_begin i ts None c = (c1, err)"
    and "valid_utf8 i" and "valid_utf8 (dvVersion d)" and "valid_utf8 (dvArch d)"
  shows "\<exists>ping pong. ndOut c1 = ndOut c @ [ping]
     \<and> ndOut (handleControl now dial sh (pmPayload ping) d) = ndOut d @ [pong]
     \<and> pub_control pong = Some (pong_msg i ts (dvVersion d) (dvArch d))
     \<and> sendPing_end i t0 t1 Answered (client_handleControl t (pmPayload pong) c1)
         = Some (del_ack_chan i (client_handleControl t (pmPayload pong) c1), Inr (t1 - t0))"
proof -
  have "wire_ok (pong_msg i ts (dvVersion d) (dvArch d))" using assms by simp
  then show ?thesis
    using ping_round_trip(1) [OF assms] ping_round_trip(2) [OF assms, of now dial sh]
      ping_round_trip(3) [OF assms, where ?t0.0 = t0 and ?t1.0 = t1 and t = t]
    by (auto simp: node_simps pub_control_control_pub)
qed

theorem ping_answered_witness:
  "\<exists>ping. ndOut (fst (sendPing_begin ''p'' 5 None (New_client ''dev''))) = [ping]
     \<and> length (ndOut (handleControl 0 (\<lambda>_. None) ShellStarted (pmPayload ping) (fresh_device ''dev'' ''1'' ''amd64''))) = 1"
proof -
  have ts: "int64_ok 5" by (simp add: int64_ok_def)
  obtain c1 e where b: "sendPing_begin ''p'' 5 None (New_client ''dev'') = (c1, e)"
    by (cases "sendPing_begin ''p'' 5 None (New_client ''dev'')")
  have v: "valid_utf8 (dvVersion (fresh_device ''dev'' ''1'' ''amd64''))" "valid_utf8 (dvArch (fresh_device ''dev'' ''1'' ''amd64''))"
    by (simp_all add: fresh_device_eq)
  have i: "valid_utf8 ''p''" by simp
  from ping_answered [OF ts b i v, where now = 0 and dial = "\<lambda>_. None"
      and sh = ShellStarted]
  obtain ping pong where "ndOut c1 = ndOut (New_client ''dev'') @ [ping]"
    "ndOut (handleControl 0 (\<lambda>_. None) ShellStarted (pmPayload ping) (fresh_device ''dev'' ''1'' ''amd64''))
       = ndOut (fresh_device ''dev'' ''1'' ''amd64'') @ [pong]" by blast
  then show ?thesis unfolding b by (simp add: New_client_def fresh_device_eq)
qed

end
